(* ===== verification/Prelude.thy ===== *)
theory Prelude
  imports Main "HOL-Library.Word" "HOL-Library.Sublist"
begin

text \<open>
  Shared vocabulary of the development: machine integers, the result type of code that may throw,
  byte buffers with checked access, and the generic list and word lemmas that the component
  theories use.

  Conventions.
  \<^item> The default build of the repository is the Release configuration, in which
    \<^verbatim>\<open>assert\<close> is compiled out; assertions are therefore not part of the model, and the theories
    prove the asserted conditions instead where they hold.
  \<^item> An access outside of the storage of a \<^verbatim>\<open>std::vector\<close> is undefined behaviour in C++.  It is
    the value \<open>Undefined_behaviour\<close> of the model, so that memory safety is a theorem about the
    definitions and not a convention.
  \<^item> \<^verbatim>\<open>unsigned\<close> offsets and lengths are natural numbers.  They are bounded by the 16 bit packet
    size plus small constants, so 32 bit arithmetic on them does not wrap; the narrowing casts to
    \<^verbatim>\<open>unsigned short\<close> are written out as \<open>cast_u16\<close>.  Values stored in messages keep their width
    as words.
\<close>

named_theorems res_simps \<open>evaluation of computations that may throw\<close>
named_theorems buf_simps \<open>lengths and elements of spliced buffers\<close>

type_synonym byte = "8 word"
type_synonym u16 = "16 word"
type_synonym u32 = "32 word"

section \<open>Results of code that may throw\<close>

text \<open>
  The exceptions of the source: \<^verbatim>\<open>std::runtime_error\<close>, \<^verbatim>\<open>std::logic_error\<close> and
  \<^verbatim>\<open>network::net_error\<close> (which derives from \<^verbatim>\<open>std::runtime_error\<close>), each with the constant part
  of its message, \<^verbatim>\<open>std::bad_cast\<close>, and undefined behaviour.
\<close>

datatype exn =
    Runtime_error string
  | Logic_error string
  | Net_error string
  | Bad_cast
  | Undefined_behaviour

type_synonym 'a res = "exn + 'a"

definition ebind :: "'e + 'a \<Rightarrow> ('a \<Rightarrow> 'e + 'b) \<Rightarrow> 'e + 'b" where
  "ebind m f = (case m of Inl e \<Rightarrow> Inl e | Inr x \<Rightarrow> f x)"

lemma ebind_simps [simp, res_simps]:
  "ebind (Inl e) f = Inl e"
  "ebind (Inr x) f = f x"
  by (simp_all add: ebind_def)

lemma ebind_eq_Inr_iff [simp]:
  "ebind m f = Inr y \<longleftrightarrow> (\<exists>x. m = Inr x \<and> f x = Inr y)"
  by (simp add: ebind_def split: sum.split)

lemma ebind_eq_Inl_iff:
  "ebind m f = Inl e \<longleftrightarrow> m = Inl e \<or> (\<exists>x. m = Inr x \<and> f x = Inl e)"
  by (auto simp: ebind_def split: sum.split)

lemma ebind_cong [fundef_cong]:
  assumes "m = m'" and "\<And>x. m' = Inr x \<Longrightarrow> f x = g x"
  shows "ebind m f = ebind m' g"
  using assms by (cases m') simp_all

text \<open>
  For evaluation of concrete calls: rewrite only the first computation, so that recursive calls
  in the continuation are not unfolded before their arguments are known.
\<close>

lemma ebind_weak_cong: "m = m' \<Longrightarrow> ebind m f = ebind m' f"
  by simp

lemma ebind_assoc: "ebind (ebind m f) g = ebind m (\<lambda>x. ebind (f x) g)"
  by (cases m) simp_all

definition safe :: "'a res \<Rightarrow> bool" where
  "safe r \<longleftrightarrow> r \<noteq> Inl Undefined_behaviour"

lemma safe_simps [simp]:
  "safe (Inr x)" "safe (Inl (Runtime_error m))" "safe (Inl (Logic_error m))"
  "safe (Inl (Net_error m))" "\<not> safe (Inl Undefined_behaviour)"
  by (simp_all add: safe_def)

lemma safe_ebind [intro!]:
  assumes "safe m" and "\<And>x. m = Inr x \<Longrightarrow> safe (f x)"
  shows "safe (ebind m f)"
  using assms by (cases m) (auto simp: safe_def)

text \<open>A memory safe computation whose result, if there is one, has a property.\<close>

definition ensures :: "'a res \<Rightarrow> ('a \<Rightarrow> bool) \<Rightarrow> bool" where
  "ensures r Q \<longleftrightarrow> (case r of Inl e \<Rightarrow> e \<noteq> Undefined_behaviour | Inr x \<Rightarrow> Q x)"

lemma ensures_simps [simp]:
  "ensures (Inr x) Q \<longleftrightarrow> Q x" "ensures (Inl e) Q \<longleftrightarrow> e \<noteq> Undefined_behaviour"
  by (simp_all add: ensures_def)

lemma ensures_iff: "ensures r Q \<longleftrightarrow> safe r \<and> (\<forall>x. r = Inr x \<longrightarrow> Q x)"
  by (cases r) (auto simp: safe_def)

lemma ensures_ebind:
  assumes "ensures m P" and "\<And>x. m = Inr x \<Longrightarrow> P x \<Longrightarrow> ensures (f x) Q"
  shows "ensures (ebind m f) Q"
  using assms by (cases m) auto

lemma ensures_safe: "ensures r Q \<Longrightarrow> safe r"
  by (simp add: ensures_iff)

lemma ensuresD: "ensures r Q \<Longrightarrow> r = Inr x \<Longrightarrow> Q x"
  by simp

section \<open>Characters and bytes\<close>

definition byte_char :: "byte \<Rightarrow> char" where
  "byte_char b = char_of (unat b)"

definition char_byte :: "char \<Rightarrow> byte" where
  "char_byte c = word_of_nat (of_char c)"

abbreviation char_code :: "char \<Rightarrow> nat" where
  "char_code c \<equiv> of_char c"

lemma char_code_less [simp]: "char_code c < 256"
proof -
  have "char_code c = char_code (char_of (char_code c))" by simp
  also have "\<dots> = char_code c mod 256" by (rule of_char_of)
  finally show ?thesis by (metis mod_less_divisor zero_less_numeral)
qed

lemma unat_char_byte [simp]: "unat (char_byte c) = char_code c"
  by (simp add: char_byte_def unat_of_nat)

lemma byte_char_byte [simp]: "byte_char (char_byte c) = c"
  by (simp add: byte_char_def)

lemma char_byte_char [simp]: "char_byte (byte_char b) = b"
proof -
  have "unat b mod 256 = unat b"
    using unsigned_less [of b, where ?'a = nat] by simp
  then show ?thesis
    by (simp add: byte_char_def char_byte_def)
qed

lemma map_byte_char_byte [simp]: "map byte_char (map char_byte s) = s"
  by (simp add: comp_def)

section \<open>Integer conversions\<close>

definition cast_u16 :: "nat \<Rightarrow> nat" where
  "cast_u16 n = n mod 65536"

lemma cast_u16_id [simp]: "n < 65536 \<Longrightarrow> cast_u16 n = n"
  by (simp add: cast_u16_def)

lemma unat_u16_less [simp]: "unat (w :: u16) < 65536"
  using unsigned_less [of w, where ?'a = nat] by simp

lemma unat_u32_less [simp]: "unat (w :: u32) < 4294967296"
  using unsigned_less [of w, where ?'a = nat] by simp

lemma unat_byte_less [simp]: "unat (b :: byte) < 256"
  using unsigned_less [of b, where ?'a = nat] by simp

lemma word_of_nat_unat_byte [simp]: "word_of_nat (unat b mod 256) = (b :: byte)"
  by simp

section \<open>Byte order\<close>

text \<open>
  Multi-byte loads and stores of a little-endian host, and \<^verbatim>\<open>htons\<close>, \<^verbatim>\<open>ntohs\<close>, \<^verbatim>\<open>htonl\<close>,
  \<^verbatim>\<open>ntohl\<close>, which swap the bytes there.  Bit-fields are allocated from the least significant bit
  on the same targets.
\<close>

definition load_u16 :: "byte \<Rightarrow> byte \<Rightarrow> u16" where
  "load_u16 b0 b1 = word_of_nat (unat b0 + 256 * unat b1)"

definition store_u16 :: "u16 \<Rightarrow> byte list" where
  "store_u16 w = [word_of_nat (unat w mod 256), word_of_nat (unat w div 256)]"

definition htons :: "u16 \<Rightarrow> u16" where
  "htons w = word_of_nat (unat w div 256 + 256 * (unat w mod 256))"

abbreviation ntohs :: "u16 \<Rightarrow> u16" where
  "ntohs \<equiv> htons"

definition load_u32 :: "byte \<Rightarrow> byte \<Rightarrow> byte \<Rightarrow> byte \<Rightarrow> u32" where
  "load_u32 b0 b1 b2 b3 =
     word_of_nat (unat b0 + 256 * unat b1 + 65536 * unat b2 + 16777216 * unat b3)"

definition store_u32 :: "u32 \<Rightarrow> byte list" where
  "store_u32 w =
     [word_of_nat (unat w mod 256), word_of_nat (unat w div 256 mod 256),
      word_of_nat (unat w div 65536 mod 256), word_of_nat (unat w div 16777216)]"

definition htonl :: "u32 \<Rightarrow> u32" where
  "htonl w = word_of_nat
     (unat w div 16777216 + 256 * (unat w div 65536 mod 256)
      + 65536 * (unat w div 256 mod 256) + 16777216 * (unat w mod 256))"

abbreviation ntohl :: "u32 \<Rightarrow> u32" where
  "ntohl \<equiv> htonl"

lemma unat_of_nat_u16: "n < 65536 \<Longrightarrow> unat (word_of_nat n :: u16) = n"
  by (simp add: unat_of_nat)

lemma unat_of_nat_u32: "n < 4294967296 \<Longrightarrow> unat (word_of_nat n :: u32) = n"
  by (simp add: unat_of_nat)

lemma unat_u16_div [simp]: "unat (w :: u16) div 256 < 256"
  by (rule less_mult_imp_div_less) simp

lemma unat_u32_div [simp]: "unat (w :: u32) div 16777216 < 256"
  by (rule less_mult_imp_div_less) simp

lemma unat_load_u16: "unat (load_u16 b0 b1) = unat b0 + 256 * unat b1"
proof -
  have "unat b0 + 256 * unat b1 < 65536"
    using unat_byte_less [of b0] unat_byte_less [of b1] by linarith
  then show ?thesis unfolding load_u16_def by (rule unat_of_nat_u16)
qed

lemma unat_htons: "unat (htons w) = unat w div 256 + 256 * (unat w mod 256)"
proof -
  have "unat w div 256 + 256 * (unat w mod 256) < 65536"
    using unat_u16_div [of w] mod_less_divisor [of 256 "unat w"] by linarith
  then show ?thesis unfolding htons_def by (rule unat_of_nat_u16)
qed

lemma unat_load_u32:
  "unat (load_u32 b0 b1 b2 b3)
    = unat b0 + 256 * unat b1 + 65536 * unat b2 + 16777216 * unat b3"
proof -
  have "unat b0 + 256 * unat b1 + 65536 * unat b2 + 16777216 * unat b3 < 4294967296"
    using unat_byte_less [of b0] unat_byte_less [of b1] unat_byte_less [of b2]
      unat_byte_less [of b3] by linarith
  then show ?thesis unfolding load_u32_def by (rule unat_of_nat_u32)
qed

lemma unat_htonl:
  "unat (htonl w) = unat w div 16777216 + 256 * (unat w div 65536 mod 256)
     + 65536 * (unat w div 256 mod 256) + 16777216 * (unat w mod 256)"
proof -
  have a: "unat w div 16777216 < 256" by simp
  have b: "unat w div 65536 mod 256 < 256" "unat w div 256 mod 256 < 256" "unat w mod 256 < 256"
    by simp_all
  have "unat w div 16777216 + 256 * (unat w div 65536 mod 256)
     + 65536 * (unat w div 256 mod 256) + 16777216 * (unat w mod 256) < 4294967296"
    using a b by linarith
  then show ?thesis unfolding htonl_def by (rule unat_of_nat_u32)
qed

lemma htons_htons [simp]: "htons (htons w) = w"
proof -
  have "unat (htons (htons w)) = unat w"
    unfolding unat_htons using unat_u16_div [of w] by simp
  then show ?thesis by (simp only: word_unat_eq_iff)
qed

lemma hton_0 [simp]: "htons 0 = 0" "htonl 0 = 0"
  by (simp_all add: htons_def htonl_def)

lemma base_256_digits:
  fixes n :: nat
  shows "n = n mod 256 + 256 * (n div 256 mod 256) + 65536 * (n div 65536 mod 256)
    + 16777216 * (n div 16777216)"
proof -
  have "n = n mod 256 + 256 * (n div 256)" by simp
  moreover have "n div 256 = n div 256 mod 256 + 256 * (n div 256 div 256)" by simp
  moreover have "n div 256 div 256 = n div 65536" by (simp add: div_mult2_eq [symmetric])
  moreover have "n div 65536 = n div 65536 mod 256 + 256 * (n div 65536 div 256)" by simp
  moreover have "n div 65536 div 256 = n div 16777216" by (simp add: div_mult2_eq [symmetric])
  ultimately show ?thesis by linarith
qed

lemma digits_of_base_256:
  fixes a b c d :: nat
  assumes "a < 256" "b < 256" "c < 256" "d < 256"
  defines "n \<equiv> a + 256 * b + 65536 * c + 16777216 * d"
  shows "n mod 256 = a" "n div 256 mod 256 = b" "n div 65536 mod 256 = c" "n div 16777216 = d"
proof -
  have n1: "n = a + 256 * (b + 256 * c + 65536 * d)" and n2: "n = (a + 256 * b) + 65536 * (c + 256 * d)"
    and n3: "n = (a + 256 * b + 65536 * c) + 16777216 * d"
    by (simp_all add: n_def)
  show "n mod 256 = a" unfolding n1 using assms(1) by (simp only: mod_mult_self2 mod_less)
  have "n div 256 = b + 256 * (c + 256 * d)" unfolding n1 using assms(1) by simp
  then show "n div 256 mod 256 = b" using assms(2) by (simp only: mod_mult_self2 mod_less)
  have "a + 256 * b < 65536" using assms(1,2) by linarith
  then have "n div 65536 = c + 256 * d" unfolding n2 by simp
  then show "n div 65536 mod 256 = c" using assms(3) by (simp only: mod_mult_self2 mod_less)
  have "a + 256 * b + 65536 * c < 16777216" using assms(1-3) by linarith
  then show "n div 16777216 = d" unfolding n3 by simp
qed

lemma htonl_htonl [simp]: "htonl (htonl w) = w"
proof -
  have "unat (htonl (htonl w)) = unat w"
    unfolding unat_htonl [of "htonl w"] unat_htonl [of w]
    using base_256_digits [of "unat w"]
    by (simp only: digits_of_base_256 [of "unat w div 16777216" "unat w div 65536 mod 256"
          "unat w div 256 mod 256" "unat w mod 256"] unat_u32_div mod_less_divisor zero_less_numeral)
  then show ?thesis by (simp only: word_unat_eq_iff)
qed

lemma length_store_u16 [simp]: "length (store_u16 w) = 2"
  by (simp add: store_u16_def)

lemma length_store_u32 [simp]: "length (store_u32 w) = 4"
  by (simp add: store_u32_def)

lemma load_store_u16 [simp]: "load_u16 (store_u16 w ! 0) (store_u16 w ! 1) = w"
proof -
  have "unat (load_u16 (store_u16 w ! 0) (store_u16 w ! 1)) = unat w"
    by (simp add: unat_load_u16 store_u16_def unat_of_nat del: of_nat_unat)
  then show ?thesis by (simp only: word_unat_eq_iff)
qed

lemma store_load_u16 [simp]: "store_u16 (load_u16 b0 b1) = [b0, b1]"
  using unat_byte_less [of b0] unat_byte_less [of b1]
  by (simp add: store_u16_def unat_load_u16)

lemma load_store_u32 [simp]:
  "load_u32 (store_u32 w ! 0) (store_u32 w ! 1) (store_u32 w ! 2) (store_u32 w ! 3) = w"
proof -
  have "unat (load_u32 (store_u32 w ! 0) (store_u32 w ! 1) (store_u32 w ! 2) (store_u32 w ! 3))
      = unat w"
    using base_256_digits [of "unat w"]
    by (simp add: unat_load_u32 store_u32_def unat_of_nat)
  then show ?thesis by (simp only: word_unat_eq_iff)
qed

lemma store_load_u32 [simp]: "store_u32 (load_u32 b0 b1 b2 b3) = [b0, b1, b2, b3]"
  unfolding store_u32_def unat_load_u32 by (subst digits_of_base_256; simp)+

section \<open>Buffers\<close>

definition slice :: "nat \<Rightarrow> nat \<Rightarrow> 'a list \<Rightarrow> 'a list" where
  "slice i n xs = take n (drop i xs)"

definition overwrite :: "nat \<Rightarrow> 'a list \<Rightarrow> 'a list \<Rightarrow> 'a list" where
  "overwrite i ys xs = take i xs @ ys @ drop (i + length ys) xs"

text \<open>Checked access to the storage of a vector.\<close>

definition read_at :: "'a list \<Rightarrow> nat \<Rightarrow> 'a res" where
  "read_at xs i = (if i < length xs then Inr (xs ! i) else Inl Undefined_behaviour)"

definition read_block :: "'a list \<Rightarrow> nat \<Rightarrow> nat \<Rightarrow> 'a list res" where
  "read_block xs i n =
     (if i + n \<le> length xs then Inr (slice i n xs) else Inl Undefined_behaviour)"

definition write_block :: "'a list \<Rightarrow> nat \<Rightarrow> 'a list \<Rightarrow> 'a list res" where
  "write_block xs i ys =
     (if i + length ys \<le> length xs then Inr (overwrite i ys xs) else Inl Undefined_behaviour)"

lemma length_slice [simp]: "i + n \<le> length xs \<Longrightarrow> length (slice i n xs) = n"
  by (simp add: slice_def)

lemma nth_slice: "k < n \<Longrightarrow> i + n \<le> length xs \<Longrightarrow> slice i n xs ! k = xs ! (i + k)"
  by (simp add: slice_def)

lemma length_overwrite [simp]:
  "i + length ys \<le> length xs \<Longrightarrow> length (overwrite i ys xs) = length xs"
  by (simp add: overwrite_def)

lemma nth_overwrite:
  assumes "i + length ys \<le> length xs" and "k < length xs"
  shows "overwrite i ys xs ! k =
    (if k < i then xs ! k else if k < i + length ys then ys ! (k - i) else xs ! k)"
  using assms by (auto simp: overwrite_def nth_append min_def not_less)

lemma slice_overwrite_same [simp]:
  "i + length ys \<le> length xs \<Longrightarrow> slice i (length ys) (overwrite i ys xs) = ys"
  by (simp add: slice_def overwrite_def)

lemma slice_overwrite_disjoint:
  assumes "i + length ys \<le> length xs" "j + n \<le> length xs" "j + n \<le> i \<or> i + length ys \<le> j"
  shows "slice j n (overwrite i ys xs) = slice j n xs"
  by (rule nth_equalityI) (use assms in \<open>auto simp: nth_slice nth_overwrite\<close>)

lemma take_overwrite: "n \<le> i \<Longrightarrow> i \<le> length xs \<Longrightarrow> take n (overwrite i ys xs) = take n xs"
  by (simp add: overwrite_def)

lemma overwrite_Nil [simp]: "overwrite i [] xs = xs"
  by (simp add: overwrite_def)

lemma overwrite_behind:
  assumes "i + length ys + length zs \<le> length xs"
  shows "overwrite (i + length ys) zs (overwrite i ys xs) = overwrite i (ys @ zs) xs"
  using assms by (cases ys) (auto simp: overwrite_def min_def ac_simps)

lemma overwrite_before:
  assumes "i + length ys + length zs \<le> length xs"
  shows "overwrite i ys (overwrite (i + length ys) zs xs) = overwrite i (ys @ zs) xs"
  using assms by (cases ys) (auto simp: overwrite_def min_def ac_simps)

lemma overwrite_same:
  assumes "i + length zs \<le> length xs" "length ys = length zs"
  shows "overwrite i zs (overwrite i ys xs) = overwrite i zs xs"
  using assms by (simp add: overwrite_def)

lemma take_overwrite_end:
  "i + length ys \<le> length xs \<Longrightarrow> take (i + length ys) (overwrite i ys xs) = take i xs @ ys"
  by (simp add: overwrite_def)

lemma slice_slice: "j + m \<le> n \<Longrightarrow> slice j m (slice i n xs) = slice (i + j) m xs"
  by (simp add: slice_def drop_take min_def add.commute)

lemma slice_append_left: "i + n \<le> length xs \<Longrightarrow> slice i n (xs @ ys) = slice i n xs"
  by (simp add: slice_def)

lemma slice_append_right: "slice (length xs + i) n (xs @ ys) = slice i n ys"
  by (simp add: slice_def)

lemma slice_zero [simp]: "slice 0 n xs = take n xs"
  by (simp add: slice_def)

lemma replicate_numeral: "replicate (numeral k) x = x # replicate (numeral k - 1) x"
  by (simp add: numeral_eq_Suc)

lemma read_at_eq_Inr_iff [simp]: "read_at xs i = Inr x \<longleftrightarrow> i < length xs \<and> xs ! i = x"
  by (auto simp: read_at_def)

lemma read_block_eq_Inr_iff [simp]:
  "read_block xs i n = Inr ys \<longleftrightarrow> i + n \<le> length xs \<and> slice i n xs = ys"
  by (auto simp: read_block_def)

lemma write_block_eq_Inr_iff [simp]:
  "write_block xs i ys = Inr zs \<longleftrightarrow> i + length ys \<le> length xs \<and> overwrite i ys xs = zs"
  by (auto simp: write_block_def)

lemma safe_access [simp]:
  "safe (read_at xs i) \<longleftrightarrow> i < length xs"
  "safe (read_block xs i n) \<longleftrightarrow> i + n \<le> length xs"
  "safe (write_block ys i zs) \<longleftrightarrow> i + length zs \<le> length ys"
  by (simp_all add: read_at_def read_block_def write_block_def)

section \<open>Numbers and strings in files\<close>

text \<open>The bytes of a number in the byte order of the host.\<close>

fun le_bytes :: "nat \<Rightarrow> nat \<Rightarrow> byte list" where
  "le_bytes 0 n = []"
| "le_bytes (Suc k) n = word_of_nat (n mod 256) # le_bytes k (n div 256)"

fun le_value :: "byte list \<Rightarrow> nat" where
  "le_value [] = 0"
| "le_value (b # bs) = unat b + 256 * le_value bs"

definition str_bytes :: "string \<Rightarrow> byte list" where
  "str_bytes s = map char_byte s"

lemma length_le_bytes [simp]: "length (le_bytes k n) = k"
  by (induction k arbitrary: n) simp_all

lemma le_value_bytes [simp]: "n < 256 ^ k \<Longrightarrow> le_value (le_bytes k n) = n"
proof (induction k arbitrary: n)
  case (Suc k)
  have "n div 256 < 256 ^ k" using Suc.prems by (simp add: less_mult_imp_div_less mult.commute)
  then show ?case using Suc.IH [of "n div 256"] by (simp add: unat_of_nat)
qed simp

section \<open>Runs of state machines\<close>

text \<open>
  The event loop calls one handler after the other.  A run is a list of events, each of which must be
  possible in the state it meets; its result is the final state.
\<close>

fun run_events :: "('e \<Rightarrow> 's \<Rightarrow> bool) \<Rightarrow> ('e \<Rightarrow> 's \<Rightarrow> 's) \<Rightarrow> 'e list \<Rightarrow> 's \<Rightarrow> 's option" where
  "run_events enabled step [] s = Some s"
| "run_events enabled step (e # es) s = (if enabled e s then run_events enabled step es (step e s) else None)"

text \<open>
  The interface of a machine with an invariant: a client gets the invariant of every reachable
  state, and of every state that a reachable state is followed by.
\<close>

locale machine =
  fixes enabled :: "'e \<Rightarrow> 's \<Rightarrow> bool"
    and step :: "'e \<Rightarrow> 's \<Rightarrow> 's"
    and inv :: "'s \<Rightarrow> bool"
  assumes preserved: "enabled e s \<Longrightarrow> inv s \<Longrightarrow> inv (step e s)"
begin

lemma run_invariant: "run_events enabled step es s = Some s' \<Longrightarrow> inv s \<Longrightarrow> inv s'"
  by (induction es arbitrary: s) (auto simp: preserved split: if_splits)

lemma run_append:
  "run_events enabled step (es @ fs) s = Some s' \<longleftrightarrow>
    (\<exists>s1. run_events enabled step es s = Some s1 \<and> run_events enabled step fs s1 = Some s')"
  by (induction es arbitrary: s) auto

end

end
