(* ===== verification/Packet.thy ===== *)
theory Packet
  imports Prelude
begin

text \<open>
  \<^verbatim>\<open>network::packet\<close> (\<^verbatim>\<open>network/packet.hxx\<close>, \<^verbatim>\<open>network/srcz/packet.cpp\<close>): a byte vector, whose
  length is the reserved size, and the number of bytes of it that are the message.  The size is an
  \<^verbatim>\<open>unsigned short\<close>.
\<close>

section \<open>Definitions\<close>

record packet =
  pkt_size :: nat
  pkt_bytes :: "byte list"

definition reserved_size :: "packet \<Rightarrow> nat" where
  "reserved_size p = cast_u16 (length (pkt_bytes p))"

definition empty_packet :: packet where
  "empty_packet = \<lparr>pkt_size = 0, pkt_bytes = []\<rparr>"

definition packet_of :: "byte list \<Rightarrow> packet" where
  "packet_of b = \<lparr>pkt_size = cast_u16 (length b), pkt_bytes = b\<rparr>"

definition set_size :: "nat \<Rightarrow> packet \<Rightarrow> packet" where
  "set_size s p = p\<lparr>pkt_size := s\<rparr>"

text \<open>\<^verbatim>\<open>std::vector::resize\<close>: cut off, or extend with zeros.\<close>

definition reserve :: "nat \<Rightarrow> packet \<Rightarrow> packet" where
  "reserve s p = p\<lparr>pkt_bytes := take s (pkt_bytes p) @ replicate (s - length (pkt_bytes p)) 0\<rparr>"

definition packet_append :: "packet \<Rightarrow> packet \<Rightarrow> packet" where
  "packet_append p other =
     (let new_size = pkt_size p + pkt_size other in
      if length (pkt_bytes p) = pkt_size p then
        \<lparr>pkt_size = cast_u16 new_size, pkt_bytes = pkt_bytes p @ take (pkt_size other) (pkt_bytes other)\<rparr>
      else
        let sz = min (length (pkt_bytes p) - pkt_size p) (length (pkt_bytes other));
            b = overwrite (pkt_size p) (take sz (pkt_bytes other)) (pkt_bytes p)
        in \<lparr>pkt_size = cast_u16 new_size,
            pkt_bytes = (if length (pkt_bytes other) > sz then b @ drop sz (pkt_bytes other) else b)\<rparr>)"

definition packet_append_bytes :: "packet \<Rightarrow> byte list \<Rightarrow> packet" where
  "packet_append_bytes p buf = packet_append p (packet_of buf)"

text \<open>
  \<^verbatim>\<open>is_dns\<close>: at least 15 bytes, exactly one question, at most one additional record.  The
  disjunction is evaluated from the left, so bytes are only read from messages of 15 bytes or more.
\<close>

definition is_dns :: "packet \<Rightarrow> bool" where
  "is_dns p \<longleftrightarrow> \<not> (pkt_size p < 15 \<or> pkt_bytes p ! 4 \<noteq> 0 \<or> pkt_bytes p ! 5 \<noteq> 1 \<or> pkt_bytes p ! 10 \<noteq> 0
     \<or> pkt_bytes p ! 11 > 1)"

section \<open>The invariant and the content of a packet\<close>

definition wf_packet :: "packet \<Rightarrow> bool" where
  "wf_packet p \<longleftrightarrow> pkt_size p \<le> length (pkt_bytes p) \<and> length (pkt_bytes p) < 65536"

definition content :: "packet \<Rightarrow> byte list" where
  "content p = take (pkt_size p) (pkt_bytes p)"

lemma wf_packetD:
  assumes "wf_packet p"
  shows "pkt_size p \<le> length (pkt_bytes p)" "length (pkt_bytes p) < 65536" "pkt_size p < 65536"
  using assms by (auto simp: wf_packet_def)

lemma reserved_size_eq: "wf_packet p \<Longrightarrow> reserved_size p = length (pkt_bytes p)"
  by (simp add: reserved_size_def wf_packet_def)

lemma length_content [simp]: "wf_packet p \<Longrightarrow> length (content p) = pkt_size p"
  by (simp add: content_def wf_packet_def)

lemma wf_packet_of [simp]: "length b < 65536 \<Longrightarrow> wf_packet (packet_of b)"
  by (simp add: wf_packet_def packet_of_def)

lemma content_packet_of [simp]: "length b < 65536 \<Longrightarrow> content (packet_of b) = b"
  by (simp add: content_def packet_of_def)

lemma wf_empty_packet [simp]: "wf_packet empty_packet"
  by (simp add: wf_packet_def empty_packet_def)

lemma content_empty_packet [simp]: "content empty_packet = []"
  by (simp add: content_def empty_packet_def)

lemma wf_reserve: "wf_packet p \<Longrightarrow> pkt_size p \<le> s \<Longrightarrow> s < 65536 \<Longrightarrow> wf_packet (reserve s p)"
  by (auto simp: wf_packet_def reserve_def)

lemma content_reserve [simp]: "wf_packet p \<Longrightarrow> pkt_size p \<le> s \<Longrightarrow> content (reserve s p) = content p"
  by (simp add: content_def reserve_def wf_packet_def min_def)

lemma size_reserve [simp]: "pkt_size (reserve s p) = pkt_size p"
  by (simp add: reserve_def)

lemma length_bytes_reserve [simp]: "length (pkt_bytes (reserve s p)) = s"
  by (simp add: reserve_def)

lemma packet_append_content:
  assumes "wf_packet p" "wf_packet q" "pkt_size p + pkt_size q < 65536"
  shows "content (packet_append p q) = content p @ content q"
    and "pkt_size (packet_append p q) = pkt_size p + pkt_size q"
proof -
  let ?sz = "min (length (pkt_bytes p) - pkt_size p) (length (pkt_bytes q))"
  have *: "pkt_size p + ?sz \<le> length (pkt_bytes p)" using assms(1) by (auto simp: wf_packet_def)
  show s: "pkt_size (packet_append p q) = pkt_size p + pkt_size q"
    using assms(3) by (simp add: packet_append_def Let_def)
  show "content (packet_append p q) = content p @ content q"
  proof (cases "length (pkt_bytes p) = pkt_size p")
    case True
    then show ?thesis
      using assms by (simp add: packet_append_def content_def wf_packet_def)
  next
    case False
    show ?thesis
    proof (rule nth_equalityI)
      show "length (content (packet_append p q)) = length (content p @ content q)"
        using assms False by (auto simp: packet_append_def content_def wf_packet_def Let_def min_def)
    next
      fix i assume "i < length (content (packet_append p q))"
      then have i: "i < pkt_size p + pkt_size q"
        by (simp add: content_def s)
      show "content (packet_append p q) ! i = (content p @ content q) ! i"
        using assms False i *
        by (auto simp: packet_append_def content_def wf_packet_def Let_def nth_append nth_overwrite
            overwrite_def not_less min_def)
    qed
  qed
qed

lemma wf_packet_append:
  assumes "wf_packet p" "wf_packet q" "length (pkt_bytes p) + length (pkt_bytes q) < 65536"
  shows "wf_packet (packet_append p q)"
  using assms
  by (auto simp: packet_append_def wf_packet_def Let_def min_def overwrite_def)

section \<open>Properties\<close>

text \<open>
  \<^verbatim>\<open>packet::append\<close> concatenates the two messages whatever either packet has reserved behind
  its message: also when the receiving packet has free reserved space (which is overwritten) and when
  the appended packet has reserved bytes of its own (which do not become part of the message).  The
  size is the sum, and it stays within the storage.
\<close>

lemma packet_append_concatenates:
  assumes "wf_packet p" "wf_packet q" "pkt_size p + pkt_size q < 65536"
  shows "content (packet_append p q) = content p @ content q
    \<and> pkt_size (packet_append p q) = pkt_size p + pkt_size q
    \<and> pkt_size (packet_append p q) \<le> length (pkt_bytes (packet_append p q))"
proof (intro conjI)
  show c: "content (packet_append p q) = content p @ content q"
    and s: "pkt_size (packet_append p q) = pkt_size p + pkt_size q"
    using assms by (rule packet_append_content)+
  have "length (content (packet_append p q)) = pkt_size p + pkt_size q"
    using c assms by simp
  then show "pkt_size (packet_append p q) \<le> length (pkt_bytes (packet_append p q))"
    by (simp add: content_def s)
qed

lemma packet_append_concatenates_witness:
  "let p = \<lparr>pkt_size = 1, pkt_bytes = [7, 0]\<rparr>; q = \<lparr>pkt_size = 2, pkt_bytes = [8, 9, 5]\<rparr>
   in content (packet_append p q) = content p @ content q \<and> content p @ content q = [7, 8, 9]"
  unfolding Let_def
  by (intro conjI packet_append_concatenates [THEN conjunct1])
    (simp_all add: wf_packet_def content_def numeral_2_eq_2)

end
