(* ===== verification/Constants.thy ===== *)
theory Constants
  imports Prelude
begin

text \<open>
  The enumerations of \<^verbatim>\<open>dns/constants.hxx\<close> and \<^verbatim>\<open>dns/query.hxx\<close>.  A value that arrives in a
  message is the number on the wire and need not be one of the named enumerators (the code casts
  it with \<^verbatim>\<open>static_cast\<close>), so parsed fields stay words and the named constants are compared with
  them through their numbers.
\<close>

section \<open>Response codes\<close>

datatype pkt_rcode =
    noerror | formerr | servfail | nxdomain | notimpl | refused | yxdomain | yxrrset | nxrrset
  | notauth | notzone

fun pkt_rcode_num :: "pkt_rcode \<Rightarrow> nat" where
  "pkt_rcode_num noerror = 0"
| "pkt_rcode_num formerr = 1"
| "pkt_rcode_num servfail = 2"
| "pkt_rcode_num nxdomain = 3"
| "pkt_rcode_num notimpl = 4"
| "pkt_rcode_num refused = 5"
| "pkt_rcode_num yxdomain = 6"
| "pkt_rcode_num yxrrset = 7"
| "pkt_rcode_num nxrrset = 8"
| "pkt_rcode_num notauth = 9"
| "pkt_rcode_num notzone = 10"

definition rcode_word :: "pkt_rcode \<Rightarrow> 4 word" where
  "rcode_word r = word_of_nat (pkt_rcode_num r)"

definition all_rcodes :: "pkt_rcode list" where
  "all_rcodes = [noerror, formerr, servfail, nxdomain, notimpl, refused, yxdomain, yxrrset,
     nxrrset, notauth, notzone]"

text \<open>\<^verbatim>\<open>static_cast <pkt_rcode>\<close> of the four bit field: \<open>None\<close> is a value without an enumerator.\<close>

definition rcode_of_word :: "4 word \<Rightarrow> pkt_rcode option" where
  "rcode_of_word w = find (\<lambda>r. rcode_word r = w) all_rcodes"

fun rcode_name :: "pkt_rcode \<Rightarrow> string" where
  "rcode_name noerror = ''NOERROR''"
| "rcode_name refused = ''REFUSED''"
| "rcode_name formerr = ''FORMERR''"
| "rcode_name notauth = ''NOTAUTH''"
| "rcode_name notimpl = ''NOTIMPL''"
| "rcode_name notzone = ''NOTZONE''"
| "rcode_name nxdomain = ''NXDOMAIN''"
| "rcode_name nxrrset = ''NXRRSET''"
| "rcode_name servfail = ''SERVFAIL''"
| "rcode_name yxdomain = ''YXDOMAIN''"
| "rcode_name yxrrset = ''YXRRSET''"

definition pkt_rcode_cstr :: "4 word \<Rightarrow> string res" where
  "pkt_rcode_cstr w = (case rcode_of_word w of
       None \<Rightarrow> Inl (Logic_error ''Invalid DNS RCODE'')
     | Some r \<Rightarrow> Inr (rcode_name r))"

section \<open>Classes, types, flags and operation codes\<close>

datatype rr_class_enum = internet | chaos | hesiod | class_none | class_any

fun rr_class_num :: "rr_class_enum \<Rightarrow> u16" where
  "rr_class_num internet = 1"
| "rr_class_num chaos = 3"
| "rr_class_num hesiod = 4"
| "rr_class_num class_none = 254"
| "rr_class_num class_any = 255"

definition rr_class_cstr :: "u16 \<Rightarrow> string res" where
  "rr_class_cstr c =
     (if c = rr_class_num internet then Inr ''IN''
      else if c = rr_class_num chaos then Inr ''CHAOS''
      else if c = rr_class_num hesiod then Inr ''HESIOD''
      else if c = rr_class_num class_none then Inr ''NONE''
      else if c = rr_class_num class_any then Inr ''ANY''
      else Inl (Logic_error ''Invalid DNS RR CLASS''))"

text \<open>The enumerators of \<^verbatim>\<open>rr_type\<close> with their values, in the order of the source.\<close>

definition rr_types :: "(string \<times> nat) list" where
  "rr_types = [
    (''a'', 1), (''ns'', 2), (''md'', 3), (''mf'', 4), (''cname'', 5), (''soa'', 6), (''mb'', 7),
    (''mg'', 8), (''mr'', 9), (''null'', 10), (''wks'', 11), (''ptr'', 12), (''hinfo'', 13),
    (''minfo'', 14), (''mx'', 15), (''txt'', 16), (''rp'', 17), (''afsdb'', 18), (''x25'', 19),
    (''isdn'', 20), (''rt'', 21), (''nsap'', 22), (''nsap_ptr'', 23), (''sig'', 24),
    (''key'', 25), (''px'', 26), (''gpos'', 27), (''aaaa'', 28), (''loc'', 29), (''nxt'', 30),
    (''eid'', 31), (''nimloc'', 32), (''srv'', 33), (''atma'', 34), (''naptr'', 35), (''kx'', 36),
    (''cert'', 37), (''a6'', 38), (''dname'', 39), (''sink'', 40), (''opt'', 41), (''apl'', 42),
    (''ds'', 43), (''sshfp'', 44), (''ipseckey'', 45), (''rrsig'', 46), (''nsec'', 47),
    (''dnskey'', 48), (''dhcid'', 49), (''nsec3'', 50), (''nsec3param'', 51),
    (''nsec3params'', 51), (''tlsa'', 52), (''smimea'', 53), (''hip'', 55), (''ninfo'', 56),
    (''rkey'', 57), (''talink'', 58), (''cds'', 59), (''cdnskey'', 60), (''openpgpkey'', 61),
    (''csync'', 62), (''spf'', 99), (''uinfo'', 100), (''uid'', 101), (''gid'', 102),
    (''unspec'', 103), (''nid'', 104), (''l32'', 105), (''l64'', 106), (''lp'', 107),
    (''eui48'', 108), (''eui64'', 109), (''tkey'', 249), (''tsig'', 250), (''ixfr'', 251),
    (''axfr'', 252), (''mailb'', 253), (''maila'', 254), (''any'', 255), (''uri'', 256),
    (''caa'', 257), (''avc'', 258), (''ta'', 32768), (''dlv'', 32769)]"

definition rr_type_num :: "string \<Rightarrow> u16 option" where
  "rr_type_num s = map_option word_of_nat (map_of rr_types s)"

definition type_a :: u16 where "type_a = 1"
definition type_txt :: u16 where "type_txt = 16"
definition type_aaaa :: u16 where "type_aaaa = 28"
definition type_opt :: u16 where "type_opt = 41"

datatype pkt_flag = flag_qr | flag_aa | flag_tc | flag_ra | flag_rd

datatype pkt_opcode = op_query | op_iquery | op_status

fun pkt_opcode_num :: "pkt_opcode \<Rightarrow> 4 word" where
  "pkt_opcode_num op_query = 0"
| "pkt_opcode_num op_iquery = 1"
| "pkt_opcode_num op_status = 2"

definition max_host_name_length :: nat where
  "max_host_name_length = 256"

text \<open>\<^verbatim>\<open>query::max_size\<close> is \<^verbatim>\<open>-10000U + std::max (65535, 65536 - 20 - 8)\<close>.\<close>

definition max_size :: nat where
  "max_size = 55535"

section \<open>Lemmas\<close>

lemma all_rcodes_complete [simp]: "r \<in> set all_rcodes"
  by (cases r) (simp_all add: all_rcodes_def)

lemma pkt_rcode_num_less: "pkt_rcode_num r < 11"
  by (cases r) simp_all

lemma unat_rcode_word [simp]: "unat (rcode_word r) = pkt_rcode_num r"
  by (cases r) (simp_all add: rcode_word_def)

lemma rcode_word_inj [simp]: "rcode_word r = rcode_word s \<longleftrightarrow> r = s"
proof
  assume "rcode_word r = rcode_word s"
  then have "pkt_rcode_num r = pkt_rcode_num s" by (metis unat_rcode_word)
  then show "r = s" by (cases r; cases s) simp_all
qed simp

lemma rcode_of_rcode_word [simp]: "rcode_of_word (rcode_word r) = Some r"
  by (cases r) (simp_all add: rcode_of_word_def all_rcodes_def)

lemma rcode_of_word_Some_iff: "rcode_of_word w = Some r \<longleftrightarrow> w = rcode_word r"
proof
  assume "rcode_of_word w = Some r"
  then show "w = rcode_word r" by (auto simp: rcode_of_word_def find_Some_iff)
qed simp

lemma rr_types_used:
  "rr_type_num ''a'' = Some type_a" "rr_type_num ''txt'' = Some type_txt"
  "rr_type_num ''aaaa'' = Some type_aaaa" "rr_type_num ''opt'' = Some type_opt"
  by (simp_all add: rr_type_num_def rr_types_def type_a_def type_txt_def type_aaaa_def type_opt_def)

end
