(* ===== verification/Message_Header.thy ===== *)
theory Message_Header
  imports Constants
begin

text \<open>
  The packed structures of \<^verbatim>\<open>dns/message_header.hxx\<close> and their layout in memory.  The functions
  \<open>load_\<dots>\<close> and \<open>store_\<dots>\<close> are what \<^verbatim>\<open>reinterpret_cast\<close> to the packed structure reads and writes on
  a little-endian host; the byte swaps of \<^verbatim>\<open>query::header\<close>, \<^verbatim>\<open>query::set_header\<close> and of the
  resource record readers are applied on top of them.
\<close>

section \<open>Definitions\<close>

record message_header =
  h_id :: u16
  h_rd :: bool
  h_tc :: bool
  h_aa :: bool
  h_opcode :: "4 word"
  h_qr :: bool
  h_rcode :: "4 word"
  h_z :: "3 word"
  h_ra :: bool
  h_qdcount :: u16
  h_ancount :: u16
  h_nscount :: u16
  h_arcount :: u16

record rr_header =
  rr_type :: u16
  rr_class :: u16
  rr_ttl :: u32
  rr_rdlength :: u16

definition header_size :: nat where "header_size = 12"
definition rr_header_size :: nat where "rr_header_size = 10"
definition rr_question_size :: nat where "rr_question_size = 4"

text \<open>The two bytes of bit-fields: \<^verbatim>\<open>rd tc aa opcode:4 qr\<close> and \<^verbatim>\<open>rcode:4 z:3 ra\<close>.\<close>

definition flags_lo :: "message_header \<Rightarrow> byte" where
  "flags_lo h = word_of_nat (of_bool (h_rd h) + 2 * of_bool (h_tc h) + 4 * of_bool (h_aa h)
     + 8 * unat (h_opcode h) + 128 * of_bool (h_qr h))"

definition flags_hi :: "message_header \<Rightarrow> byte" where
  "flags_hi h = word_of_nat (unat (h_rcode h) + 16 * unat (h_z h) + 128 * of_bool (h_ra h))"

definition store_header :: "message_header \<Rightarrow> byte list" where
  "store_header h =
     store_u16 (h_id h) @ [flags_lo h, flags_hi h] @ store_u16 (h_qdcount h)
     @ store_u16 (h_ancount h) @ store_u16 (h_nscount h) @ store_u16 (h_arcount h)"

definition load_header :: "byte list \<Rightarrow> message_header" where
  "load_header b =
     \<lparr>h_id = load_u16 (b ! 0) (b ! 1),
      h_rd = odd (unat (b ! 2)), h_tc = odd (unat (b ! 2) div 2), h_aa = odd (unat (b ! 2) div 4),
      h_opcode = word_of_nat (unat (b ! 2) div 8 mod 16), h_qr = odd (unat (b ! 2) div 128),
      h_rcode = word_of_nat (unat (b ! 3) mod 16), h_z = word_of_nat (unat (b ! 3) div 16 mod 8),
      h_ra = odd (unat (b ! 3) div 128),
      h_qdcount = load_u16 (b ! 4) (b ! 5), h_ancount = load_u16 (b ! 6) (b ! 7),
      h_nscount = load_u16 (b ! 8) (b ! 9), h_arcount = load_u16 (b ! 10) (b ! 11)\<rparr>"

text \<open>The conversions between host and network order of all 16 bit fields.\<close>

definition swap_header :: "message_header \<Rightarrow> message_header" where
  "swap_header h = h\<lparr>h_id := ntohs (h_id h), h_qdcount := ntohs (h_qdcount h),
     h_ancount := ntohs (h_ancount h), h_nscount := ntohs (h_nscount h),
     h_arcount := ntohs (h_arcount h)\<rparr>"

definition zero_header :: message_header where
  "zero_header = \<lparr>h_id = 0, h_rd = False, h_tc = False, h_aa = False, h_opcode = 0, h_qr = False,
     h_rcode = 0, h_z = 0, h_ra = False, h_qdcount = 0, h_ancount = 0, h_nscount = 0,
     h_arcount = 0\<rparr>"

text \<open>\<^verbatim>\<open>rr_question_header\<close> is the first two fields of \<^verbatim>\<open>rr_header\<close>.\<close>

definition store_rr_question :: "rr_header \<Rightarrow> byte list" where
  "store_rr_question r = store_u16 (rr_type r) @ store_u16 (rr_class r)"

definition store_rr_header :: "rr_header \<Rightarrow> byte list" where
  "store_rr_header r =
     store_rr_question r @ store_u32 (rr_ttl r) @ store_u16 (rr_rdlength r)"

definition load_rr_question :: "byte list \<Rightarrow> rr_header \<Rightarrow> rr_header" where
  "load_rr_question b r =
     r\<lparr>rr_type := load_u16 (b ! 0) (b ! 1), rr_class := load_u16 (b ! 2) (b ! 3)\<rparr>"

definition load_rr_header :: "byte list \<Rightarrow> rr_header" where
  "load_rr_header b =
     \<lparr>rr_type = load_u16 (b ! 0) (b ! 1), rr_class = load_u16 (b ! 2) (b ! 3),
      rr_ttl = load_u32 (b ! 4) (b ! 5) (b ! 6) (b ! 7), rr_rdlength = load_u16 (b ! 8) (b ! 9)\<rparr>"

definition swap_rr_header :: "rr_header \<Rightarrow> rr_header" where
  "swap_rr_header r = \<lparr>rr_type = ntohs (rr_type r), rr_class = ntohs (rr_class r),
     rr_ttl = ntohl (rr_ttl r), rr_rdlength = ntohs (rr_rdlength r)\<rparr>"

section \<open>Lemmas\<close>

lemmas header_sizes [simp] = header_size_def rr_header_size_def rr_question_size_def

lemma unat_u4_less [simp]: "unat (w :: 4 word) < 16"
  using unsigned_less [of w, where ?'a = nat] by simp

lemma unat_u3_less [simp]: "unat (w :: 3 word) < 8"
  using unsigned_less [of w, where ?'a = nat] by simp

lemma unat_of_nat_byte: "n < 256 \<Longrightarrow> unat (word_of_nat n :: byte) = n"
  by (simp add: unat_of_nat)

lemma of_bool_odd: "of_bool (odd n) = n mod (2 :: nat)"
  by (simp add: mod_2_eq_odd)

lemma of_bool_nat_less [simp]: "of_bool b < (2 :: nat)"
  by (cases b) simp_all

lemma unat_flags_lo:
  "unat (flags_lo h) = of_bool (h_rd h) + 2 * of_bool (h_tc h) + 4 * of_bool (h_aa h)
     + 8 * unat (h_opcode h) + 128 * of_bool (h_qr h)"
  unfolding flags_lo_def
  by (rule unat_of_nat_byte)
    (use unat_u4_less [of "h_opcode h"] of_bool_nat_less [of "h_rd h"] of_bool_nat_less [of "h_tc h"]
      of_bool_nat_less [of "h_aa h"] of_bool_nat_less [of "h_qr h"] in linarith)

lemma unat_flags_hi:
  "unat (flags_hi h) = unat (h_rcode h) + 16 * unat (h_z h) + 128 * of_bool (h_ra h)"
  unfolding flags_hi_def
  by (rule unat_of_nat_byte)
    (use unat_u4_less [of "h_rcode h"] unat_u3_less [of "h_z h"] of_bool_nat_less [of "h_ra h"]
      in linarith)

lemma radix_step:
  fixes a k m :: nat
  assumes "a < k"
  shows "(a + k * m) mod k = a" "(a + k * m) div k = m"
  using assms by simp_all

lemma div_chain:
  fixes n :: nat
  shows "n div 4 = n div 2 div 2" "n div 8 = n div 2 div 2 div 2"
    "n div 128 = n div 2 div 2 div 2 div 16" "n div 128 = n div 16 div 8"
  by (simp_all add: div_mult2_eq [symmetric])

lemma flags_lo_fields:
  fixes q :: nat
  assumes "n = of_bool a + 2 * of_bool b + 4 * of_bool c + 8 * q + 128 * of_bool d" "q < 16"
  shows "odd n = a" "odd (n div 2) = b" "odd (n div 4) = c" "n div 8 mod 16 = q"
    "odd (n div 128) = d"
proof -
  have n: "n = of_bool a + 2 * (of_bool b + 2 * (of_bool c + 2 * (q + 16 * of_bool d)))"
    using assms(1) by simp
  have d: "n div 2 = of_bool b + 2 * (of_bool c + 2 * (q + 16 * of_bool d))"
    "n div 2 div 2 = of_bool c + 2 * (q + 16 * of_bool d)"
    "n div 2 div 2 div 2 = q + 16 * of_bool d"
    unfolding n by (simp_all only: radix_step of_bool_nat_less)
  have e: "odd (of_bool x + 2 * m) = x" for x and m :: nat
    by simp
  show "odd n = a" unfolding n by (rule e)
  show "odd (n div 2) = b" "odd (n div 4) = c"
    unfolding div_chain(1) d(2) unfolding d(1) by (rule e)+
  show "n div 8 mod 16 = q" "odd (n div 128) = d"
    unfolding div_chain(2,3) d(3) using assms(2) by (simp_all only: radix_step) simp
qed

lemma flags_hi_fields:
  fixes q z :: nat
  assumes "n = q + 16 * z + 128 * of_bool a" "q < 16" "z < 8"
  shows "n mod 16 = q" "n div 16 mod 8 = z" "odd (n div 128) = a"
proof -
  have n: "n = q + 16 * (z + 8 * of_bool a)"
    using assms(1) by simp
  show "n mod 16 = q" unfolding n using assms(2) by (simp only: radix_step)
  have d: "n div 16 = z + 8 * of_bool a" unfolding n using assms(2) by (simp only: radix_step)
  show "n div 16 mod 8 = z" "odd (n div 128) = a"
    unfolding div_chain(4) d using assms(3) by (simp_all only: radix_step) simp
qed

lemma flags_lo_digits:
  fixes n :: nat
  assumes "n < 256"
  shows "n mod 2 + 2 * (n div 2 mod 2) + 4 * (n div 4 mod 2) + 8 * (n div 8 mod 16)
    + 128 * (n div 128 mod 2) = n"
proof -
  have "n div 128 < 2" using assms by (simp add: less_mult_imp_div_less)
  then have "n div 128 mod 2 = n div 2 div 2 div 2 div 16" by (simp only: mod_less div_chain(3))
  then show ?thesis
    unfolding div_chain(1,2)
    using div_mult_mod_eq [of n 2] div_mult_mod_eq [of "n div 2" 2]
      div_mult_mod_eq [of "n div 2 div 2" 2] div_mult_mod_eq [of "n div 2 div 2 div 2" 16]
    by linarith
qed

lemma flags_hi_digits:
  fixes n :: nat
  assumes "n < 256"
  shows "n mod 16 + 16 * (n div 16 mod 8) + 128 * (n div 128 mod 2) = n"
proof -
  have "n div 128 < 2" using assms by (simp add: less_mult_imp_div_less)
  then have "n div 128 mod 2 = n div 16 div 8" by (simp only: mod_less div_chain(4))
  then show ?thesis
    using div_mult_mod_eq [of n 16] div_mult_mod_eq [of "n div 16" 8] by linarith
qed

lemma length_store_header [simp]: "length (store_header h) = 12"
  by (simp add: store_header_def)

lemma length_store_rr [simp]:
  "length (store_rr_question r) = 4" "length (store_rr_header r) = 10"
  by (simp_all add: store_rr_question_def store_rr_header_def)

lemma swap_swap_header [simp]: "swap_header (swap_header h) = h"
  by (simp add: swap_header_def)

lemma swap_swap_rr_header [simp]: "swap_rr_header (swap_rr_header r) = r"
  by (simp add: swap_rr_header_def)

lemma nth_store_u16:
  "store_u16 w = [store_u16 w ! 0, store_u16 w ! 1]"
  "store_u32 v = [store_u32 v ! 0, store_u32 v ! 1, store_u32 v ! 2, store_u32 v ! 3]"
  by (simp_all add: store_u16_def store_u32_def)

lemma load_store_header [simp]: "load_header (store_header h) = h"
proof -
  have b: "store_header h = [store_u16 (h_id h) ! 0, store_u16 (h_id h) ! 1, flags_lo h, flags_hi h,
      store_u16 (h_qdcount h) ! 0, store_u16 (h_qdcount h) ! 1,
      store_u16 (h_ancount h) ! 0, store_u16 (h_ancount h) ! 1,
      store_u16 (h_nscount h) ! 0, store_u16 (h_nscount h) ! 1,
      store_u16 (h_arcount h) ! 0, store_u16 (h_arcount h) ! 1]"
    unfolding store_header_def by (simp add: store_u16_def)
  have "load_u16 (store_u16 w ! 0) (store_u16 w ! Suc 0) = w" for w
    using load_store_u16 [of w] by simp
  then show ?thesis
    unfolding load_header_def b
    by (simp add: flags_lo_fields [OF unat_flags_lo] flags_hi_fields [OF unat_flags_hi])
qed

lemma store_load_header:
  assumes "length b = 12"
  shows "store_header (load_header b) = b"
proof -
  have lo: "flags_lo (load_header b) = b ! 2"
    unfolding word_unat_eq_iff unat_flags_lo
    using flags_lo_digits [of "unat (b ! 2)"]
    by (simp add: load_header_def of_bool_odd unat_of_nat del: of_nat_unat mod_less)
  have hi: "flags_hi (load_header b) = b ! 3"
    unfolding word_unat_eq_iff unat_flags_hi
    using flags_hi_digits [of "unat (b ! 3)"]
    by (simp add: load_header_def of_bool_odd unat_of_nat del: of_nat_unat mod_less)
  have "store_header (load_header b) =
      [b ! 0, b ! 1, b ! 2, b ! 3, b ! 4, b ! 5, b ! 6, b ! 7, b ! 8, b ! 9, b ! 10, b ! 11]"
    by (simp add: store_header_def lo hi) (simp add: load_header_def)
  also have "\<dots> = map (nth b) [0..<12]"
    by (simp add: upt_rec numeral_nat)
  also have "\<dots> = b"
    using map_nth [of b] assms by simp
  finally show ?thesis .
qed

lemma load_store_rr_header [simp]: "load_rr_header (store_rr_header r) = r"
proof -
  have 16: "load_u16 (store_u16 w ! 0) (store_u16 w ! Suc 0) = w" for w
    using load_store_u16 [of w] by simp
  have 32: "load_u32 (store_u32 w ! 0) (store_u32 w ! Suc 0) (store_u32 w ! 2) (store_u32 w ! 3) = w"
    for w
    using load_store_u32 [of w] by simp
  have "store_rr_header r = [store_u16 (rr_type r) ! 0, store_u16 (rr_type r) ! 1,
      store_u16 (rr_class r) ! 0, store_u16 (rr_class r) ! 1,
      store_u32 (rr_ttl r) ! 0, store_u32 (rr_ttl r) ! 1, store_u32 (rr_ttl r) ! 2,
      store_u32 (rr_ttl r) ! 3, store_u16 (rr_rdlength r) ! 0, store_u16 (rr_rdlength r) ! 1]"
    unfolding store_rr_header_def store_rr_question_def by (simp add: store_u16_def store_u32_def)
  then show ?thesis
    by (simp add: load_rr_header_def 16 32)
qed

lemma load_rr_question_store [simp]:
  "load_rr_question (store_rr_question r) s = s\<lparr>rr_type := rr_type r, rr_class := rr_class r\<rparr>"
proof -
  have "load_u16 (store_u16 w ! 0) (store_u16 w ! Suc 0) = w" for w
    using load_store_u16 [of w] by simp
  moreover have "store_rr_question r = [store_u16 (rr_type r) ! 0, store_u16 (rr_type r) ! 1,
      store_u16 (rr_class r) ! 0, store_u16 (rr_class r) ! 1]"
    unfolding store_rr_question_def by (simp add: store_u16_def)
  ultimately show ?thesis by (simp add: load_rr_question_def)
qed

end
