(* ===== verification/Str.thy ===== *)
theory Str
  imports Prelude
begin

text \<open>
  The string helpers of \<^verbatim>\<open>sys/srcz/str.cpp\<close>.  All of them use the classic locale, in which
  \<^verbatim>\<open>std::tolower\<close> maps the 26 ASCII capitals and nothing else.  The overloads on
  \<^verbatim>\<open>const char *\<close> stop at the first NUL, the overloads on \<^verbatim>\<open>std::string\<close> do not.  \<^verbatim>\<open>char\<close> is
  signed on the targets of the repository.
\<close>

section \<open>Definitions\<close>

definition NUL :: char where
  "NUL = CHR 0x00"

definition to_lower :: "char \<Rightarrow> char" where
  "to_lower c = (if 65 \<le> char_code c \<and> char_code c \<le> 90 then char_of (char_code c + 32) else c)"

definition schar :: "char \<Rightarrow> int" where
  "schar c = (if char_code c < 128 then int (char_code c) else int (char_code c) - 256)"

text \<open>The characters before the terminating NUL of a C string.\<close>

definition c_str :: "string \<Rightarrow> string" where
  "c_str s = takeWhile (\<lambda>c. c \<noteq> NUL) s"

definition ascii_tolower :: "string \<Rightarrow> string" where
  "ascii_tolower s = map to_lower s"

definition ascii_tolower_copy :: "string \<Rightarrow> string" where
  "ascii_tolower_copy s = map to_lower s"

definition ascii_tolower_cstr :: "string \<Rightarrow> string" where
  "ascii_tolower_cstr s = map to_lower (c_str s) @ drop (length (c_str s)) s"

definition ascii_tolower_copy_cstr :: "string \<Rightarrow> string" where
  "ascii_tolower_copy_cstr s = map to_lower (c_str s)"

text \<open>
  \<^verbatim>\<open>*s1++\<close> of a C string: its next character, NUL at its end (nothing is read behind the NUL,
  because the loop returns there).
\<close>

definition c_next :: "string \<Rightarrow> char" where
  "c_next s = (case s of [] \<Rightarrow> NUL | c # _ \<Rightarrow> c)"

fun strcasecmp_loop :: "nat \<Rightarrow> string \<Rightarrow> string \<Rightarrow> int option" where
  "strcasecmp_loop 0 s1 s2 = None"
| "strcasecmp_loop (Suc fuel) s1 s2 =
     (let c1 = to_lower (c_next s1); c2 = to_lower (c_next s2) in
      if schar c1 < schar c2 then Some (- 1)
      else if schar c1 > schar c2 then Some 1
      else if c1 = NUL \<or> c2 = NUL then Some 0
      else strcasecmp_loop fuel (tl s1) (tl s2))"

text \<open>One round per character of the shorter string and one for its NUL are enough.\<close>

definition ascii_strcasecmp :: "string \<Rightarrow> string \<Rightarrow> int option" where
  "ascii_strcasecmp s1 s2 = strcasecmp_loop (Suc (min (length s1) (length s2))) s1 s2"

section \<open>Lemmas\<close>

lemma char_code_NUL [simp]: "char_code NUL = 0"
  by (simp add: NUL_def)

lemma char_code_eq_0_iff: "char_code c = 0 \<longleftrightarrow> c = NUL"
  by (metis char_code_NUL of_char_eq_iff)

lemma char_code_to_lower:
  "char_code (to_lower c) =
    (if 65 \<le> char_code c \<and> char_code c \<le> 90 then char_code c + 32 else char_code c)"
  by (auto simp: to_lower_def)

lemma to_lower_idem [simp]: "to_lower (to_lower c) = to_lower c"
  by (simp add: to_lower_def)

lemma to_lower_eq_NUL_iff [simp]: "to_lower c = NUL \<longleftrightarrow> c = NUL"
  by (simp add: char_code_eq_0_iff [symmetric] char_code_to_lower)

lemma NUL_eq_to_lower_iff [simp]: "NUL = to_lower c \<longleftrightarrow> c = NUL"
  using to_lower_eq_NUL_iff [of c] by metis

lemma to_lower_NUL [simp]: "to_lower NUL = NUL"
  by simp

lemma schar_eq_iff [simp]: "schar c = schar d \<longleftrightarrow> c = d"
proof
  assume "schar c = schar d"
  then have "char_code c = char_code d"
    using char_code_less [of c] char_code_less [of d]
    by (simp add: schar_def del: char_code_less of_char_eq_iff split: if_splits)
  then show "c = d" by simp
qed simp

lemma ascii_tolower_idem [simp]:
  "ascii_tolower_copy (ascii_tolower_copy s) = ascii_tolower_copy s"
  by (simp add: ascii_tolower_copy_def)

lemma length_ascii_tolower_copy [simp]: "length (ascii_tolower_copy s) = length s"
  by (simp add: ascii_tolower_copy_def)

lemma ascii_tolower_eq_copy: "ascii_tolower s = ascii_tolower_copy s"
  by (simp add: ascii_tolower_def ascii_tolower_copy_def)

lemma c_str_Cons: "c_str (c # s) = (if c = NUL then [] else c # c_str s)"
  by (simp add: c_str_def)

lemma c_str_Nil [simp]: "c_str [] = []"
  by (simp add: c_str_def)

lemma c_str_idem: "NUL \<notin> set s \<Longrightarrow> c_str s = s"
  unfolding c_str_def by (rule takeWhile_eq_all_conv [THEN iffD2]) auto

lemma c_next_simps [simp]: "c_next [] = NUL" "c_next (c # s) = c"
  by (simp_all add: c_next_def)

lemma strcasecmp_loop_returns:
  "min (length s1) (length s2) < fuel \<Longrightarrow> \<exists>r \<in> {- 1, 0, 1}. strcasecmp_loop fuel s1 s2 = Some r"
proof (induction fuel arbitrary: s1 s2)
  case (Suc fuel)
  show ?case
  proof (cases "s1 = [] \<or> s2 = []")
    case True
    then show ?thesis by (auto simp: Let_def)
  next
    case False
    with Suc.prems have "min (length (tl s1)) (length (tl s2)) < fuel"
      by (cases s1; cases s2) auto
    with Suc.IH show ?thesis by (simp add: Let_def)
  qed
qed simp

lemma strcasecmp_loop_eq_0_iff:
  "min (length s1) (length s2) < fuel \<Longrightarrow>
   strcasecmp_loop fuel s1 s2 = Some 0 \<longleftrightarrow> map to_lower (c_str s1) = map to_lower (c_str s2)"
proof (induction fuel arbitrary: s1 s2)
  case (Suc fuel)
  show ?case
  proof (cases s1; cases s2)
    fix c1 t1 c2 t2 assume s: "s1 = c1 # t1" "s2 = c2 # t2"
    with Suc.prems have "min (length t1) (length t2) < fuel" by simp
    from Suc.IH [OF this] show ?thesis
      by (auto simp: s Let_def c_str_Cons less_le)
  qed (auto simp: Let_def c_str_Cons less_le)
qed simp

lemma strcasecmp_loop_swap:
  "strcasecmp_loop fuel s2 s1 = map_option uminus (strcasecmp_loop fuel s1 s2)"
proof (induction fuel arbitrary: s1 s2)
  case (Suc fuel)
  consider "schar (to_lower (c_next s1)) < schar (to_lower (c_next s2))"
    | "schar (to_lower (c_next s1)) > schar (to_lower (c_next s2))"
    | "to_lower (c_next s1) = to_lower (c_next s2)"
    by (meson linorder_neqE schar_eq_iff)
  then show ?case
    by cases (simp_all add: Let_def Suc.IH [of "tl s2" "tl s1"])
qed simp

section \<open>Properties\<close>

text \<open>
  C33. \<^verbatim>\<open>ascii_strcasecmp\<close> always returns, with -1, 0 or 1; it returns 0 exactly when the two C
  strings are equal up to the case of ASCII letters, and swapping its arguments negates the result.
\<close>

theorem ascii_strcasecmp_correct:
  "\<exists>r. ascii_strcasecmp s t = Some r \<and> r \<in> {- 1, 0, 1}
     \<and> (r = 0 \<longleftrightarrow> ascii_tolower_copy_cstr s = ascii_tolower_copy_cstr t)
     \<and> ascii_strcasecmp t s = Some (- r)"
proof -
  let ?fuel = "Suc (min (length s) (length t))"
  obtain r where r: "r \<in> {- 1, 0, 1}" "strcasecmp_loop ?fuel s t = Some r"
    using strcasecmp_loop_returns [of s t ?fuel] by auto
  have "strcasecmp_loop ?fuel t s = Some (- r)"
    using strcasecmp_loop_swap [of ?fuel t s] r(2) by simp
  moreover have "r = 0 \<longleftrightarrow> map to_lower (c_str s) = map to_lower (c_str t)"
    using strcasecmp_loop_eq_0_iff [of s t ?fuel] r(2) by simp
  ultimately show ?thesis
    using r by (simp add: ascii_strcasecmp_def ascii_tolower_copy_cstr_def min.commute)
qed

end
