(* ===== verification/Address.thy ===== *)
theory Address
  imports Str
begin

text \<open>
  \<^verbatim>\<open>network::address\<close> (\<^verbatim>\<open>network/address.hxx\<close>, \<^verbatim>\<open>network/srcz/address.cpp\<close>).  The socket address
  structure is modelled by its family, its address bytes and its port; the port is kept in host
  order, the swaps of \<^verbatim>\<open>make_address\<close> and \<^verbatim>\<open>address::port\<close> cancel.

  \<^verbatim>\<open>inet_pton\<close> and \<^verbatim>\<open>inet_ntop\<close> are functions of the operating system: they are the two components
  of the record \<open>inet_lib\<close>, an argument of the definitions that call them.
\<close>

section \<open>Definitions\<close>

subsection \<open>Numbers\<close>

definition digit_char :: "nat \<Rightarrow> char" where
  "digit_char d = char_of (48 + d)"

fun show_nat :: "nat \<Rightarrow> string" where
  "show_nat n = (if n < 10 then [digit_char n] else show_nat (n div 10) @ [digit_char (n mod 10)])"

declare show_nat.simps [simp del]

definition show_int :: "int \<Rightarrow> string" where
  "show_int i = (if i < 0 then CHR ''-'' # show_nat (nat (- i)) else show_nat (nat i))"

definition is_digit :: "char \<Rightarrow> bool" where
  "is_digit c \<longleftrightarrow> 48 \<le> char_code c \<and> char_code c \<le> 57"

definition is_space :: "char \<Rightarrow> bool" where
  "is_space c \<longleftrightarrow> char_code c = 32 \<or> (9 \<le> char_code c \<and> char_code c \<le> 13)"

fun digits_value :: "nat \<Rightarrow> string \<Rightarrow> nat" where
  "digits_value acc [] = acc"
| "digits_value acc (c # s) = digits_value (10 * acc + (char_code c - 48)) s"

definition long_max :: int where "long_max = 9223372036854775807"
definition long_min :: int where "long_min = - 9223372036854775808"

text \<open>
  \<^verbatim>\<open>std::strtol (str, &end, 10)\<close>: the value, saturated to the range of \<^verbatim>\<open>long\<close>, and the rest of
  the string from \<^verbatim>\<open>end\<close> on.  Without digits the value is 0 and \<^verbatim>\<open>end\<close> is the start.
\<close>

definition strtol :: "string \<Rightarrow> int \<times> string" where
  "strtol s =
     (let t = dropWhile is_space s;
          neg = (t \<noteq> [] \<and> hd t = CHR ''-'');
          u = (if t \<noteq> [] \<and> (hd t = CHR ''-'' \<or> hd t = CHR ''+'') then tl t else t);
          ds = takeWhile is_digit u;
          v = int (digits_value 0 ds)
      in if ds = [] then (0, s)
         else (max long_min (min long_max (if neg then - v else v)), dropWhile is_digit u))"

definition str2u16 :: "string \<Rightarrow> u16 res" where
  "str2u16 s =
     (let (val, end) = strtol s in
      if val = long_min \<or> val = long_max
      then Inl (Runtime_error ''Failed to convert string to number'')
      else if end \<noteq> [] \<and> hd end \<noteq> CHR '' '' then Inl (Runtime_error ''invalid number syntax'')
      else if 0 > val \<or> 65535 < val then Inl (Runtime_error ''number out of range'')
      else Inr (word_of_nat (nat val)))"

subsection \<open>Splitting address and port\<close>

datatype inet = ipv4 | ipv6

datatype proto = udp | tcp

fun find_char :: "char \<Rightarrow> string \<Rightarrow> nat option" where
  "find_char c [] = None"
| "find_char c (d # s) = (if d = c then Some 0 else map_option Suc (find_char c s))"

definition rfind_char :: "char \<Rightarrow> string \<Rightarrow> nat option" where
  "rfind_char c s = map_option (\<lambda>i. length s - 1 - i) (find_char c (rev s))"

record ip_port_t =
  ipp_ip :: string
  ipp_port :: string
  ipp_ipv6 :: bool

text \<open>\<^verbatim>\<open>ip_port.at (0)\<close> throws \<^verbatim>\<open>std::out_of_range\<close>, a \<^verbatim>\<open>std::logic_error\<close>, on the empty string.\<close>

definition split_ip_port :: "string \<Rightarrow> ip_port_t res" where
  "split_ip_port s =
     (let nsr = rfind_char CHR '':'' s; ns = find_char CHR '':'' s in
      case s of
        [] \<Rightarrow> Inl (Logic_error ''out_of_range'')
      | c # _ \<Rightarrow>
          let bracket = (c = CHR ''['');
              is_v6 = ((nsr \<noteq> None \<and> ns \<noteq> None \<and> ns \<noteq> nsr) \<or> bracket)
          in if is_v6 then
               (if bracket then
                  (case find_char CHR '']'' s of
                     None \<Rightarrow> Inl (Runtime_error ''invalid IPv6 address:port'')
                   | Some ne \<Rightarrow>
                       if ne = 1 then Inl (Runtime_error ''invalid IPv6 address:port'')
                       else Inr \<lparr>ipp_ip = slice 1 (ne - 1) s,
                                 ipp_port = (case nsr of None \<Rightarrow> []
                                   | Some r \<Rightarrow> if r = 1 + ne then drop (1 + r) s else []),
                                 ipp_ipv6 = is_v6\<rparr>)
                else Inr \<lparr>ipp_ip = s, ipp_port = [], ipp_ipv6 = is_v6\<rparr>)
             else
               (case nsr of
                  Some r \<Rightarrow> Inr \<lparr>ipp_ip = take r s, ipp_port = drop (1 + r) s, ipp_ipv6 = is_v6\<rparr>
                | None \<Rightarrow> Inr \<lparr>ipp_ip = s, ipp_port = [], ipp_ipv6 = is_v6\<rparr>))"

subsection \<open>Addresses\<close>

record inet_lib =
  inet_pton :: "inet \<Rightarrow> string \<Rightarrow> byte list option"
  inet_ntop :: "inet \<Rightarrow> byte list \<Rightarrow> string"

record address =
  a_inet :: inet
  a_ip :: "byte list"
  a_port :: u16

definition make_address :: "inet_lib \<Rightarrow> inet \<Rightarrow> string \<Rightarrow> u16 \<Rightarrow> address res" where
  "make_address lib af ip port =
     (case inet_pton lib af (c_str ip) of
        Some b \<Rightarrow> Inr \<lparr>a_inet = af, a_ip = b, a_port = port\<rparr>
      | None \<Rightarrow> Inl (Runtime_error ''invalid address''))"

definition address_of_string :: "inet_lib \<Rightarrow> string \<Rightarrow> u16 \<Rightarrow> address res" where
  "address_of_string lib s port0 =
     ebind (split_ip_port s) (\<lambda>a.
     ebind (if ipp_port a \<noteq> [] then str2u16 (c_str (ipp_port a)) else Inr port0) (\<lambda>port.
       if ipp_ipv6 a then make_address lib ipv6 (ipp_ip a) port
       else make_address lib ipv4 (ipp_ip a) port))"

text \<open>
  The constructor from raw bytes.  The \<^verbatim>\<open>memcpy\<close> copies all \<^verbatim>\<open>addr.size()\<close> bytes into the address
  field of a structure on the stack: 12 bytes are left from \<^verbatim>\<open>sin_addr\<close> to the end of the 16 bytes
  of \<^verbatim>\<open>sockaddr_in\<close>, 20 from \<^verbatim>\<open>sin6_addr\<close> to the end of the 28 bytes of \<^verbatim>\<open>sockaddr_in6\<close>; more
  bytes overrun the object, fewer leave a part of the address uninitialised.
\<close>

definition addr_size :: "inet \<Rightarrow> nat" where
  "addr_size af = (case af of ipv4 \<Rightarrow> 4 | ipv6 \<Rightarrow> 16)"

definition addr_room :: "inet \<Rightarrow> nat" where
  "addr_room af = (case af of ipv4 \<Rightarrow> 12 | ipv6 \<Rightarrow> 20)"

definition address_of_bytes :: "inet \<Rightarrow> byte list \<Rightarrow> u16 \<Rightarrow> address res" where
  "address_of_bytes af b port =
     (if 4 > length b \<or> 128 < length b then Inl (Logic_error ''Invalid network address size'')
      else if length b > addr_room af \<or> length b < addr_size af then Inl Undefined_behaviour
      else Inr \<lparr>a_inet = af, a_ip = take (addr_size af) b, a_port = port\<rparr>)"

definition address_ip :: "inet_lib \<Rightarrow> address \<Rightarrow> string" where
  "address_ip lib a = inet_ntop lib (a_inet a) (a_ip a)"

definition ip_port :: "inet_lib \<Rightarrow> address \<Rightarrow> string" where
  "ip_port lib a =
     (if a_inet a = ipv6 then CHR ''['' # address_ip lib a @ '']'' else address_ip lib a)
     @ CHR '':'' # show_nat (unat (a_port a))"

text \<open>\<^verbatim>\<open>operator<<\<close> of families and addresses.\<close>

text \<open>
  The constructor from a \<^verbatim>\<open>sockaddr_storage\<close>, of which \<^verbatim>\<open>l\<close> bytes are copied behind zeros: the
  address of a \<^verbatim>\<open>sockaddr_in6\<close> starts at byte 8, so a short length cuts it.
\<close>

definition address_of_sockaddr :: "inet_lib \<Rightarrow> address \<Rightarrow> nat \<Rightarrow> address res" where
  "address_of_sockaddr lib a l =
     (if 16 > l \<or> 128 < l then Inl (Logic_error ''Invalid network address size'')
      else
        let a' = (if a_inet a = ipv6 \<and> l < 24
                  then a\<lparr>a_ip := take (l - 8) (a_ip a) @ replicate (24 - l) 0\<rparr> else a);
            str = ip_port lib a' in
        if length str < 3 \<or> length str > 128 then Inl (Logic_error ''Wrong internet IP address: '')
        else Inr a')"

definition print_inet :: "inet \<Rightarrow> string" where
  "print_inet i = (if i = ipv6 then ''IPv6'' else ''IPv4'')"

definition print_address :: "inet_lib \<Rightarrow> address \<Rightarrow> string" where
  "print_address lib a =
     (case a_inet a of
        ipv4 \<Rightarrow> inet_ntop lib ipv4 (a_ip a)
      | ipv6 \<Rightarrow> ''['' @ inet_ntop lib ipv6 (a_ip a) @ '']'') @ '':'' @ show_nat (unat (a_port a))"

text \<open>
  \<^verbatim>\<open>operator==\<close>.  For IPv6 the code compares \<^verbatim>\<open>s1.sin6_addr.s6_addr == s2.sin6_addr.s6_addr\<close>: two
  arrays, which decay to pointers, so what is compared is whether the operands are the same object.
  The first argument tells whether they are.
\<close>

definition address_eq :: "bool \<Rightarrow> address \<Rightarrow> address \<Rightarrow> bool" where
  "address_eq same a b =
     (if a_inet b \<noteq> a_inet a then False
      else if a_inet a = ipv4 then a_ip a = a_ip b \<and> a_port a = a_port b
      else same \<and> a_port a = a_port b)"

definition is_ip_address :: "inet_lib \<Rightarrow> string \<Rightarrow> inet res" where
  "is_ip_address lib s =
     (if inet_pton lib ipv4 s \<noteq> None then Inr ipv4
      else if inet_pton lib ipv6 s \<noteq> None then Inr ipv6
      else Inl (Runtime_error ''Invalid IP address''))"

section \<open>Lemmas\<close>

lemma char_code_digit_char [simp]: "d < 10 \<Longrightarrow> char_code (digit_char d) = 48 + d"
  by (simp add: digit_char_def)

lemma is_digit_digit_char [simp]: "d < 10 \<Longrightarrow> is_digit (digit_char d)"
  by (simp add: is_digit_def)

lemma show_nat_digits: "list_all is_digit (show_nat n) \<and> show_nat n \<noteq> []"
proof (induction n rule: show_nat.induct)
  case (1 n)
  then show ?case by (subst (1 2) show_nat.simps) simp
qed

lemma digits_value_append:
  "digits_value acc (s @ t) = digits_value (digits_value acc s) t"
  by (induction s arbitrary: acc) simp_all

lemma digits_value_show_nat: "digits_value 0 (show_nat n) = n"
proof (induction n rule: show_nat.induct)
  case (1 n)
  then show ?case by (subst show_nat.simps) (simp add: digits_value_append)
qed

lemma is_digit_not_special:
  assumes "is_digit c"
  shows "\<not> is_space c" "c \<noteq> CHR ''-''" "c \<noteq> CHR ''+''" "c \<noteq> NUL" "c \<noteq> CHR '':''" "c \<noteq> CHR '']''"
proof -
  show "\<not> is_space c" using assms by (auto simp: is_digit_def is_space_def)
  show "c \<noteq> NUL" using assms by (auto simp: is_digit_def)
  show "c \<noteq> CHR ''-''" "c \<noteq> CHR ''+''" "c \<noteq> CHR '':''" "c \<noteq> CHR '']''"
    using assms by (auto simp: is_digit_def)
qed

lemma strtol_show_nat:
  assumes "int n \<le> long_max"
  shows "strtol (show_nat n) = (int n, [])"
proof -
  obtain c s where cs: "show_nat n = c # s"
    using show_nat_digits [of n] by (cases "show_nat n") auto
  have d: "list_all is_digit (c # s)" using show_nat_digits [of n] cs by simp
  then have c: "is_digit c" by simp
  have t: "takeWhile is_digit (c # s) = c # s" "dropWhile is_digit (c # s) = []"
    using d by (auto simp: list_all_iff takeWhile_eq_all_conv dropWhile_eq_Nil_conv)
  have "long_min \<le> int n" by (simp add: long_min_def)
  then show ?thesis
    using assms is_digit_not_special [OF c] t digits_value_show_nat [of n]
    by (simp add: strtol_def Let_def cs)
qed

lemma str2u16_show_nat:
  assumes "n < 65536"
  shows "str2u16 (show_nat n) = Inr (word_of_nat n)"
  using assms strtol_show_nat [of n] by (simp add: str2u16_def long_max_def long_min_def)

lemma find_char_None_iff: "find_char c s = None \<longleftrightarrow> c \<notin> set s"
  by (induction s) auto

lemma find_char_append:
  "find_char c (s @ t) = (case find_char c s of None \<Rightarrow> map_option (\<lambda>i. length s + i) (find_char c t)
     | Some i \<Rightarrow> Some i)"
  by (induction s) (auto split: option.splits simp: option.map_comp comp_def option.map_ident
      cong: option.map_cong)

lemma find_char_Some_less: "find_char c s = Some i \<Longrightarrow> i < length s \<and> s ! i = c"
  by (induction s arbitrary: i) (auto split: if_splits)

lemma rfind_char_snoc_sep:
  assumes "c \<notin> set t"
  shows "rfind_char c (s @ c # t) = Some (length s)"
proof -
  have "find_char c (rev t) = None" using assms by (simp add: find_char_None_iff)
  then show ?thesis by (simp add: rfind_char_def find_char_append)
qed

lemma c_str_show_nat [simp]: "c_str (show_nat n) = show_nat n"
  by (rule c_str_idem) (use show_nat_digits [of n] in \<open>auto simp: list_all_iff is_digit_def\<close>)

lemma colon_notin_show_nat [simp]: "CHR '':'' \<notin> set (show_nat n)"
  using show_nat_digits [of n] by (auto simp: list_all_iff is_digit_def)

lemma split_ipv4_port:
  assumes "ip \<noteq> []" "CHR '':'' \<notin> set ip" "hd ip \<noteq> CHR ''[''"
  shows "split_ip_port (ip @ CHR '':'' # show_nat n)
    = Inr \<lparr>ipp_ip = ip, ipp_port = show_nat n, ipp_ipv6 = False\<rparr>"
proof -
  obtain c s where ip: "ip = c # s" using assms(1) by (cases ip) auto
  have r: "rfind_char CHR '':'' (c # s @ CHR '':'' # show_nat n) = Some (Suc (length s))"
    using rfind_char_snoc_sep [of "CHR '':''" "show_nat n" "c # s"] by simp
  have f: "find_char CHR '':'' (c # s @ CHR '':'' # show_nat n) = Some (Suc (length s))"
    using assms(2) ip find_char_None_iff [of "CHR '':''" "c # s"]
      find_char_append [of "CHR '':''" "c # s" "CHR '':'' # show_nat n"] by simp
  show ?thesis
    using assms(3) by (simp add: split_ip_port_def ip r f Let_def del: find_char.simps)
qed

lemma split_ipv6_port:
  assumes "ip \<noteq> []" "CHR '']'' \<notin> set ip"
  shows "split_ip_port (CHR ''['' # ip @ CHR '']'' # CHR '':'' # show_nat n)
    = Inr \<lparr>ipp_ip = ip, ipp_port = show_nat n, ipp_ipv6 = True\<rparr>"
proof -
  have r: "rfind_char CHR '':'' (CHR ''['' # ip @ CHR '']'' # CHR '':'' # show_nat n)
      = Some (Suc (Suc (length ip)))"
    using rfind_char_snoc_sep [of "CHR '':''" "show_nat n" "CHR ''['' # ip @ [CHR '']'']"] by simp
  have f: "find_char CHR '']'' (CHR ''['' # ip @ CHR '']'' # CHR '':'' # show_nat n)
      = Some (Suc (length ip))"
    using assms(2) find_char_None_iff [of "CHR '']''" ip] by (simp add: find_char_append)
  show ?thesis
    using assms(1) by (simp add: split_ip_port_def r f slice_def Let_def del: find_char.simps)
qed

lemma address_of_ip_port:
  fixes lib a
  defines "t \<equiv> inet_ntop lib (a_inet a) (a_ip a)"
  assumes "inet_pton lib (a_inet a) t = Some (a_ip a)"
    and "t \<noteq> []" "NUL \<notin> set t"
    and "a_inet a = ipv4 \<Longrightarrow> CHR '':'' \<notin> set t \<and> CHR ''['' \<notin> set t"
    and "a_inet a = ipv6 \<Longrightarrow> CHR '']'' \<notin> set t"
  shows "address_of_string lib (ip_port lib a) port0 = Inr a"
proof -
  have port: "str2u16 (c_str (show_nat (unat (a_port a)))) = Inr (a_port a)"
    and ne: "show_nat (unat (a_port a)) \<noteq> []"
    using str2u16_show_nat [of "unat (a_port a)"] show_nat_digits by simp_all
  have c: "c_str t = t" using assms(4) by (rule c_str_idem)
  have ip: "address_ip lib a = t" by (simp add: address_ip_def t_def)
  show ?thesis
  proof (cases "a_inet a")
    case ipv4
    then have "hd t \<noteq> CHR ''[''" using assms(3,5) by (cases t) auto
    then have "split_ip_port (ip_port lib a)
        = Inr \<lparr>ipp_ip = t, ipp_port = show_nat (unat (a_port a)), ipp_ipv6 = False\<rparr>"
      using ipv4 assms(3,5) by (simp add: ip_port_def ip split_ipv4_port)
    then show ?thesis
      using ipv4 assms(2) port ne c by (simp add: address_of_string_def make_address_def)
  next
    case ipv6
    then have "split_ip_port (ip_port lib a)
        = Inr \<lparr>ipp_ip = t, ipp_port = show_nat (unat (a_port a)), ipp_ipv6 = True\<rparr>"
      using assms(3,6) by (simp add: ip_port_def ip split_ipv6_port)
    then show ?thesis
      using ipv6 assms(2) port ne c by (simp add: address_of_string_def make_address_def)
  qed
qed

lemma print_address_eq: "print_address lib a = ip_port lib a"
  by (simp add: print_address_def ip_port_def address_ip_def split: inet.split)

section \<open>Properties\<close>

text \<open>
  The text form of an address, \<^verbatim>\<open>ip_port()\<close>, is read back by the constructor from a string as
  the same address: same family, same bytes and same port, for IPv4 as well as for the bracketed
  IPv6 form, and whatever the default port is.  The hypotheses are what POSIX documents of
  \<^verbatim>\<open>inet_ntop\<close> and \<^verbatim>\<open>inet_pton\<close>: the text is not empty, consists of the characters of its notation,
  and is converted back to the same bytes.
\<close>

theorem address_round_trip:
  fixes lib a
  defines "t \<equiv> inet_ntop lib (a_inet a) (a_ip a)"
  assumes "inet_pton lib (a_inet a) t = Some (a_ip a)"
    and "t \<noteq> []" "NUL \<notin> set t"
    and "a_inet a = ipv4 \<Longrightarrow> CHR '':'' \<notin> set t \<and> CHR ''['' \<notin> set t"
    and "a_inet a = ipv6 \<Longrightarrow> CHR '']'' \<notin> set t"
  shows "address_of_string lib (ip_port lib a) port0 = Inr a"
  using assms(2-) unfolding t_def by (rule address_of_ip_port)

theorem address_round_trip_witness:
  "let lib = \<lparr>inet_pton = (\<lambda>af t. if af = ipv4 \<and> t = ''127.0.0.1'' then Some [127, 0, 0, 1] else None),
              inet_ntop = (\<lambda>af b. ''127.0.0.1'')\<rparr>;
       a = \<lparr>a_inet = ipv4, a_ip = [127, 0, 0, 1], a_port = 53\<rparr>
   in address_of_string lib (ip_port lib a) 443 = Inr a"
  unfolding Let_def by (rule address_round_trip) (simp_all add: NUL_def)

text \<open>
  The comparison of IPv6 addresses does not look at the addresses: two different objects that
  hold the same IPv6 address and port are reported as different (for IPv4, equal bytes and ports
  are reported as equal).
\<close>

lemma address_eq_ipv6_compares_objects:
  "\<not> address_eq False \<lparr>a_inet = ipv6, a_ip = b, a_port = p\<rparr> \<lparr>a_inet = ipv6, a_ip = b, a_port = p\<rparr>
   \<and> address_eq same \<lparr>a_inet = ipv4, a_ip = c, a_port = p\<rparr> \<lparr>a_inet = ipv4, a_ip = c, a_port = p\<rparr>"
  by (simp add: address_eq_def)

end
