(* ===== verification/Query.thy ===== *)
theory Query
  imports Packet Message_Header Address
begin

text \<open>
  \<^verbatim>\<open>dns::query\<close> (\<^verbatim>\<open>dns/query.hxx\<close>, \<^verbatim>\<open>dns/srcz/query.cpp\<close>), first part: the header accessors, the
  flag operations, the reader of names and resource records, and the accessors that only read a
  message.  A query is a packet: \<^verbatim>\<open>class query : public network::packet\<close> adds no data.

  Every read of the buffer is checked against its storage (\<open>read_at\<close>, \<open>read_block\<close>), so that the
  theorems of this theory include that the readers stay inside of it on arbitrary bytes.
\<close>

section \<open>Constructors and header\<close>

definition new_query :: packet where
  "new_query = (let p = reserve max_size empty_packet
                in p\<lparr>pkt_bytes := replicate (length (pkt_bytes p)) 0\<rparr>)"

definition query_of_bytes :: "byte list \<Rightarrow> packet" where
  "query_of_bytes b = reserve max_size (packet_of b)"

definition header :: "packet \<Rightarrow> message_header res" where
  "header p = ebind (read_block (pkt_bytes p) 0 header_size) (\<lambda>b. Inr (swap_header (load_header b)))"

definition set_header :: "message_header \<Rightarrow> packet \<Rightarrow> packet res" where
  "set_header h p =
     ebind (write_block (pkt_bytes p) 0 (store_header (swap_header h))) (\<lambda>b. Inr (p\<lparr>pkt_bytes := b\<rparr>))"

definition set_rcode :: "pkt_rcode \<Rightarrow> packet \<Rightarrow> packet res" where
  "set_rcode r p = ebind (header p) (\<lambda>h. set_header (h\<lparr>h_rcode := rcode_word r\<rparr>) p)"

definition rcode :: "packet \<Rightarrow> 4 word res" where
  "rcode p = ebind (header p) (\<lambda>h. Inr (h_rcode h))"

definition opcode :: "packet \<Rightarrow> 4 word res" where
  "opcode p = ebind (header p) (\<lambda>h. Inr (h_opcode h))"

fun put_flag :: "pkt_flag \<Rightarrow> bool \<Rightarrow> message_header \<Rightarrow> message_header" where
  "put_flag flag_qr v h = h\<lparr>h_qr := v\<rparr>"
| "put_flag flag_aa v h = h\<lparr>h_aa := v\<rparr>"
| "put_flag flag_tc v h = h\<lparr>h_tc := v\<rparr>"
| "put_flag flag_ra v h = h\<lparr>h_ra := v\<rparr>"
| "put_flag flag_rd v h = h\<lparr>h_rd := v\<rparr>"

definition set_flag :: "pkt_flag \<Rightarrow> bool \<Rightarrow> packet \<Rightarrow> packet res" where
  "set_flag f v p = ebind (header p) (\<lambda>h. set_header (put_flag f v h) p)"

definition set_opcode :: "pkt_opcode \<Rightarrow> packet \<Rightarrow> packet res" where
  "set_opcode oc p = ebind (header p) (\<lambda>h. set_header (h\<lparr>h_opcode := pkt_opcode_num oc\<rparr>) p)"

definition mark_refused :: "packet \<Rightarrow> packet res" where
  "mark_refused p = ebind (set_rcode refused p) (set_flag flag_qr True)"

definition mark_servfail :: "packet \<Rightarrow> packet res" where
  "mark_servfail p = ebind (set_rcode servfail p) (set_flag flag_qr True)"

definition mark_truncated :: "packet \<Rightarrow> packet res" where
  "mark_truncated p = ebind (set_flag flag_tc True p) (set_flag flag_qr True)"

definition has_flags_tc :: "packet \<Rightarrow> bool res" where
  "has_flags_tc p = ebind (header p) (\<lambda>h. Inr (h_tc h))"

definition rr_type_str :: "u16 \<Rightarrow> string" where
  "rr_type_str t =
     (if t = 0x01 then ''A'' else if t = 0x02 then ''NS'' else if t = 0x06 then ''SOA''
      else if t = 0x0c then ''PTR'' else if t = 0x0f then ''MX'' else if t = 0x10 then ''TXT''
      else if t = 0x1c then ''AAAA'' else if t = 0x21 then ''SRV'' else show_nat (unat t))"

section \<open>Names and resource records\<close>

text \<open>\<^verbatim>\<open>std::isalnum\<close> in the classic locale, or a hyphen.\<close>

definition is_dns_char :: "char \<Rightarrow> bool" where
  "is_dns_char c \<longleftrightarrow> is_digit c \<or> (65 \<le> char_code c \<and> char_code c \<le> 90)
     \<or> (97 \<le> char_code c \<and> char_code c \<le> 122) \<or> c = CHR ''-''"

function get_rr_name_loop :: "packet \<Rightarrow> nat \<Rightarrow> string \<Rightarrow> (nat \<times> string) res" where
  "get_rr_name_loop p offset owner =
     ebind (read_at (pkt_bytes p) offset) (\<lambda>b.
       let label_len = unat b in
       if 192 \<le> label_len then
         (if offset + 2 > pkt_size p then Inl (Runtime_error ''bla'') else Inr (offset + 2, owner))
       else if 64 \<le> label_len then Inl (Runtime_error ''Too long DNS label'')
       else
         let next_offset = label_len + (offset + 1) in
         if next_offset \<ge> pkt_size p
         then Inl (Runtime_error ''DNS label is outside of message bounds'')
         else if label_len = 0 then Inr (next_offset, owner)
         else
           ebind (read_block (pkt_bytes p) (offset + 1) label_len) (\<lambda>bs.
             let label = map byte_char bs; owner' = owner @ label @ ''.'' in
             if \<not> list_all is_dns_char label then Inl (Runtime_error ''Invalid symbol in DNS name'')
             else if length owner' > max_host_name_length
             then Inl (Runtime_error ''Too long DNS qname'')
             else get_rr_name_loop p next_offset owner'))"
  by pat_completeness auto
termination
  by (relation "measure (\<lambda>(p, offset, owner). pkt_size p - offset)") auto

declare get_rr_name_loop.simps [simp del]

definition get_rr_name :: "packet \<Rightarrow> nat \<Rightarrow> (nat \<times> string) res" where
  "get_rr_name p off =
     (if header_size > pkt_size p \<or> off + 1 \<ge> pkt_size p
      then Inl (Runtime_error ''Too short DNS message'')
      else ebind (get_rr_name_loop p off []) (\<lambda>(offset, owner). Inr (cast_u16 offset, owner)))"

definition get_rr :: "packet \<Rightarrow> nat \<Rightarrow> (nat \<times> string \<times> rr_header \<times> byte list) res" where
  "get_rr p off =
     ebind (get_rr_name p off) (\<lambda>(offset, owner).
       let o' = offset + rr_header_size in
       if o' > pkt_size p then Inl (Runtime_error ''no rr'')
       else ebind (read_block (pkt_bytes p) offset rr_header_size) (\<lambda>b.
         let rr = swap_rr_header (load_rr_header b); e = o' + unat (rr_rdlength rr) in
         if e > pkt_size p then Inl (Runtime_error ''Too long response'')
         else ebind (read_block (pkt_bytes p) o' (unat (rr_rdlength rr))) (\<lambda>data.
           Inr (cast_u16 e, owner, rr, data))))"

definition zero_rr_header :: rr_header where
  "zero_rr_header = \<lparr>rr_type = 0, rr_class = 0, rr_ttl = 0, rr_rdlength = 0\<rparr>"

definition get_rr_question :: "packet \<Rightarrow> nat \<Rightarrow> (nat \<times> string \<times> rr_header) res" where
  "get_rr_question p off =
     ebind (get_rr_name p off) (\<lambda>(offset, owner).
       if offset + rr_question_size > pkt_size p then Inl (Runtime_error ''no rr'')
       else ebind (read_block (pkt_bytes p) offset rr_question_size) (\<lambda>b.
         Inr (cast_u16 (offset + rr_question_size), owner,
              swap_rr_header (load_rr_question b zero_rr_header))))"

text \<open>
  The loops over the questions and over the records of a message, \<^verbatim>\<open>for (j = 0; j < n; ++j)\<close> with
  \<^verbatim>\<open>off = get\<dots> (off, \<dots>)\<close> in front of the body: \<open>rd\<close> is the reader, \<open>body\<close> the rest of the loop
  body, which gets the index, the offset behind the record and the record.
\<close>

fun record_loop ::
  "(nat \<Rightarrow> (nat \<times> 'b) res) \<Rightarrow> (nat \<Rightarrow> nat \<Rightarrow> 'b \<Rightarrow> 'a \<Rightarrow> 'a res) \<Rightarrow> nat \<Rightarrow> nat \<Rightarrow> nat \<Rightarrow> 'a
    \<Rightarrow> (nat \<times> 'a) res" where
  "record_loop rd body j 0 off acc = Inr (off, acc)"
| "record_loop rd body j (Suc n) off acc =
     ebind (rd off) (\<lambda>(off', r). ebind (body j off' r acc) (record_loop rd body (Suc j) n off'))"

text \<open>The loops that only skip records; the value is the last record, as it is left in \<^verbatim>\<open>rr\<close>.\<close>

definition skip_questions :: "packet \<Rightarrow> nat \<Rightarrow> nat \<Rightarrow> (nat \<times> rr_header) res" where
  "skip_questions p n off =
     record_loop (get_rr_question p) (\<lambda>_ _ (_, rr) _. Inr rr) 0 n off zero_rr_header"

definition skip_answers :: "packet \<Rightarrow> nat \<Rightarrow> nat \<Rightarrow> (nat \<times> unit) res" where
  "skip_answers p n off = record_loop (get_rr p) (\<lambda>_ _ _ _. Inr ()) 0 n off ()"

section \<open>Reading a message\<close>

definition host_type_info :: "packet \<Rightarrow> string res" where
  "host_type_info p =
     ebind (header p) (\<lambda>head.
       ebind (record_loop (get_rr_question p)
           (\<lambda>jq _ (owner, rr) result. Inr (result @ owner @ '' '' @ rr_type_str (rr_type rr)
              @ (if 1 + jq < unat (h_qdcount head) then '', '' else '''')))
           0 (unat (h_qdcount head)) header_size [])
         (\<lambda>(off, result). Inr result))"

definition get_question :: "packet \<Rightarrow> (string \<times> u16 \<times> u16) res" where
  "get_question p =
     ebind (header p) (\<lambda>head.
       if h_qdcount head \<noteq> 1 then Inl (Runtime_error ''Not supported! Not a single question'')
       else ebind (get_rr_question p header_size) (\<lambda>(off, owner, rr).
         Inr (owner, rr_class rr, rr_type rr)))"

definition hostname :: "packet \<Rightarrow> string res" where
  "hostname p =
     ebind (get_question p) (\<lambda>(result, _, _).
       Inr (if result \<noteq> [] \<and> last result = CHR ''.'' then butlast result else result))"

text \<open>The text of one question and of one answer in \<^verbatim>\<open>short_info\<close>.\<close>

definition short_info_question :: "nat \<Rightarrow> nat \<Rightarrow> string \<times> rr_header \<Rightarrow> string \<Rightarrow> string res" where
  "short_info_question j off q result =
     (case q of (owner, rr) \<Rightarrow>
       ebind (rr_class_cstr (rr_class rr)) (\<lambda>c.
         Inr (result @ ''['' @ c @ '' '' @ rr_type_str (rr_type rr) @ ''] '' @ owner)))"

definition short_info_answer ::
  "inet_lib \<Rightarrow> nat \<Rightarrow> nat \<Rightarrow> string \<times> rr_header \<times> byte list \<Rightarrow> string \<Rightarrow> string res" where
  "short_info_answer lib j off a result =
     (case a of (owner, rr, rr_data) \<Rightarrow>
       ebind
         (if rr_class rr = rr_class_num internet then
            (if rr_type rr = type_a then
               ebind (address_of_bytes ipv4 rr_data 0) (\<lambda>a. Inr (address_ip lib a))
             else if rr_type rr = type_aaaa then
               ebind (address_of_bytes ipv6 rr_data 0) (\<lambda>a. Inr (address_ip lib a))
             else Inr (''['' @ rr_type_str (rr_type rr) @ '']''))
          else ebind (rr_class_cstr (rr_class rr)) (\<lambda>c.
            Inr (''[['' @ c @ '' '' @ rr_type_str (rr_type rr) @ '']]'')))
         (\<lambda>t. Inr (result @ '' '' @ t @ '' TTL: '' @ show_int (sint (rr_ttl rr)))))"

definition short_info :: "inet_lib \<Rightarrow> packet \<Rightarrow> string res" where
  "short_info lib p =
     ebind (header p) (\<lambda>head.
       ebind (rcode p) (\<lambda>rc.
         ebind
           (if rc \<noteq> rcode_word noerror then ebind (pkt_rcode_cstr rc) (\<lambda>s. Inr (s @ '' ''))
            else if h_ancount head = 0 \<and> h_qr head then
              Inr (''[NOANSWER: '' @ show_nat (unat (h_arcount head)) @ '', ''
                @ show_nat (unat (h_nscount head)) @ ''] '')
            else Inr [])
           (\<lambda>result0.
             ebind (record_loop (get_rr_question p) short_info_question 0 (unat (h_qdcount head))
                 header_size result0)
               (\<lambda>(off, result1).
                 ebind (record_loop (get_rr p) (short_info_answer lib) 0 (unat (h_ancount head)) off
                     result1)
                   (\<lambda>(_, result). Inr result)))))"

definition find_txt_answers :: "packet \<Rightarrow> byte list list res" where
  "find_txt_answers p =
     ebind (header p) (\<lambda>head.
       ebind (skip_questions p (unat (h_qdcount head)) header_size) (\<lambda>(off, _).
         ebind (record_loop (get_rr p)
             (\<lambda>_ _ (owner, rr, rr_data) result.
                Inr (if rr_type rr = type_txt \<and> rr_class rr = rr_class_num internet
                     then result @ [rr_data] else result))
             0 (unat (h_ancount head)) off [])
           (\<lambda>(_, result). Inr result)))"

definition get_txt_answer :: "packet \<Rightarrow> byte list list res" where
  "get_txt_answer p =
     ebind (find_txt_answers p) (\<lambda>txt_data. Inr (map (\<lambda>arr. if arr \<noteq> [] then tl arr else arr) txt_data))"

definition is_dnscrypt_certificate_request :: "string \<Rightarrow> packet \<Rightarrow> bool res" where
  "is_dnscrypt_certificate_request name p =
     (if name = [] then Inl (Logic_error ''blank hostname'')
      else ebind (header p) (\<lambda>head.
        if h_qdcount head \<noteq> 1 then Inr False
        else
          let host = (if last name \<noteq> CHR ''.'' then name @ ''.'' else name) in
          ebind (record_loop (get_rr_question p)
              (\<lambda>_ _ (owner, rr) found. Inr (found \<or> owner = host \<and> rr_type rr = type_txt
                 \<and> rr_class rr = rr_class_num internet))
              0 1 header_size False)
            (\<lambda>(_, found). Inr found)))"

text \<open>
  \<^verbatim>\<open>answer_min_ttl\<close>: the smallest time to live of the records of a complete answer, where the
  comparison is the signed one of \<^verbatim>\<open>std::int32_t\<close> and OPT pseudo records do not count; 0 for
  messages that should not be stored.
\<close>

definition int32_max :: int where "int32_max = 2147483647"

definition min_ttl_step :: "nat \<Rightarrow> nat \<Rightarrow> string \<times> rr_header \<times> byte list \<Rightarrow> int \<Rightarrow> int res" where
  "min_ttl_step j off r min_ttl =
     (case r of (owner, rr, data) \<Rightarrow>
       Inr (if rr_type rr \<noteq> type_opt \<and> sint (rr_ttl rr) < min_ttl then sint (rr_ttl rr) else min_ttl))"

definition answer_min_ttl :: "packet \<Rightarrow> int res" where
  "answer_min_ttl p =
     ebind (header p) (\<lambda>head.
       if h_tc head then Inr 0
       else ebind (rcode p) (\<lambda>rc.
         if rc \<noteq> rcode_word noerror \<and> rc \<noteq> rcode_word nxdomain then Inr 0
         else if \<not> h_qr head then Inr 0
         else if unat (h_ancount head) + unat (h_nscount head) + unat (h_arcount head) = 0 then Inr 0
         else
           ebind (skip_questions p (unat (h_qdcount head)) header_size) (\<lambda>(off, rr).
             if 0 < h_qdcount head \<and> rr_class rr \<noteq> rr_class_num internet then Inr 0
             else
               ebind (record_loop (get_rr p) min_ttl_step 0
                   (unat (h_ancount head) + unat (h_arcount head) + unat (h_nscount head)) off int32_max)
                 (\<lambda>(_, min_ttl). Inr min_ttl))))"

text \<open>\<^verbatim>\<open>print\<close>, as the text it writes; flags are \<^verbatim>\<open>bool\<close> and are printed as 0 or 1.\<close>

definition show_bool :: "bool \<Rightarrow> string" where
  "show_bool b = (if b then ''1'' else ''0'')"

definition newline :: string where
  "newline = [CHR 0x0A]"

definition print_header :: "packet \<Rightarrow> message_header \<Rightarrow> string res" where
  "print_header p head =
     ebind (pkt_rcode_cstr (h_rcode head)) (\<lambda>rc. Inr (
       ''ID: '' @ show_nat (unat (h_id head)) @ '', len: '' @ show_nat (pkt_size p) @ newline
       @ newline @ ''QR: '' @ show_bool (h_qr head) @ '', AA: '' @ show_bool (h_aa head)
       @ '', TC: '' @ show_bool (h_tc head) @ '', RD: '' @ show_bool (h_rd head)
       @ '', RA: '' @ show_bool (h_ra head)
       @ newline @ ''OPCODE: '' @ show_nat (unat (h_opcode head)) @ '', rcode: '' @ rc
       @ '', Z: '' @ show_nat (unat (h_z head))
       @ newline @ ''COUNTS QD: '' @ show_nat (unat (h_qdcount head))
       @ '', AN: '' @ show_nat (unat (h_ancount head)) @ '', NS: '' @ show_nat (unat (h_nscount head))
       @ '', AR: '' @ show_nat (unat (h_arcount head)) @ newline))"

definition print_question :: "nat \<Rightarrow> nat \<Rightarrow> string \<times> rr_header \<Rightarrow> string \<Rightarrow> string res" where
  "print_question j off q text =
     (case q of (owner, rr) \<Rightarrow> Inr (text
       @ ''OWNER ('' @ show_nat (length owner) @ ''): '' @ owner
       @ newline @ ''RR  len: '' @ show_nat (unat (rr_rdlength rr)) @ '' == 0''
       @ '', CLASS: '' @ show_nat (unat (rr_class rr)) @ '', TYPE: '' @ show_nat (unat (rr_type rr))
       @ '', TTL: '' @ show_int (sint (rr_ttl rr)) @ '', OFF: '' @ show_nat off @ newline))"

definition print_answer ::
  "inet_lib \<Rightarrow> nat \<Rightarrow> nat \<Rightarrow> string \<times> rr_header \<times> byte list \<Rightarrow> string \<Rightarrow> string res" where
  "print_answer lib j off a text =
     (case a of (owner, rr, rr_data) \<Rightarrow>
       ebind
         (if rr_type rr = type_a then
            ebind (address_of_bytes ipv4 rr_data 0) (\<lambda>a. Inr (''ADDR: '' @ ip_port lib a @ newline))
          else if rr_type rr = type_aaaa then
            ebind (address_of_bytes ipv6 rr_data 0) (\<lambda>a. Inr (''ADDR: '' @ ip_port lib a @ newline))
          else Inr [])
         (\<lambda>addr. Inr (text
           @ ''OWNER ('' @ show_nat (length owner) @ ''): '' @ owner
           @ newline @ ''RR  len: '' @ show_nat (unat (rr_rdlength rr))
           @ '', CLASS: '' @ show_nat (unat (rr_class rr)) @ '', TYPE: '' @ show_nat (unat (rr_type rr))
           @ '', TTL: '' @ show_int (sint (rr_ttl rr)) @ '', OFF: '' @ show_nat off @ newline @ addr)))"

definition query_print :: "inet_lib \<Rightarrow> packet \<Rightarrow> string res" where
  "query_print lib p =
     ebind (header p) (\<lambda>head.
       ebind (print_header p head) (\<lambda>t0.
         ebind (record_loop (get_rr_question p) print_question 0 (unat (h_qdcount head)) header_size t0)
           (\<lambda>(off, t1).
             ebind (record_loop (get_rr p) (print_answer lib) 0 (unat (h_ancount head)) off t1)
               (\<lambda>(_, t). Inr t))))"

definition query_write :: "packet \<Rightarrow> byte list res" where
  "query_write p = read_block (pkt_bytes p) 0 (pkt_size p)"

section \<open>The header\<close>

lemma header_eq:
  "12 \<le> length (pkt_bytes p) \<Longrightarrow> header p = Inr (swap_header (load_header (slice 0 12 (pkt_bytes p))))"
  by (simp add: header_def read_block_def)

lemma header_cong:
  "12 \<le> length (pkt_bytes p) \<Longrightarrow> 12 \<le> length (pkt_bytes q) \<Longrightarrow>
   slice 0 12 (pkt_bytes q) = slice 0 12 (pkt_bytes p) \<Longrightarrow> header q = header p"
  by (simp add: header_eq)

lemma set_header_eq:
  "12 \<le> length (pkt_bytes p) \<Longrightarrow>
   set_header h p = Inr (p\<lparr>pkt_bytes := overwrite 0 (store_header (swap_header h)) (pkt_bytes p)\<rparr>)"
  by (simp add: set_header_def write_block_def)

lemma header_set_header:
  assumes "set_header h p = Inr q"
  shows "header q = Inr h" "pkt_size q = pkt_size p" "drop 12 (pkt_bytes q) = drop 12 (pkt_bytes p)"
    "length (pkt_bytes q) = length (pkt_bytes p)" "12 \<le> length (pkt_bytes p)"
proof -
  from assms have l: "12 \<le> length (pkt_bytes p)"
    and q: "q = p\<lparr>pkt_bytes := overwrite 0 (store_header (swap_header h)) (pkt_bytes p)\<rparr>"
    by (auto simp: set_header_def)
  have "slice 0 12 (pkt_bytes q) = store_header (swap_header h)"
    using slice_overwrite_same [of 0 "store_header (swap_header h)" "pkt_bytes p"] l q by simp
  then show "header q = Inr h" using l q by (simp add: header_eq)
  show "pkt_size q = pkt_size p" "length (pkt_bytes q) = length (pkt_bytes p)"
    using l q by simp_all
  show "drop 12 (pkt_bytes q) = drop 12 (pkt_bytes p)"
    using l q by (simp add: overwrite_def)
  show "12 \<le> length (pkt_bytes p)" by (rule l)
qed

lemma set_header_header:
  assumes "header p = Inr h"
  shows "set_header h p = Inr p"
proof -
  from assms have l: "12 \<le> length (pkt_bytes p)"
    and h: "h = swap_header (load_header (slice 0 12 (pkt_bytes p)))"
    by (auto simp: header_def)
  have "store_header (swap_header h) = slice 0 12 (pkt_bytes p)"
    using l h by (simp add: store_load_header)
  then show ?thesis
    using l by (simp add: set_header_eq overwrite_def slice_def)
qed

lemma wf_set_header: "wf_packet p \<Longrightarrow> set_header h p = Inr q \<Longrightarrow> wf_packet q"
  using header_set_header [of h p q] by (simp add: wf_packet_def)

lemma nth_set_header:
  assumes "set_header h p = Inr q" "12 \<le> k" "k < length (pkt_bytes p)"
  shows "pkt_bytes q ! k = pkt_bytes p ! k"
  using assms by (auto simp: set_header_def nth_overwrite)

lemma is_dns_size: "is_dns p \<Longrightarrow> 15 \<le> pkt_size p"
  by (simp add: is_dns_def)

lemma is_dns_header:
  assumes "is_dns p" "wf_packet p"
  obtains h where "header p = Inr h" "h_qdcount h = 1" "unat (h_arcount h) \<le> 1"
proof -
  have l: "12 \<le> length (pkt_bytes p)"
    using is_dns_size [OF assms(1)] wf_packetD [OF assms(2)] by linarith
  let ?b = "pkt_bytes p"
  have b: "?b ! 4 = 0" "?b ! 5 = 1" "?b ! 10 = 0" "?b ! 11 \<le> 1"
    using assms(1) by (auto simp: is_dns_def not_less)
  let ?h = "swap_header (load_header (slice 0 12 ?b))"
  have "h_qdcount ?h = htons (load_u16 0 1)"
    using l b by (simp add: swap_header_def load_header_def nth_slice)
  also have "\<dots> = 1" by (simp add: htons_def unat_load_u16)
  finally have qd: "h_qdcount ?h = 1" .
  have n: "unat (load_u16 0 (?b ! 11)) = 256 * unat (?b ! 11)"
    by (simp add: unat_load_u16)
  have "h_arcount ?h = htons (load_u16 0 (?b ! 11))"
    using l b by (simp add: swap_header_def load_header_def nth_slice)
  then have "unat (h_arcount ?h) = unat (?b ! 11)"
    by (simp add: unat_htons n)
  also have "\<dots> \<le> 1" using b(4) by (simp add: word_le_nat_alt)
  finally show thesis using that [of ?h] header_eq [OF l] qd by blast
qed

section \<open>The readers of names and records\<close>

text \<open>
  What the loops over the records of a message rely on: a reader stays inside of the storage, moves
  forward inside of the message, and depends only on the bytes it has passed.
\<close>

locale record_reader =
  fixes rd :: "packet \<Rightarrow> nat \<Rightarrow> (nat \<times> 'b) res"
  assumes rd_safe: "wf_packet p \<Longrightarrow> safe (rd p off)"
    and rd_progress: "wf_packet p \<Longrightarrow> rd p off = Inr (e, r) \<Longrightarrow> off < e \<and> e \<le> pkt_size p"
    and rd_local: "\<lbrakk>wf_packet p; wf_packet q; rd p off = Inr (e, r); pkt_size p \<le> pkt_size q;
      \<And>k. off \<le> k \<Longrightarrow> k < e \<Longrightarrow> pkt_bytes q ! k = pkt_bytes p ! k\<rbrakk> \<Longrightarrow> rd q off = Inr (e, r)"
begin

lemma loop_safe:
  assumes "wf_packet p" "\<And>j off r acc. safe (body j off r acc)"
  shows "safe (record_loop (rd p) body j n off acc)"
  using assms(2)
proof (induction n arbitrary: j off acc)
  case (Suc n)
  show ?case
    unfolding record_loop.simps split_beta
    by (intro safe_ebind rd_safe assms(1) Suc.prems Suc.IH)
qed simp

lemma loop_progress:
  assumes "wf_packet p" "record_loop (rd p) body j n off acc = Inr (e, acc')"
  shows "off + n \<le> e \<and> (off \<le> pkt_size p \<longrightarrow> e \<le> pkt_size p)"
  using assms(2)
proof (induction n arbitrary: j off acc)
  case (Suc n)
  then obtain off' r a where r: "rd p off = Inr (off', r)"
    "record_loop (rd p) body (Suc j) n off' a = Inr (e, acc')"
    by auto
  from rd_progress [OF assms(1) r(1)] Suc.IH [OF r(2)] show ?case by auto
qed simp

lemma loop_local:
  assumes "wf_packet p" "wf_packet q" "record_loop (rd p) body j n off acc = Inr (e, acc')"
    "pkt_size p \<le> pkt_size q" "\<And>k. off \<le> k \<Longrightarrow> k < e \<Longrightarrow> pkt_bytes q ! k = pkt_bytes p ! k"
  shows "record_loop (rd q) body j n off acc = Inr (e, acc')"
  using assms(3,5)
proof (induction n arbitrary: j off acc)
  case (Suc n)
  from Suc.prems(1) obtain off' r a where r: "rd p off = Inr (off', r)" "body j off' r acc = Inr a"
    "record_loop (rd p) body (Suc j) n off' a = Inr (e, acc')"
    by auto
  have le: "off < off'" "off' \<le> e"
    using rd_progress [OF assms(1) r(1)] loop_progress [OF assms(1) r(3)] by auto
  have "rd q off = Inr (off', r)"
    by (rule rd_local [OF assms(1,2) r(1) assms(4)]) (use Suc.prems(2) le in auto)
  moreover have "record_loop (rd q) body (Suc j) n off' a = Inr (e, acc')"
    by (rule Suc.IH [OF r(3)]) (use Suc.prems(2) le in auto)
  ultimately show ?case using r(2) by simp
qed simp

end

lemma record_loop_add:
  "record_loop rd body j (m + n) off acc
    = ebind (record_loop rd body j m off acc) (\<lambda>(off', acc'). record_loop rd body (j + m) n off' acc')"
  by (induction m arbitrary: j off acc) (auto simp: ebind_assoc split_beta intro!: ebind_cong)

lemma record_loop_offset_unique:
  "record_loop rd f i n off a = Inr (e, x) \<Longrightarrow> record_loop rd g j n off b = Inr (e', y) \<Longrightarrow> e = e'"
  by (induction n arbitrary: i j off a b) auto

text \<open>
  The names the loop accepts, as a relation between the offset and owner before and after: a
  compression pointer (whose target is not followed) or a zero byte ends the name, a label of at
  most 63 characters continues it.
\<close>

inductive reads_name :: "packet \<Rightarrow> nat \<Rightarrow> string \<Rightarrow> nat \<Rightarrow> string \<Rightarrow> bool" for p where
  rn_pointer: "\<lbrakk>off < length (pkt_bytes p); 192 \<le> unat (pkt_bytes p ! off); off + 2 \<le> pkt_size p\<rbrakk>
    \<Longrightarrow> reads_name p off owner (off + 2) owner"
| rn_root: "\<lbrakk>off < length (pkt_bytes p); pkt_bytes p ! off = 0; off + 1 < pkt_size p\<rbrakk>
    \<Longrightarrow> reads_name p off owner (off + 1) owner"
| rn_label: "\<lbrakk>off < length (pkt_bytes p); n = unat (pkt_bytes p ! off); 0 < n; n < 64;
     n + (off + 1) < pkt_size p; n + (off + 1) \<le> length (pkt_bytes p);
     label = map byte_char (slice (off + 1) n (pkt_bytes p)); list_all is_dns_char label;
     length (owner @ label @ ''.'') \<le> max_host_name_length;
     reads_name p (n + (off + 1)) (owner @ label @ ''.'') e name\<rbrakk>
    \<Longrightarrow> reads_name p off owner e name"

lemma unat_byte_eq_0_iff: "unat (b :: byte) = 0 \<longleftrightarrow> b = 0"
  by (simp add: unat_eq_0)

lemma name_loop_iff:
  "get_rr_name_loop p off owner = Inr (e, name) \<longleftrightarrow> reads_name p off owner e name"
proof
  show "get_rr_name_loop p off owner = Inr (e, name) \<Longrightarrow> reads_name p off owner e name"
  proof (induction p off owner rule: get_rr_name_loop.induct)
    case (1 p off owner)
    let ?n = "unat (pkt_bytes p ! off)"
    let ?label = "map byte_char (slice (off + 1) ?n (pkt_bytes p))"
    from 1(2) have off: "off < length (pkt_bytes p)"
      by (subst (asm) get_rr_name_loop.simps) simp
    from 1(2) consider (p) "192 \<le> ?n" "off + 2 \<le> pkt_size p" "e = off + 2" "name = owner"
      | (r) "?n = 0" "off + 1 < pkt_size p" "e = off + 1" "name = owner"
      | (l) "0 < ?n" "?n < 64" "?n + (off + 1) < pkt_size p" "?n + (off + 1) \<le> length (pkt_bytes p)"
        "list_all is_dns_char ?label" "length (owner @ ?label @ ''.'') \<le> max_host_name_length"
        "get_rr_name_loop p (?n + (off + 1)) (owner @ ?label @ ''.'') = Inr (e, name)"
      by (subst (asm) get_rr_name_loop.simps) (auto simp: Let_def not_le not_less split: if_splits)
    then show ?case
    proof cases
      case p
      then show ?thesis using rn_pointer [OF off, of owner] by simp
    next
      case r
      then show ?thesis using rn_root [OF off, of owner] by (simp add: unat_byte_eq_0_iff)
    next
      case l
      have "reads_name p (?n + (off + 1)) (owner @ ?label @ ''.'') e name"
        using l off by (intro 1(1) [OF _ refl _ _ refl _ _ _ refl refl]) auto
      then show ?thesis using l off by (intro rn_label [OF off refl]) auto
    qed
  qed
next
  show "reads_name p off owner e name \<Longrightarrow> get_rr_name_loop p off owner = Inr (e, name)"
  proof (induction rule: reads_name.induct)
    case (rn_label off n label owner e name)
    then show ?case
      by (subst get_rr_name_loop.simps) (auto simp: Let_def)
  qed (subst get_rr_name_loop.simps; auto simp: Let_def)+
qed

lemma name_loop_safe:
  assumes "wf_packet p" "off < pkt_size p"
  shows "safe (get_rr_name_loop p off owner)"
  using assms
proof (induction p off owner rule: get_rr_name_loop.induct)
  case (1 p off owner)
  have len: "off < length (pkt_bytes p)" "pkt_size p \<le> length (pkt_bytes p)"
    using 1(2,3) wf_packetD [OF 1(2)] by auto
  show ?case
    apply (subst get_rr_name_loop.simps)
    apply (rule safe_ebind)
    subgoal using len by simp
    subgoal using 1 len by (auto simp: Let_def)
    done
qed

definition name_char :: "char \<Rightarrow> bool" where
  "name_char c \<longleftrightarrow> is_dns_char c \<or> c = CHR ''.''"

lemma reads_name_progress: "reads_name p off owner e name \<Longrightarrow> off < e \<and> e \<le> pkt_size p"
  by (induction rule: reads_name.induct) auto

lemma reads_name_owner:
  "reads_name p off owner e name \<Longrightarrow> list_all name_char owner \<Longrightarrow> list_all name_char name"
  by (induction rule: reads_name.induct) (auto simp: list_all_iff name_char_def)

lemma reads_name_length:
  "reads_name p off owner e name \<Longrightarrow> length owner \<le> max_host_name_length
    \<Longrightarrow> length name \<le> max_host_name_length"
  by (induction rule: reads_name.induct) auto

lemma slice_cong:
  assumes "\<And>k. i \<le> k \<Longrightarrow> k < i + n \<Longrightarrow> ys ! k = xs ! k" "i + n \<le> length xs" "i + n \<le> length ys"
  shows "slice i n ys = slice i n xs"
  by (rule nth_equalityI) (use assms in \<open>auto simp: nth_slice\<close>)

lemma reads_name_local:
  assumes "reads_name p off owner e name" "wf_packet p" "wf_packet q" "pkt_size p \<le> pkt_size q"
    "\<And>k. off \<le> k \<Longrightarrow> k < e \<Longrightarrow> pkt_bytes q ! k = pkt_bytes p ! k"
  shows "reads_name q off owner e name"
  using assms
proof (induction rule: reads_name.induct)
  case (rn_pointer off owner)
  then show ?case using wf_packetD(1) [of q] by (intro reads_name.rn_pointer) auto
next
  case (rn_root off owner)
  then show ?case using wf_packetD(1) [of q] by (intro reads_name.rn_root) auto
next
  case (rn_label off n label owner e name)
  have e: "n + (off + 1) < e" using reads_name_progress [OF rn_label(10)] by simp
  have len: "n + (off + 1) < length (pkt_bytes q)"
    using wf_packetD(1) [of q] rn_label(5,13,14) by linarith
  have "slice (off + 1) n (pkt_bytes q) = slice (off + 1) n (pkt_bytes p)"
    by (rule slice_cong) (use rn_label(6,15) e len in auto)
  moreover have "pkt_bytes q ! off = pkt_bytes p ! off" using rn_label(15) e by auto
  moreover have "reads_name q (n + (off + 1)) (owner @ label @ ''.'') e name"
    by (rule rn_label.IH) (use rn_label e in auto)
  ultimately show ?case
    using rn_label len by (intro reads_name.rn_label [of off q n label]) auto
qed

lemma get_rr_name_iff:
  "wf_packet p \<Longrightarrow> get_rr_name p off = Inr (e, name) \<longleftrightarrow>
     12 \<le> pkt_size p \<and> off + 1 < pkt_size p \<and> reads_name p off [] e name"
proof -
  assume wf: "wf_packet p"
  have "cast_u16 x = x" if "reads_name p off [] x n" for x n
    using reads_name_progress [OF that] wf_packetD [OF wf] by simp
  then show ?thesis
    by (auto simp: get_rr_name_def name_loop_iff not_le not_less)
qed

lemma get_rr_name_safe [simp]: "wf_packet p \<Longrightarrow> safe (get_rr_name p off)"
  unfolding get_rr_name_def by (auto simp: not_le intro!: name_loop_safe)

lemma get_rr_question_iff:
  assumes "wf_packet p"
  shows "get_rr_question p off = Inr (e, name, rr) \<longleftrightarrow>
    (\<exists>o1. get_rr_name p off = Inr (o1, name) \<and> e = o1 + 4 \<and> e \<le> pkt_size p
      \<and> rr = swap_rr_header (load_rr_question (slice o1 4 (pkt_bytes p)) zero_rr_header))"
proof -
  have "o1 + 4 \<le> pkt_size p \<Longrightarrow> o1 + 4 \<le> length (pkt_bytes p) \<and> cast_u16 (o1 + 4) = o1 + 4" for o1
    using wf_packetD [OF assms] by simp
  then show ?thesis
    unfolding get_rr_question_def by (cases "get_rr_name p off") (auto simp: not_less split: if_splits)
qed

lemma get_rr_iff:
  assumes "wf_packet p"
  shows "get_rr p off = Inr (e, name, rr, data) \<longleftrightarrow>
    (\<exists>o1. get_rr_name p off = Inr (o1, name) \<and> e = o1 + 10 + unat (rr_rdlength rr) \<and> e \<le> pkt_size p
      \<and> rr = swap_rr_header (load_rr_header (slice o1 10 (pkt_bytes p)))
      \<and> data = slice (o1 + 10) (unat (rr_rdlength rr)) (pkt_bytes p))"
proof -
  have "o1 \<le> pkt_size p \<Longrightarrow> o1 \<le> length (pkt_bytes p) \<and> cast_u16 o1 = o1" for o1
    using wf_packetD [OF assms] by simp
  then show ?thesis
    unfolding get_rr_def
    by (cases "get_rr_name p off") (auto simp: Let_def not_less split: if_splits)
qed

lemma get_rr_name_progress:
  "wf_packet p \<Longrightarrow> get_rr_name p off = Inr (e, name) \<Longrightarrow> off < e \<and> e \<le> pkt_size p"
  using reads_name_progress by (auto simp: get_rr_name_iff)

lemma get_rr_name_local:
  assumes "wf_packet p" "wf_packet q" "get_rr_name p off = Inr (e, name)" "pkt_size p \<le> pkt_size q"
    "\<And>k. off \<le> k \<Longrightarrow> k < e \<Longrightarrow> pkt_bytes q ! k = pkt_bytes p ! k"
  shows "get_rr_name q off = Inr (e, name)"
  using assms reads_name_local [of p off "[]" e name q] by (auto simp: get_rr_name_iff)

interpretation name_reader: record_reader get_rr_name
  by unfold_locales
    (erule get_rr_name_safe, erule (1) get_rr_name_progress, erule (3) get_rr_name_local)

interpretation question_reader: record_reader get_rr_question
proof unfold_locales
  fix p :: packet and off assume wf: "wf_packet p"
  have "o1 + 4 \<le> pkt_size p \<Longrightarrow> o1 + 4 \<le> length (pkt_bytes p)" for o1
    using wf_packetD [OF wf] by simp
  then show "safe (get_rr_question p off)"
    unfolding get_rr_question_def using wf by (auto simp: not_less)
next
  fix p :: packet and off e r
  assume "wf_packet p" "get_rr_question p off = Inr (e, r)"
  then show "off < e \<and> e \<le> pkt_size p"
    by (cases r) (fastforce simp: get_rr_question_iff dest: get_rr_name_progress)
next
  fix p q :: packet and off e r
  assume wf: "wf_packet p" "wf_packet q" and rd: "get_rr_question p off = Inr (e, r)"
    and size: "pkt_size p \<le> pkt_size q"
    and eq: "\<And>k. off \<le> k \<Longrightarrow> k < e \<Longrightarrow> pkt_bytes q ! k = pkt_bytes p ! k"
  obtain name rr where r: "r = (name, rr)" by (cases r)
  from rd obtain o1 where o1: "get_rr_name p off = Inr (o1, name)" "e = o1 + 4" "e \<le> pkt_size p"
    "rr = swap_rr_header (load_rr_question (slice o1 4 (pkt_bytes p)) zero_rr_header)"
    by (auto simp: r get_rr_question_iff [OF wf(1)])
  have "off < o1" using get_rr_name_progress [OF wf(1) o1(1)] by simp
  then have "get_rr_name q off = Inr (o1, name)"
    "slice o1 4 (pkt_bytes q) = slice o1 4 (pkt_bytes p)"
    using o1 eq size wf_packetD [OF wf(1)] wf_packetD [OF wf(2)]
    by (auto intro!: get_rr_name_local [OF wf o1(1) size] slice_cong)
  then show "get_rr_question q off = Inr (e, r)"
    using o1 size by (auto simp: r get_rr_question_iff [OF wf(2)])
qed

interpretation answer_reader: record_reader get_rr
proof unfold_locales
  fix p :: packet and off assume wf: "wf_packet p"
  have "n \<le> pkt_size p \<Longrightarrow> n \<le> length (pkt_bytes p)" for n
    using wf_packetD [OF wf] by simp
  then show "safe (get_rr p off)"
    unfolding get_rr_def using wf by (auto simp: not_less Let_def)
next
  fix p :: packet and off e r
  assume wf: "wf_packet p" and r: "get_rr p off = Inr (e, r)"
  then show "off < e \<and> e \<le> pkt_size p"
    by (cases r) (fastforce simp: get_rr_iff dest: get_rr_name_progress)
next
  fix p q :: packet and off e r
  assume wf: "wf_packet p" "wf_packet q" and rd: "get_rr p off = Inr (e, r)"
    and size: "pkt_size p \<le> pkt_size q"
    and eq: "\<And>k. off \<le> k \<Longrightarrow> k < e \<Longrightarrow> pkt_bytes q ! k = pkt_bytes p ! k"
  obtain name rr data where r: "r = (name, rr, data)" by (cases r)
  from rd obtain o1 where o1: "get_rr_name p off = Inr (o1, name)"
    "e = o1 + 10 + unat (rr_rdlength rr)" "e \<le> pkt_size p"
    "rr = swap_rr_header (load_rr_header (slice o1 10 (pkt_bytes p)))"
    "data = slice (o1 + 10) (unat (rr_rdlength rr)) (pkt_bytes p)"
    by (auto simp: r get_rr_iff [OF wf(1)])
  have off: "off < o1" using get_rr_name_progress [OF wf(1) o1(1)] by simp
  have len: "e \<le> length (pkt_bytes p)" "e \<le> length (pkt_bytes q)"
    using o1(3) size wf_packetD [OF wf(1)] wf_packetD [OF wf(2)] by auto
  have "get_rr_name q off = Inr (o1, name)"
    by (rule get_rr_name_local [OF wf o1(1) size]) (use eq o1(2) in auto)
  moreover have "slice o1 10 (pkt_bytes q) = slice o1 10 (pkt_bytes p)"
    by (rule slice_cong) (use eq off o1(2) len in auto)
  moreover have "slice (o1 + 10) (unat (rr_rdlength rr)) (pkt_bytes q) = data"
    unfolding o1(5) by (rule slice_cong) (use eq off o1(2) len in auto)
  ultimately show "get_rr q off = Inr (e, r)"
    using o1(2-4) size by (auto simp: r get_rr_iff [OF wf(2)])
qed

section \<open>Safety of the accessors\<close>

lemma safe_pkt_rcode_cstr [simp]: "safe (pkt_rcode_cstr w)"
  by (simp add: pkt_rcode_cstr_def split: option.split)

lemma safe_rr_class_cstr [simp]: "safe (rr_class_cstr c)"
  by (simp add: rr_class_cstr_def)

lemma safe_header [simp]: "safe (header p) \<longleftrightarrow> 12 \<le> length (pkt_bytes p)"
  by (simp add: header_def read_block_def)

lemma safe_rcode [simp]: "12 \<le> length (pkt_bytes p) \<Longrightarrow> safe (rcode p)"
  unfolding rcode_def by auto

lemma safe_question_loop [simp]:
  "wf_packet p \<Longrightarrow> (\<And>j off r acc. safe (body j off r acc))
    \<Longrightarrow> safe (record_loop (get_rr_question p) body j n off acc)"
  by (rule question_reader.loop_safe)

lemma safe_answer_loop [simp]:
  "wf_packet p \<Longrightarrow> (\<And>j off r acc. safe (body j off r acc))
    \<Longrightarrow> safe (record_loop (get_rr p) body j n off acc)"
  by (rule answer_reader.loop_safe)

lemma safe_short_info_question [simp]: "safe (short_info_question j off q acc)"
  unfolding short_info_question_def by (auto split: prod.split)

lemma safe_get_question: "wf_packet p \<Longrightarrow> 12 \<le> length (pkt_bytes p) \<Longrightarrow> safe (get_question p)"
  unfolding get_question_def by (auto simp: question_reader.rd_safe)

lemma safe_hostname: "wf_packet p \<Longrightarrow> 12 \<le> length (pkt_bytes p) \<Longrightarrow> safe (hostname p)"
  unfolding hostname_def by (auto intro: safe_get_question)

lemma safe_host_type_info: "wf_packet p \<Longrightarrow> 12 \<le> length (pkt_bytes p) \<Longrightarrow> safe (host_type_info p)"
  unfolding host_type_info_def by (auto simp: split_beta)

lemma safe_skip_questions [simp]: "wf_packet p \<Longrightarrow> safe (skip_questions p n off)"
  unfolding skip_questions_def by (auto simp: split_beta)

lemma safe_skip_answers [simp]: "wf_packet p \<Longrightarrow> safe (skip_answers p n off)"
  unfolding skip_answers_def by auto

lemma safe_find_txt_answers:
  "wf_packet p \<Longrightarrow> 12 \<le> length (pkt_bytes p) \<Longrightarrow> safe (find_txt_answers p)"
  unfolding find_txt_answers_def split_beta by (intro safe_ebind) auto

lemma safe_get_txt_answer:
  "wf_packet p \<Longrightarrow> 12 \<le> length (pkt_bytes p) \<Longrightarrow> safe (get_txt_answer p)"
  unfolding get_txt_answer_def by (auto intro: safe_find_txt_answers)

lemma safe_min_ttl_step [simp]: "safe (min_ttl_step j off r acc)"
  by (simp add: min_ttl_step_def split: prod.split)

lemma safe_answer_min_ttl:
  "wf_packet p \<Longrightarrow> 12 \<le> length (pkt_bytes p) \<Longrightarrow> safe (answer_min_ttl p)"
  unfolding answer_min_ttl_def split_beta by (intro safe_ebind) (auto split: if_splits)

lemma safe_is_dnscrypt_certificate_request:
  "wf_packet p \<Longrightarrow> 12 \<le> length (pkt_bytes p) \<Longrightarrow> safe (is_dnscrypt_certificate_request name p)"
  unfolding is_dnscrypt_certificate_request_def split_beta Let_def
  by (auto simp: question_reader.rd_safe split: if_splits)

section \<open>Properties\<close>



text \<open>
  C32. The name reader of messages returns only names within the bounds the rest of the program
  relies on: at most 256 characters, all of them letters, digits, hyphens or dots; and the returned
  offset lies behind the start and inside of the message.
\<close>

theorem get_rr_bounds:
  assumes "wf_packet p" "get_rr p off = Inr (e, name, rr, data)"
  shows "off < e \<and> e \<le> pkt_size p \<and> length name \<le> 256 \<and> list_all name_char name
    \<and> length data = unat (rr_rdlength rr)"
proof -
  from assms obtain o1 where o1: "get_rr_name p off = Inr (o1, name)"
    "e = o1 + 10 + unat (rr_rdlength rr)" "e \<le> pkt_size p"
    "data = slice (o1 + 10) (unat (rr_rdlength rr)) (pkt_bytes p)"
    by (auto simp: get_rr_iff)
  then have rn: "reads_name p off [] o1 name" by (auto simp: get_rr_name_iff assms(1))
  have "length name \<le> 256" "list_all name_char name"
    using reads_name_length [OF rn] reads_name_owner [OF rn] by (simp_all add: max_host_name_length_def)
  then show ?thesis
    using answer_reader.rd_progress [OF assms] o1(2-4) wf_packetD [OF assms(1)] by simp
qed

definition sample_answer :: packet where
  "sample_answer = packet_of ([0, 7, 0x81, 0x80, 0, 1, 0, 1, 0, 0, 0, 0,
     1, 97, 0, 0, 1, 0, 1,  0xC0, 12, 0, 1, 0, 1, 0, 0, 0, 9, 0, 4, 127, 0, 0, 1])"

lemmas parse_eval = packet_of_def get_rr_def get_rr_name_def get_rr_question_def get_question_def
  get_rr_name_loop.simps read_at_def read_block_def slice_def swap_rr_header_def load_rr_header_def
  load_rr_question_def zero_rr_header_def header_def swap_header_def load_header_def
  load_u16_def load_u32_def htons_def htonl_def byte_char_def is_dns_char_def is_digit_def
  max_host_name_length_def Let_def char_of_def bit_iff_odd

theorem get_rr_bounds_witness:
  "get_rr sample_answer 19 = Inr (35, [], \<lparr>rr_type = 1, rr_class = 1, rr_ttl = 9, rr_rdlength = 4\<rparr>,
     [127, 0, 0, 1]) \<and> (19::nat) < 35 \<and> (35::nat) \<le> pkt_size sample_answer"
proof -
  have r: "get_rr sample_answer 19 = Inr (35, [], \<lparr>rr_type = 1, rr_class = 1, rr_ttl = 9,
      rr_rdlength = 4\<rparr>, [127, 0, 0, 1])"
    by (simp add: sample_answer_def parse_eval cong: ebind_weak_cong)
  have "wf_packet sample_answer" by (simp add: sample_answer_def)
  from get_rr_bounds [OF this r] r show ?thesis by simp
qed

text \<open>
  The result of a header operation: it returns, the header is the expected one, and the rest of
  the packet is as before.
\<close>

definition updates_header :: "packet \<Rightarrow> packet res \<Rightarrow> message_header \<Rightarrow> bool" where
  "updates_header p r h \<longleftrightarrow> (case r of Inl e \<Rightarrow> False
     | Inr q \<Rightarrow> header q = Inr h \<and> pkt_size q = pkt_size p
         \<and> drop 12 (pkt_bytes q) = drop 12 (pkt_bytes p)
         \<and> length (pkt_bytes q) = length (pkt_bytes p))"

lemma updates_header_set_header:
  assumes "header p = Inr h"
  shows "updates_header p (set_header h' p) h'"
proof -
  have "12 \<le> length (pkt_bytes p)" using assms by (simp add: header_def)
  then obtain q where q: "set_header h' p = Inr q" by (simp add: set_header_eq)
  from header_set_header [OF q] q show ?thesis by (simp add: updates_header_def)
qed

lemma updates_header_trans:
  assumes "updates_header p r h" "\<And>q. header q = Inr h \<Longrightarrow> updates_header q (f q) h'"
  shows "updates_header p (ebind r f) h'"
proof -
  from assms(1) obtain q where q: "r = Inr q" "header q = Inr h" "pkt_size q = pkt_size p"
    "drop 12 (pkt_bytes q) = drop 12 (pkt_bytes p)" "length (pkt_bytes q) = length (pkt_bytes p)"
    by (cases r) (auto simp: updates_header_def)
  from assms(2) [OF q(2)] q show ?thesis
    by (cases "f q") (auto simp: updates_header_def)
qed

lemma set_rcode_updates:
  "header p = Inr h \<Longrightarrow> updates_header p (set_rcode r p) (h\<lparr>h_rcode := rcode_word r\<rparr>)"
  by (simp add: set_rcode_def updates_header_set_header)

lemma set_flag_updates: "header p = Inr h \<Longrightarrow> updates_header p (set_flag f v p) (put_flag f v h)"
  by (simp add: set_flag_def updates_header_set_header)

lemma set_opcode_updates:
  "header p = Inr h \<Longrightarrow> updates_header p (set_opcode oc p) (h\<lparr>h_opcode := pkt_opcode_num oc\<rparr>)"
  by (simp add: set_opcode_def updates_header_set_header)

lemma mark_servfail_updates:
  "header p = Inr h \<Longrightarrow>
   updates_header p (mark_servfail p) (h\<lparr>h_rcode := rcode_word servfail, h_qr := True\<rparr>)"
  unfolding mark_servfail_def
  by (rule updates_header_trans [OF set_rcode_updates]) (auto dest: set_flag_updates [where f = flag_qr and v = True])

lemma mark_refused_updates:
  "header p = Inr h \<Longrightarrow>
   updates_header p (mark_refused p) (h\<lparr>h_rcode := rcode_word refused, h_qr := True\<rparr>)"
  unfolding mark_refused_def
  by (rule updates_header_trans [OF set_rcode_updates]) (auto dest: set_flag_updates [where f = flag_qr and v = True])

lemma mark_truncated_updates:
  "header p = Inr h \<Longrightarrow> updates_header p (mark_truncated p) (h\<lparr>h_tc := True, h_qr := True\<rparr>)"
  unfolding mark_truncated_def
  by (rule updates_header_trans [OF set_flag_updates]) (auto dest: set_flag_updates [where f = flag_qr and v = True])

lemma drop_eq_nthD:
  assumes "drop n xs = drop n ys" "n \<le> k" "length xs = length ys" "k < length xs"
  shows "xs ! k = ys ! k"
proof -
  have x: "xs ! k = drop n xs ! (k - n)" using assms(2-4) by simp
  have y: "ys ! k = drop n ys ! (k - n)" using assms(2-4) by simp
  show ?thesis unfolding x y using assms(1) by (rule arg_cong)
qed

lemma updates_headerD:
  assumes "updates_header p r h"
  obtains q where "r = Inr q" "header q = Inr h" "pkt_size q = pkt_size p"
    "length (pkt_bytes q) = length (pkt_bytes p)"
    "\<And>k. 12 \<le> k \<Longrightarrow> k < length (pkt_bytes p) \<Longrightarrow> pkt_bytes q ! k = pkt_bytes p ! k"
proof -
  from assms obtain q where q: "r = Inr q" "header q = Inr h" "pkt_size q = pkt_size p"
    "drop 12 (pkt_bytes q) = drop 12 (pkt_bytes p)" "length (pkt_bytes q) = length (pkt_bytes p)"
    by (cases r) (auto simp: updates_header_def)
  show thesis
    by (rule that [OF q(1-3,5)]) (use drop_eq_nthD [OF q(4)] q(5) in simp)
qed

text \<open>The question of a message does not depend on the other header fields.\<close>

lemma get_question_updates_header:
  assumes "wf_packet p" "header p = Inr h" "updates_header p (Inr q) h'" "h_qdcount h' = h_qdcount h"
    "get_question p = Inr x"
  shows "get_question q = Inr x"
proof -
  from assms(3) have q: "header q = Inr h'" "pkt_size q = pkt_size p"
    "length (pkt_bytes q) = length (pkt_bytes p)"
    "\<And>k. 12 \<le> k \<Longrightarrow> k < length (pkt_bytes p) \<Longrightarrow> pkt_bytes q ! k = pkt_bytes p ! k"
    by (auto elim: updates_headerD)
  from assms(2,5) obtain off owner rr where rr: "get_rr_question p 12 = Inr (off, owner, rr)"
    "h_qdcount h = 1" "x = (owner, rr_class rr, rr_type rr)"
    by (auto simp: get_question_def split: if_splits)
  have wfq: "wf_packet q" using assms(1) q by (simp add: wf_packet_def)
  have "off \<le> length (pkt_bytes p)"
    using question_reader.rd_progress [OF assms(1) rr(1)] wf_packetD [OF assms(1)] by simp
  then have "get_rr_question q 12 = Inr (off, owner, rr)"
    using q by (intro question_reader.rd_local [OF assms(1) wfq rr(1)]) auto
  then show ?thesis using q(1) rr assms(4) by (simp add: get_question_def)
qed

text \<open>
  The operations that turn a query into an error response change the header fields they are
  meant to change and nothing else: \<^verbatim>\<open>mark_servfail\<close>, \<^verbatim>\<open>mark_refused\<close> and \<^verbatim>\<open>mark_truncated\<close> keep
  the id, the counts, the other flags, every byte behind the header and the size; in particular
  the question of the response is the question of the query.
\<close>

theorem mark_operations_correct:
  assumes "wf_packet p" "header p = Inr h"
  shows "updates_header p (mark_servfail p) (h\<lparr>h_rcode := rcode_word servfail, h_qr := True\<rparr>)
    \<and> updates_header p (mark_refused p) (h\<lparr>h_rcode := rcode_word refused, h_qr := True\<rparr>)
    \<and> updates_header p (mark_truncated p) (h\<lparr>h_tc := True, h_qr := True\<rparr>)
    \<and> (get_question p = Inr x \<longrightarrow>
        ebind (mark_servfail p) get_question = Inr x \<and> ebind (mark_refused p) get_question = Inr x
        \<and> ebind (mark_truncated p) get_question = Inr x)"
proof -
  note u = mark_servfail_updates [OF assms(2)] mark_refused_updates [OF assms(2)]
    mark_truncated_updates [OF assms(2)]
  have "ebind r get_question = Inr x"
    if "get_question p = Inr x" "updates_header p r h'" "h_qdcount h' = h_qdcount h" for r h'
    using that(2)
  proof (rule updates_headerD)
    fix q assume "r = Inr q"
    then show ?thesis
      using get_question_updates_header [OF assms _ that(3,1)] that(2) by simp
  qed
  with u show ?thesis by simp
qed

theorem mark_operations_correct_witness:
  "ebind (mark_servfail sample_answer) get_question = Inr (''a.'', 1, 1)"
proof -
  have h: "header sample_answer = Inr \<lparr>h_id = 7, h_rd = True, h_tc = False, h_aa = False, h_opcode = 0,
      h_qr = True, h_rcode = 0, h_z = 0, h_ra = True, h_qdcount = 1, h_ancount = 1, h_nscount = 0,
      h_arcount = 0\<rparr>"
    by (simp add: sample_answer_def parse_eval cong: ebind_weak_cong)
  have q: "get_question sample_answer = Inr (''a.'', 1, 1)"
    by (simp add: sample_answer_def parse_eval cong: ebind_weak_cong)
  have "wf_packet sample_answer" by (simp add: sample_answer_def)
  from mark_operations_correct [OF this h, of "(''a.'', 1, 1)"] q show ?thesis by simp
qed

text \<open>
  \<^verbatim>\<open>short_info\<close>, which is called to log the answers of upstream servers, is not memory safe: an
  answer with an address record of 13 to 128 bytes of data makes it copy past the end of a socket
  address.  Here the record has 13 bytes; the message passes \<^verbatim>\<open>is_dns\<close> and all other accessors.
\<close>

definition long_a_record :: packet where
  "long_a_record = packet_of ([0, 7, 0x81, 0x80, 0, 1, 0, 1, 0, 0, 0, 0,
     1, 97, 0, 0, 1, 0, 1,  0xC0, 12, 0, 1, 0, 1, 0, 0, 0, 9, 0, 13,
     127, 0, 0, 1, 5, 6, 7, 8, 9, 10, 11, 12, 13])"

theorem short_info_overruns_on_long_a_record:
  "is_dns long_a_record \<and> wf_packet long_a_record
   \<and> get_question long_a_record = Inr (''a.'', 1, 1)
   \<and> short_info lib long_a_record = Inl Undefined_behaviour"
proof (intro conjI)
  show "is_dns long_a_record"
    by (simp add: long_a_record_def packet_of_def is_dns_def)
  show "wf_packet long_a_record" by (simp add: long_a_record_def)
  show "get_question long_a_record = Inr (''a.'', 1, 1)"
    by (simp add: long_a_record_def parse_eval cong: ebind_weak_cong)
  have a: "record_loop (get_rr long_a_record) (short_info_answer lib) 0 1 19 acc
      = Inl Undefined_behaviour" for acc
    by (simp add: long_a_record_def parse_eval short_info_answer_def type_a_def address_of_bytes_def
        addr_room_def cong: ebind_weak_cong)
  show "short_info lib long_a_record = Inl Undefined_behaviour"
    using a unfolding short_info_def rcode_def
    by (simp add: long_a_record_def parse_eval short_info_question_def rr_class_cstr_def rcode_word_def
        cong: ebind_weak_cong)
qed

end
