(* ===== verification/Query_Build.thy ===== *)
theory Query_Build
  imports Query
begin

text \<open>
  \<^verbatim>\<open>dns::query\<close>, second part: the constructor that builds a question, and the operations that
  append answer records.
\<close>

section \<open>Definitions\<close>

text \<open>
  The loop of the constructor over the characters of the host name: \<open>i\<close> is the index, the state is
  the buffer and \<^verbatim>\<open>label_off\<close>, where the length of the current label will be written.
\<close>

fun host_loop :: "string \<Rightarrow> nat \<Rightarrow> byte list \<Rightarrow> nat \<Rightarrow> (byte list \<times> nat) res" where
  "host_loop [] i b label_off = Inr (b, label_off)"
| "host_loop (ch # s) i b label_off =
     (if ch = CHR ''.'' then
        (if 64 \<le> i - label_off then Inl (Runtime_error ''too large DNS label'')
         else ebind (write_block b (header_size + label_off) [word_of_nat (i - label_off)])
           (\<lambda>b'. host_loop s (i + 1) b' (i + 1)))
      else if is_dns_char ch then
        ebind (write_block b (header_size + i + 1) [char_byte ch]) (\<lambda>b'. host_loop s (i + 1) b' label_off)
      else Inl (Runtime_error ''not a dns char''))"

definition question_rr :: "u16 \<Rightarrow> rr_header" where
  "question_rr typ = \<lparr>rr_type = typ, rr_class = rr_class_num internet, rr_ttl = 0, rr_rdlength = 0\<rparr>"

text \<open>Behind the loop: the length of a last label without a dot, and the zero that ends the name.\<close>

definition close_name :: "string \<Rightarrow> byte list \<Rightarrow> nat \<Rightarrow> (byte list \<times> nat) res" where
  "close_name host b label_off =
     (if label_off \<noteq> length host then
        (if 64 \<le> length host - label_off then Inl (Runtime_error ''too large DNS label'')
         else ebind (write_block b (header_size + label_off) [word_of_nat (length host - label_off)])
           (\<lambda>b. ebind (write_block b (header_size + (1 + length host)) [0])
             (\<lambda>b. Inr (b, 1 + length host))))
      else ebind (write_block b (header_size + label_off) [0]) (\<lambda>b. Inr (b, label_off)))"

definition query_new :: "string \<Rightarrow> u16 \<Rightarrow> u16 \<Rightarrow> packet res" where
  "query_new host typ tid =
     (if length host > max_host_name_length then Inl (Runtime_error ''Too long hostname'')
      else
        ebind (set_header (zero_header\<lparr>h_qdcount := 1, h_id := tid\<rparr>) (reserve max_size empty_packet)) (\<lambda>p.
        ebind (write_block (pkt_bytes p) header_size [0]) (\<lambda>b.
        ebind (host_loop host 0 b 0) (\<lambda>(b, label_off).
        ebind (close_name host b label_off) (\<lambda>(b, label_off).
        ebind (write_block b (header_size + label_off + 1)
            (store_rr_question (swap_rr_header (question_rr typ)))) (\<lambda>b.
          let new_size = header_size + 1 + label_off + rr_question_size in
          if max_size < new_size then Inl (Runtime_error ''too long DNS message'')
          else Inr (set_size (cast_u16 new_size) (p\<lparr>pkt_bytes := b\<rparr>))))))))"

text \<open>
  The other constructors: a random identifier, where \<open>r\<close> is what \<^verbatim>\<open>std::rand ()\<close> returns, and the
  choice between address and text questions.
\<close>

definition query_new_random :: "nat \<Rightarrow> string \<Rightarrow> u16 \<Rightarrow> packet res" where
  "query_new_random r host typ = query_new host typ (word_of_nat (1 + r mod 65500))"

definition query_new_txt :: "nat \<Rightarrow> string \<Rightarrow> bool \<Rightarrow> packet res" where
  "query_new_txt r host txt = query_new_random r (c_str host) (if txt then type_txt else type_a)"

definition add_answer_data :: "byte list \<Rightarrow> u16 \<Rightarrow> u32 \<Rightarrow> packet \<Rightarrow> packet res" where
  "add_answer_data data typ ttl p =
     (let add_size = 2 + rr_header_size + length data; new_size = pkt_size p + add_size in
      if new_size > max_size then Inl (Runtime_error ''Too large DNS message.'')
      else
        let p = (if reserved_size p < new_size then reserve new_size p else p) in
        ebind (header p) (\<lambda>head0.
          let head = head0\<lparr>h_ancount := h_ancount head0 + 1, h_qr := True\<rparr> in
          ebind (set_header head p) (\<lambda>p.
          ebind (skip_questions p (unat (h_qdcount head0)) header_size) (\<lambda>(off, _).
          ebind (skip_answers p (unat (h_ancount head0)) off) (\<lambda>(off, _).
            if h_qdcount head \<noteq> 1 then Inl (Logic_error ''not supported'')
            else
              let rr = \<lparr>rr_type = typ, rr_class = rr_class_num internet, rr_ttl = ttl,
                        rr_rdlength = word_of_nat (length data)\<rparr> in
              ebind (write_block (pkt_bytes p) off [0xc0, word_of_nat header_size]) (\<lambda>b.
              ebind (write_block b (off + 2) (store_rr_header (swap_rr_header rr))) (\<lambda>b.
              ebind (write_block b (off + 2 + rr_header_size) data) (\<lambda>b.
                Inr (set_size (cast_u16 (off + 2 + rr_header_size + length data))
                  (p\<lparr>pkt_bytes := b\<rparr>)))))))))) "

text \<open>
  The address overload reads the four bytes of \<^verbatim>\<open>sin_addr\<close> without a check of the family.  In an
  IPv6 socket address these are the bytes of \<^verbatim>\<open>sin6_flowinfo\<close>, which are zero in the addresses
  \<^verbatim>\<open>make_address\<close> builds.
\<close>

definition sin_addr_bytes :: "address \<Rightarrow> byte list" where
  "sin_addr_bytes a = (case a_inet a of ipv4 \<Rightarrow> a_ip a | ipv6 \<Rightarrow> [0, 0, 0, 0])"

definition add_answer :: "address \<Rightarrow> u32 \<Rightarrow> packet \<Rightarrow> packet res" where
  "add_answer a ttl p = add_answer_data (sin_addr_bytes a) type_a ttl p"

definition set_answer :: "inet_lib \<Rightarrow> string \<Rightarrow> packet \<Rightarrow> packet res" where
  "set_answer lib ip p = ebind (address_of_string lib ip 0) (\<lambda>a. add_answer a 10 p)"

definition set_txt_answer :: "byte list \<Rightarrow> u32 \<Rightarrow> packet \<Rightarrow> packet res" where
  "set_txt_answer txt_data ttl p =
     (if length txt_data > 255 then Inl (Runtime_error ''too long DNS TXT record'')
      else add_answer_data (word_of_nat (length txt_data) # txt_data) type_txt ttl p)"

section \<open>The wire form of names\<close>

definition wire_label :: "string \<Rightarrow> byte list" where
  "wire_label l = word_of_nat (length l) # map char_byte l"

definition wire_labels :: "string list \<Rightarrow> byte list" where
  "wire_labels ls = concat (map wire_label ls)"

definition dotted :: "string list \<Rightarrow> string" where
  "dotted ls = concat (map (\<lambda>l. l @ ''.'') ls)"

definition valid_label :: "string \<Rightarrow> bool" where
  "valid_label l \<longleftrightarrow> l \<noteq> [] \<and> length l < 64 \<and> list_all is_dns_char l"

lemma length_wire_label [simp]: "length (wire_label l) = Suc (length l)"
  by (simp add: wire_label_def)

lemma length_wire_labels: "length (wire_labels ls) = length (dotted ls)"
  by (induction ls) (simp_all add: wire_labels_def dotted_def)

lemma dotted_simps [simp]: "dotted [] = []" "dotted (l # ls) = l @ CHR ''.'' # dotted ls"
  by (simp_all add: dotted_def)

lemma wire_labels_simps [simp]:
  "wire_labels [] = []" "wire_labels (l # ls) = wire_label l @ wire_labels ls"
  by (simp_all add: wire_labels_def)

lemma dotted_append: "dotted (xs @ ys) = dotted xs @ dotted ys"
  by (simp add: dotted_def)

lemma dot_not_dns_char: "is_dns_char c \<Longrightarrow> c \<noteq> CHR ''.''"
  by (auto simp: is_dns_char_def is_digit_def)

lemma host_loop_label:
  assumes "list_all is_dns_char l" "12 + i + 1 + length l \<le> length b"
  shows "host_loop (l @ s) i b lo = host_loop s (i + length l) (overwrite (12 + i + 1) (map char_byte l) b) lo"
  using assms
proof (induction l arbitrary: i b)
  case (Cons c l)
  have c: "c \<noteq> CHR ''.''" "is_dns_char c" using Cons.prems(1) dot_not_dns_char by auto
  have "host_loop ((c # l) @ s) i b lo
      = host_loop (l @ s) (i + 1) (overwrite (12 + i + 1) [char_byte c] b) lo"
    using c Cons.prems(2) by (simp add: write_block_def)
  also have "\<dots> = host_loop s (i + 1 + length l)
      (overwrite (12 + (i + 1) + 1) (map char_byte l) (overwrite (12 + i + 1) [char_byte c] b)) lo"
    by (rule Cons.IH) (use Cons.prems in auto)
  also have "overwrite (12 + (i + 1) + 1) (map char_byte l) (overwrite (12 + i + 1) [char_byte c] b)
      = overwrite (12 + i + 1) (map char_byte (c # l)) b"
    using overwrite_behind [of "12 + i + 1" "[char_byte c]" "map char_byte l" b] Cons.prems(2) by simp
  finally show ?case by simp
qed simp

lemma host_loop_labels:
  assumes "list_all valid_label ls" "12 + i + length (dotted ls) < length b"
  shows "host_loop (dotted ls @ s) i b i
    = host_loop s (i + length (dotted ls)) (overwrite (12 + i) (wire_labels ls) b) (i + length (dotted ls))"
  using assms
proof (induction ls arbitrary: i b)
  case (Cons l ls)
  let ?b = "overwrite (12 + i + 1) (map char_byte l) b"
  have l: "list_all is_dns_char l" "length l < 64" using Cons.prems(1) by (auto simp: valid_label_def)
  have len: "12 + i + length l + 2 + length (dotted ls) \<le> length b" using Cons.prems(2) by simp
  have "host_loop (dotted (l # ls) @ s) i b i
      = host_loop (CHR ''.'' # dotted ls @ s) (i + length l) ?b i"
    using host_loop_label [OF l(1)] len by simp
  also have "\<dots> = host_loop (dotted ls @ s) (i + length l + 1)
      (overwrite (12 + i) [word_of_nat (length l)] ?b) (i + length l + 1)"
    using l(2) len by (simp add: write_block_def)
  also have "overwrite (12 + i) [word_of_nat (length l)] ?b = overwrite (12 + i) (wire_label l) b"
    using overwrite_before [of "12 + i" "[word_of_nat (length l)]" "map char_byte l" b] len
    by (simp add: wire_label_def)
  also have "host_loop (dotted ls @ s) (i + length l + 1) \<dots> (i + length l + 1)
      = host_loop s (i + length l + 1 + length (dotted ls))
          (overwrite (12 + (i + length l + 1)) (wire_labels ls) (overwrite (12 + i) (wire_label l) b))
          (i + length l + 1 + length (dotted ls))"
    by (rule Cons.IH) (use Cons.prems len in auto)
  also have "overwrite (12 + (i + length l + 1)) (wire_labels ls) (overwrite (12 + i) (wire_label l) b)
      = overwrite (12 + i) (wire_labels (l # ls)) b"
    using overwrite_behind [of "12 + i" "wire_label l" "wire_labels ls" b] len
    by (simp add: length_wire_labels)
  finally show ?case by (simp add: add.assoc)
qed simp

section \<open>The constructor\<close>

text \<open>The host names the constructor accepts: labels with or without a dot at the end.\<close>

definition host_of :: "string list \<Rightarrow> bool \<Rightarrow> string" where
  "host_of ls dot = (if dot then dotted ls else butlast (dotted ls))"

definition question_header :: "u16 \<Rightarrow> message_header" where
  "question_header tid = zero_header\<lparr>h_qdcount := 1, h_id := tid\<rparr>"

definition wire_query :: "string list \<Rightarrow> u16 \<Rightarrow> u16 \<Rightarrow> byte list" where
  "wire_query ls typ tid =
     store_header (swap_header (question_header tid)) @ wire_labels ls @ [0]
     @ store_rr_question (swap_rr_header (question_rr typ))"

lemma length_wire_query: "length (wire_query ls typ tid) = 17 + length (dotted ls)"
  by (simp add: wire_query_def length_wire_labels)

lemma dotted_eq_Nil_iff [simp]: "dotted ls = [] \<longleftrightarrow> ls = []"
  by (cases ls) simp_all

lemma butlast_dotted_snoc: "butlast (dotted (ls @ [l])) = dotted ls @ l"
  by (simp add: dotted_append butlast_append)

text \<open>The first zero the constructor writes is overwritten by a label length, or written again.\<close>

lemma overwrite_first:
  assumes "i + length ys \<le> length xs" "ys \<noteq> []"
  shows "overwrite i ys (overwrite i [x] xs) = overwrite i ys xs"
  using assms by (cases ys) (auto simp: overwrite_def min_def ac_simps)

lemma host_loop_no_dot:
  assumes "list_all valid_label (ls @ [l])" "13 + length (dotted ls) + length l \<le> length b"
  defines "n \<equiv> length (dotted ls)"
  shows "host_loop (dotted ls @ l) 0 b 0
    = Inr (overwrite (12 + n + 1) (map char_byte l) (overwrite 12 (wire_labels ls) b), n)"
proof -
  have l: "list_all valid_label ls" "list_all is_dns_char l"
    using assms(1) by (auto simp: valid_label_def)
  have "host_loop (dotted ls @ l) 0 b 0 = host_loop l n (overwrite 12 (wire_labels ls) b) n"
    using host_loop_labels [OF l(1), of 0 b l] assms(2) by (simp add: n_def)
  also have "\<dots> = host_loop [] (n + length l)
      (overwrite (12 + n + 1) (map char_byte l) (overwrite 12 (wire_labels ls) b)) n"
    using host_loop_label [OF l(2), of n "overwrite 12 (wire_labels ls) b" "[]"] assms(2)
    by (simp add: n_def length_wire_labels)
  finally show ?thesis by simp
qed

lemma host_loop_close:
  assumes "list_all valid_label ls" "ls \<noteq> []" "14 + length (dotted ls) \<le> length b"
  shows "ebind (host_loop (host_of ls dot) 0 b 0) (\<lambda>(b, label_off). close_name (host_of ls dot) b label_off)
    = Inr (overwrite 12 (wire_labels ls @ [0]) b, length (dotted ls))"
proof -
  have zero: "write_block (overwrite 12 (wire_labels ls) b) (12 + length (dotted ls)) [0]
      = Inr (overwrite 12 (wire_labels ls @ [0]) b)"
    using overwrite_behind [of 12 "wire_labels ls" "[0]" b] assms(3)
    by (simp add: length_wire_labels write_block_def)
  show ?thesis
  proof (cases dot)
    case True
    have "host_loop (dotted ls) 0 b 0 = Inr (overwrite 12 (wire_labels ls) b, length (dotted ls))"
      using host_loop_labels [OF assms(1), of 0 b "[]"] assms(3) by simp
    then show ?thesis using True zero by (simp add: host_of_def close_name_def)
  next
    case False
    obtain ls' l where ls: "ls = ls' @ [l]" using assms(2) by (metis rev_exhaust)
    let ?n = "length (dotted ls')" and ?c = "overwrite 12 (wire_labels ls') b"
    let ?b = "overwrite (12 + ?n + 1) (map char_byte l) ?c"
    have l: "length l < 64" "l \<noteq> []" using assms(1) by (auto simp: ls valid_label_def)
    have n: "length (dotted ls) = ?n + length l + 1" "13 + ?n + length l \<le> length b"
      using assms(3) by (simp_all add: ls dotted_append)
    have loop: "host_loop (host_of ls dot) 0 b 0 = Inr (?b, ?n)"
      using host_loop_no_dot [OF assms(1) [unfolded ls] n(2)] False
      by (simp add: host_of_def ls butlast_dotted_snoc)
    have "overwrite (12 + ?n) [word_of_nat (length l)] ?b = overwrite (12 + ?n) (wire_label l) ?c"
      using overwrite_before [of "12 + ?n" "[word_of_nat (length l)]" "map char_byte l" ?c] n(2)
      by (simp add: wire_label_def length_wire_labels)
    also have "\<dots> = overwrite 12 (wire_labels ls) b"
      using overwrite_behind [of 12 "wire_labels ls'" "wire_label l" b] n(2)
      by (simp add: ls wire_labels_def length_wire_labels [unfolded wire_labels_def])
    finally have "write_block ?b (12 + ?n) [word_of_nat (length l)]
        = Inr (overwrite 12 (wire_labels ls) b)"
      using n(2) by (simp add: write_block_def length_wire_labels)
    moreover have "length (host_of ls dot) = ?n + length l"
      using False by (simp add: host_of_def ls butlast_dotted_snoc)
    ultimately show ?thesis
      unfolding loop using l n(1) zero by (simp add: close_name_def add.commute add.left_commute)
  qed
qed

lemma query_new_host_of:
  assumes "list_all valid_label ls" "ls \<noteq> []" "length (host_of ls dot) \<le> 256"
  obtains p where "query_new (host_of ls dot) typ tid = Inr p" "content p = wire_query ls typ tid"
    "wf_packet p" "length (pkt_bytes p) = max_size"
proof -
  define p0 where "p0 = reserve max_size empty_packet"
  let ?h = "store_header (swap_header (question_header tid))"
  have len: "length (dotted ls) \<le> 257"
    using assms(3) by (simp add: host_of_def split: if_splits)
  have l0: "length (pkt_bytes p0) = 55535" by (simp add: p0_def max_size_def)
  define b0 where "b0 = overwrite 12 [0] (overwrite 0 ?h (pkt_bytes p0))"
  have lb0: "length b0 = 55535" by (simp add: b0_def l0)
  let ?rr = "store_rr_question (swap_rr_header (question_rr typ))"
  let ?w = "wire_labels ls @ [0]"
  have w: "length ?w = length (dotted ls) + 1" by (simp add: length_wire_labels)
  define b1 where "b1 = overwrite (12 + length (dotted ls) + 1) ?rr (overwrite 12 ?w b0)"
  have b1: "b1 = overwrite 12 (?w @ ?rr) b0"
    using overwrite_behind [of 12 ?w ?rr b0] lb0 len w by (simp add: b1_def)
  define p where "p = \<lparr>pkt_size = 17 + length (dotted ls), pkt_bytes = b1\<rparr>"
  have lb1: "length b1 = 55535" using lb0 len w by (simp add: b1)
  have close: "ebind (host_loop (host_of ls dot) 0 b0 0)
        (\<lambda>(b, label_off). ebind (close_name (host_of ls dot) b label_off) f)
      = f (overwrite 12 ?w b0, length (dotted ls))" for f :: "_ \<Rightarrow> packet res"
    using host_loop_close [OF assms(1,2), of b0 dot] len lb0
    by (cases "host_loop (host_of ls dot) 0 b0 0") auto
  have "query_new (host_of ls dot) typ tid = Inr p"
    unfolding query_new_def p0_def [symmetric] question_header_def [symmetric]
    using assms(3) len l0 lb0 w
    by (simp add: max_host_name_length_def set_header_eq write_block_def b0_def [symmetric] close
        Let_def max_size_def set_size_def p_def b1_def del: ebind_eq_Inr_iff)
  moreover have "content p = wire_query ls typ tid"
  proof -
    have "take 12 b0 = ?h" using l0 by (simp add: b0_def overwrite_def)
    then show ?thesis
      using take_overwrite_end [of 12 "?w @ ?rr" b0] lb0 len w
      by (simp add: content_def p_def b1 wire_query_def)
  qed
  moreover have "wf_packet p" "length (pkt_bytes p) = max_size"
    using lb1 len by (simp_all add: wf_packet_def p_def max_size_def)
  ultimately show thesis by (rule that)
qed

section \<open>Reading what was built\<close>

lemma slice_content: "i + n \<le> pkt_size p \<Longrightarrow> slice i n (content p) = slice i n (pkt_bytes p)"
  by (simp add: slice_def content_def drop_take min_def)

lemma slice_Suc: "i < length xs \<Longrightarrow> slice i (Suc n) xs = xs ! i # slice (Suc i) n xs"
  by (simp add: slice_def Cons_nth_drop_Suc [symmetric])

lemma slice_add: "slice i (m + n) xs = slice i m xs @ slice (i + m) n xs"
  by (simp add: slice_def take_add add.commute)

lemma reads_name_wire:
  assumes "wf_packet p" "list_all valid_label ls"
    "slice off (length (dotted ls) + 1) (pkt_bytes p) = wire_labels ls @ [0]"
    "off + length (dotted ls) + 1 < pkt_size p"
    "length owner + length (dotted ls) \<le> max_host_name_length"
  shows "reads_name p off owner (off + length (dotted ls) + 1) (owner @ dotted ls)"
  using assms(2-5)
proof (induction ls arbitrary: off owner)
  case Nil
  then have off: "off < length (pkt_bytes p)" using wf_packetD [OF assms(1)] by simp
  then have "pkt_bytes p ! off = 0" using Nil(2) slice_Suc [OF off, of 0] by simp
  then show ?case using rn_root [OF off, of owner] Nil(3) by simp
next
  case (Cons l ls)
  let ?b = "pkt_bytes p" and ?n = "length l"
  have l: "l \<noteq> []" "?n < 64" "list_all is_dns_char l" using Cons.prems(1) by (auto simp: valid_label_def)
  have off: "off < length ?b" "off + ?n + 1 < length ?b"
    using Cons.prems(3) wf_packetD [OF assms(1)] by simp_all
  have s: "slice off (?n + 1 + (length (dotted ls) + 1)) ?b = wire_label l @ wire_labels ls @ [0]"
    using Cons.prems(2) by (simp add: add.commute add.left_commute)
  then have "slice off (?n + 1) ?b @ slice (off + (?n + 1)) (length (dotted ls) + 1) ?b
      = wire_label l @ wire_labels ls @ [0]"
    by (simp only: slice_add)
  moreover have "length (slice off (?n + 1) ?b) = length (wire_label l)" using off by simp
  ultimately have sl: "slice off (?n + 1) ?b = wire_label l"
    and sr: "slice (off + (?n + 1)) (length (dotted ls) + 1) ?b = wire_labels ls @ [0]"
    by (metis append_eq_append_conv)+
  have b: "?b ! off = word_of_nat ?n" "slice (off + 1) ?n ?b = map char_byte l"
    using sl slice_Suc [OF off(1), of ?n] by (simp_all add: wire_label_def)
  have n: "unat (?b ! off) = ?n" using b(1) l(2) by (simp add: unat_of_nat)
  have "reads_name p (off + (?n + 1)) (owner @ l @ ''.'')
      (off + (?n + 1) + length (dotted ls) + 1) ((owner @ l @ ''.'') @ dotted ls)"
    by (rule Cons.IH [OF _ sr]) (use Cons.prems in auto)
  then have "reads_name p (?n + (off + 1)) (owner @ l @ ''.'') (off + length (dotted (l # ls)) + 1)
      (owner @ dotted (l # ls))"
    by (simp add: add.commute add.left_commute)
  moreover have "map byte_char (slice (off + 1) ?n ?b) = l"
    unfolding b(2) by (rule map_byte_char_byte)
  ultimately show ?case
    using l n off Cons.prems(3,4)
    by (intro rn_label [of off p ?n l]) auto
qed

lemma wire_query_parts:
  assumes "content p = wire_query ls typ tid" "wf_packet p"
  defines "n \<equiv> length (dotted ls)"
  shows "pkt_size p = 17 + n" "slice 0 12 (pkt_bytes p) = store_header (swap_header (question_header tid))"
    "slice 12 (n + 1) (pkt_bytes p) = wire_labels ls @ [0]"
    "slice (13 + n) 4 (pkt_bytes p) = store_rr_question (swap_rr_header (question_rr typ))"
proof -
  show size: "pkt_size p = 17 + n"
    using length_content [OF assms(2)] assms(1) by (simp add: length_wire_query n_def)
  let ?h = "store_header (swap_header (question_header tid))" and ?w = "wire_labels ls @ [0]"
    and ?rr = "store_rr_question (swap_rr_header (question_rr typ))"
  have c: "content p = ?h @ ?w @ ?rr" using assms(1) by (simp add: wire_query_def)
  have w: "length ?w = n + 1" by (simp add: length_wire_labels n_def)
  have "slice 0 12 (content p) = ?h" by (simp add: c slice_def)
  then show "slice 0 12 (pkt_bytes p) = ?h" using slice_content [of 0 12 p] size by simp
  have "slice 12 (n + 1) (content p) = ?w"
    unfolding c using slice_append_right [of ?h 0 "n + 1" "?w @ ?rr"] w by simp
  then show "slice 12 (n + 1) (pkt_bytes p) = ?w" using slice_content [of 12 "n + 1" p] size by simp
  have "slice (13 + n) 4 (content p) = ?rr"
    unfolding c using slice_append_right [of "?h @ ?w" 0 4 ?rr] w by simp
  then show "slice (13 + n) 4 (pkt_bytes p) = ?rr" using slice_content [of "13 + n" 4 p] size by simp
qed

lemma get_rr_question_wire_query:
  assumes "content p = wire_query ls typ tid" "wf_packet p" "list_all valid_label ls"
    "length (dotted ls) \<le> 256"
  shows "get_rr_question p 12 = Inr (pkt_size p, dotted ls, question_rr typ)" "header p = Inr (question_header tid)"
proof -
  let ?n = "length (dotted ls)"
  note parts = wire_query_parts [OF assms(1,2)]
  show "header p = Inr (question_header tid)"
    using header_eq [of p] parts(1,2) wf_packetD [OF assms(2)] by simp
  have "reads_name p 12 [] (12 + ?n + 1) ([] @ dotted ls)"
    by (rule reads_name_wire) (use assms parts in \<open>auto simp: max_host_name_length_def\<close>)
  then have "get_rr_name p 12 = Inr (13 + ?n, dotted ls)"
    using parts(1) by (simp add: get_rr_name_iff [OF assms(2)])
  moreover have "swap_rr_header (load_rr_question (slice (13 + ?n) 4 (pkt_bytes p)) zero_rr_header)
      = question_rr typ"
    unfolding parts(4) by (simp add: swap_rr_header_def question_rr_def zero_rr_header_def)
  ultimately show "get_rr_question p 12 = Inr (pkt_size p, dotted ls, question_rr typ)"
    using parts(1) by (simp add: get_rr_question_iff [OF assms(2)])
qed

section \<open>Appending an answer\<close>

definition answer_rr :: "byte list \<Rightarrow> u16 \<Rightarrow> u32 \<Rightarrow> rr_header" where
  "answer_rr data typ ttl = \<lparr>rr_type = typ, rr_class = rr_class_num internet, rr_ttl = ttl,
     rr_rdlength = word_of_nat (length data)\<rparr>"

definition wire_answer :: "byte list \<Rightarrow> u16 \<Rightarrow> u32 \<Rightarrow> byte list" where
  "wire_answer data typ ttl =
     [0xc0, 12] @ store_rr_header (swap_rr_header (answer_rr data typ ttl)) @ data"

lemma length_wire_answer [simp]: "length (wire_answer data typ ttl) = 12 + length data"
  by (simp add: wire_answer_def)

lemma write_answer:
  assumes "off + 12 + length data \<le> length b"
  shows "ebind (write_block b off [0xc0, word_of_nat header_size]) (\<lambda>b.
         ebind (write_block b (off + 2) (store_rr_header (swap_rr_header (answer_rr data typ ttl)))) (\<lambda>b.
         ebind (write_block b (off + 2 + rr_header_size) data) f))
    = f (overwrite off (wire_answer data typ ttl) b)"
proof -
  let ?rr = "store_rr_header (swap_rr_header (answer_rr data typ ttl))"
  have "overwrite (off + 2) ?rr (overwrite off [0xc0, 12] b) = overwrite off ([0xc0, 12] @ ?rr) b"
    using overwrite_behind [of off "[0xc0, 12]" ?rr b] assms by simp
  moreover have "overwrite (12 + off) data (overwrite off ([0xc0, 12] @ ?rr) b)
      = overwrite off (wire_answer data typ ttl) b"
    using overwrite_behind [of off "[0xc0, 12] @ ?rr" data b] assms
    by (simp add: wire_answer_def add.commute)
  ultimately show ?thesis
    using assms by (simp add: write_block_def)
qed

lemma get_rr_wire_answer:
  assumes "wf_packet q" "slice off (12 + length data) (pkt_bytes q) = wire_answer data typ ttl"
    "off + 12 + length data \<le> pkt_size q" "12 \<le> off" "length data < 65536"
  shows "get_rr q off = Inr (off + 12 + length data, [], answer_rr data typ ttl, data)"
proof -
  let ?b = "pkt_bytes q" and ?rr = "store_rr_header (swap_rr_header (answer_rr data typ ttl))"
  have len: "off + 12 + length data \<le> length ?b" using assms(3) wf_packetD [OF assms(1)] by simp
  have s: "slice k m ?b = slice (k - off) m (wire_answer data typ ttl)"
    if "off \<le> k" "k + m \<le> off + 12 + length data" for k m
    using slice_slice [of "k - off" m "12 + length data" off ?b] that by (simp add: assms(2))
  have "?b ! off = wire_answer data typ ttl ! 0"
    using nth_slice [of 0 "12 + length data" off ?b] len by (simp add: assms(2))
  then have "?b ! off = 0xc0" by (simp add: wire_answer_def)
  then have "reads_name q off [] (off + 2) []"
    using len assms(3) by (intro rn_pointer) simp_all
  then have "get_rr_name q off = Inr (off + 2, [])"
    using assms(3,4) by (simp add: get_rr_name_iff [OF assms(1)])
  moreover have "slice (off + 2) 10 ?b = ?rr"
    using s [of "off + 2" 10] by (simp add: wire_answer_def slice_def)
  moreover have "slice (off + 12) (length data) ?b = data"
    using s [of "off + 12" "length data"] by (simp add: wire_answer_def slice_def)
  moreover have "unat (rr_rdlength (answer_rr data typ ttl)) = length data"
    using assms(5) by (simp add: answer_rr_def unat_of_nat)
  ultimately show ?thesis
    using assms(3) by (simp add: get_rr_iff [OF assms(1)] add.commute add.left_commute)
qed

text \<open>
  What \<^verbatim>\<open>add_answer\<close> expects of a message: one question and \<open>n\<close> answers, and nothing behind them.
\<close>

definition answers_end :: "packet \<Rightarrow> message_header \<Rightarrow> nat \<Rightarrow> bool" where
  "answers_end p h off1 \<longleftrightarrow> header p = Inr h \<and> h_qdcount h = 1
     \<and> (\<exists>rr. skip_questions p 1 12 = Inr (off1, rr))
     \<and> skip_answers p (unat (h_ancount h)) off1 = Inr (pkt_size p, ())"

lemma skip_questions_local:
  assumes "wf_packet p" "wf_packet q" "skip_questions p n off = Inr (e, rr)" "pkt_size p \<le> pkt_size q"
    "\<And>k. off \<le> k \<Longrightarrow> k < e \<Longrightarrow> pkt_bytes q ! k = pkt_bytes p ! k"
  shows "skip_questions q n off = Inr (e, rr)"
  unfolding skip_questions_def
  by (rule question_reader.loop_local [OF assms(1,2) assms(3) [unfolded skip_questions_def] assms(4,5)])

lemma skip_answers_local:
  assumes "wf_packet p" "wf_packet q" "skip_answers p n off = Inr (e, u)" "pkt_size p \<le> pkt_size q"
    "\<And>k. off \<le> k \<Longrightarrow> k < e \<Longrightarrow> pkt_bytes q ! k = pkt_bytes p ! k"
  shows "skip_answers q n off = Inr (e, u)"
  unfolding skip_answers_def
  by (rule answer_reader.loop_local [OF assms(1,2) assms(3) [unfolded skip_answers_def] assms(4,5)])

lemma answers_end_bounds:
  assumes "wf_packet p" "answers_end p h off1"
  shows "12 < off1" "off1 \<le> pkt_size p" "unat (h_ancount h) + 12 < pkt_size p"
proof -
  obtain rr where s: "skip_questions p 1 12 = Inr (off1, rr)"
    and a: "skip_answers p (unat (h_ancount h)) off1 = Inr (pkt_size p, ())"
    using assms(2) by (auto simp: answers_end_def)
  have "12 + 1 \<le> off1"
    using question_reader.loop_progress [OF assms(1) s [unfolded skip_questions_def]] by simp
  moreover have "off1 + unat (h_ancount h) \<le> pkt_size p"
    using answer_reader.loop_progress [OF assms(1) a [unfolded skip_answers_def]] by simp
  ultimately show "12 < off1" "off1 \<le> pkt_size p" "unat (h_ancount h) + 12 < pkt_size p"
    by simp_all
qed

lemma nth_reserve: "k < length (pkt_bytes p) \<Longrightarrow> k < s \<Longrightarrow> pkt_bytes (reserve s p) ! k = pkt_bytes p ! k"
  by (simp add: reserve_def nth_append)

lemma add_answer_data_result:
  assumes wf: "wf_packet p" and e: "answers_end p h off1"
    and size: "pkt_size p + 12 + length data \<le> max_size"
  obtains q where "add_answer_data data typ ttl p = Inr q" "wf_packet q"
    "header q = Inr (h\<lparr>h_ancount := h_ancount h + 1, h_qr := True\<rparr>)"
    "pkt_size q = pkt_size p + 12 + length data"
    "\<And>k. 12 \<le> k \<Longrightarrow> k < pkt_size p \<Longrightarrow> pkt_bytes q ! k = pkt_bytes p ! k"
    "slice (pkt_size p) (12 + length data) (pkt_bytes q) = wire_answer data typ ttl"
proof -
  let ?n = "pkt_size p + 12 + length data"
  let ?h = "h\<lparr>h_ancount := h_ancount h + 1, h_qr := True\<rparr>"
  have hp: "header p = Inr h" and qd: "h_qdcount h = 1"
    and a: "skip_answers p (unat (h_ancount h)) off1 = Inr (pkt_size p, ())"
    using e by (auto simp: answers_end_def)
  obtain rr where s: "skip_questions p 1 12 = Inr (off1, rr)" using e by (auto simp: answers_end_def)
  note w = wf_packetD [OF wf]
  define m where "m = pkt_size p + (2 + rr_header_size + length data)"
  have m: "m = ?n" by (simp add: m_def)
  define p1 where "p1 = (if reserved_size p < m then reserve m p else p)"
  have p1: "wf_packet p1" "pkt_size p1 = pkt_size p" "?n \<le> length (pkt_bytes p1)"
    "\<And>k. k < pkt_size p \<Longrightarrow> pkt_bytes p1 ! k = pkt_bytes p ! k"
    using wf w size by (auto simp: p1_def m max_size_def reserved_size_eq wf_reserve nth_reserve)
  have b: "12 < off1" "off1 \<le> pkt_size p" using answers_end_bounds [OF wf e] by simp_all
  have h1: "header p1 = Inr h"
  proof -
    have "slice 0 12 (pkt_bytes p1) = slice 0 12 (pkt_bytes p)"
      by (rule slice_cong) (use p1 w b in auto)
    then have "header p1 = header p" using p1(3) w b by (intro header_cong) simp_all
    then show ?thesis using hp by simp
  qed
  obtain p2 where p2: "set_header ?h p1 = Inr p2" "header p2 = Inr ?h" "pkt_size p2 = pkt_size p"
    "length (pkt_bytes p2) = length (pkt_bytes p1)"
    "\<And>k. 12 \<le> k \<Longrightarrow> k < length (pkt_bytes p1) \<Longrightarrow> pkt_bytes p2 ! k = pkt_bytes p1 ! k"
    using updates_header_set_header [OF h1, of ?h] p1(2) by (auto elim!: updates_headerD)
  have wf2: "wf_packet p2" using p1(1-3) p2(3,4) by (simp add: wf_packet_def)
  have eq2: "pkt_bytes p2 ! k = pkt_bytes p ! k" if "12 \<le> k" "k < pkt_size p" for k
    using that p1(3,4) p2(5) by simp
  have s2: "skip_questions p2 1 12 = Inr (off1, rr)"
    by (rule skip_questions_local [OF wf wf2 s]) (use p2(3) eq2 b in auto)
  have a2: "skip_answers p2 (unat (h_ancount h)) off1 = Inr (pkt_size p, ())"
    by (rule skip_answers_local [OF wf wf2 a]) (use p2(3) eq2 b in auto)
  define b3 where "b3 = overwrite (pkt_size p) (wire_answer data typ ttl) (pkt_bytes p2)"
  define q where "q = p2\<lparr>pkt_bytes := b3, pkt_size := ?n\<rparr>"
  have len3: "length b3 = length (pkt_bytes p2)" using p1(3) p2(4) by (simp add: b3_def)
  have "add_answer_data data typ ttl p = Inr q"
  proof -
    have "m \<le> max_size" "?n < 65536"
      using size by (simp_all add: max_size_def m)
    then show ?thesis
      unfolding add_answer_data_def Let_def answer_rr_def [symmetric] m_def [symmetric] p1_def [symmetric]
      using h1 p2(1) s2 a2 qd p1(3) p2(4)
        write_answer [of "pkt_size p" data "pkt_bytes p2" "typ" ttl "\<lambda>b. Inr (set_size
            (cast_u16 (pkt_size p + 2 + rr_header_size + length data)) (p2\<lparr>pkt_bytes := b\<rparr>))"]
      by (simp add: set_size_def q_def b3_def add.commute add.left_commute del: ebind_eq_Inr_iff)
  qed
  moreover have "wf_packet q"
    using p1(1,3) p2(4) len3 by (simp add: wf_packet_def q_def)
  moreover have "header q = Inr ?h"
  proof -
    have "slice 0 12 b3 = slice 0 12 (pkt_bytes p2)"
      unfolding b3_def by (rule slice_overwrite_disjoint) (use p1(3) p2(4) b in auto)
    then have "header q = header p2" using len3 p1(3) p2(4) b by (intro header_cong) (simp_all add: q_def)
    then show ?thesis using p2(2) by simp
  qed
  moreover have "pkt_size q = ?n" by (simp add: q_def)
  moreover have "pkt_bytes q ! k = pkt_bytes p ! k" if "12 \<le> k" "k < pkt_size p" for k
    using that eq2 p1(3) p2(4) by (simp add: q_def b3_def nth_overwrite)
  moreover have "slice (pkt_size p) (12 + length data) (pkt_bytes q) = wire_answer data typ ttl"
    using slice_overwrite_same [of "pkt_size p" "wire_answer data typ ttl" "pkt_bytes p2"] p1(3) p2(4)
    by (simp add: q_def b3_def)
  ultimately show thesis by (rule that)
qed

lemma set_txt_answer_result:
  assumes "wf_packet p" "answers_end p h off1" "find_txt_answers p = Inr ts"
    "length txt \<le> 255" "pkt_size p + 13 + length txt \<le> max_size"
  shows "\<exists>q. set_txt_answer txt ttl p = Inr q \<and> wf_packet q
    \<and> get_txt_answer q = Inr (map tl ts @ [txt])
    \<and> header q = Inr (h\<lparr>h_ancount := h_ancount h + 1, h_qr := True\<rparr>)
    \<and> unat (h_ancount h + 1) = unat (h_ancount h) + 1
    \<and> get_question q = get_question p"
proof -
  let ?data = "word_of_nat (length txt) # txt" and ?n = "unat (h_ancount h)"
  obtain q where q: "add_answer_data ?data type_txt ttl p = Inr q" "wf_packet q"
    "header q = Inr (h\<lparr>h_ancount := h_ancount h + 1, h_qr := True\<rparr>)"
    "pkt_size q = pkt_size p + 12 + length ?data"
    "\<And>k. 12 \<le> k \<Longrightarrow> k < pkt_size p \<Longrightarrow> pkt_bytes q ! k = pkt_bytes p ! k"
    "slice (pkt_size p) (12 + length ?data) (pkt_bytes q) = wire_answer ?data type_txt ttl"
    by (rule add_answer_data_result [OF assms(1,2), of ?data type_txt ttl]) (use assms(5) in auto)
  note b = answers_end_bounds [OF assms(1,2)]
  have hp: "header p = Inr h" "h_qdcount h = 1"
    and a: "skip_answers p ?n off1 = Inr (pkt_size p, ())"
    using assms(2) by (auto simp: answers_end_def)
  obtain rr where s: "skip_questions p 1 12 = Inr (off1, rr)" using assms(2) by (auto simp: answers_end_def)
  have n: "unat (h_ancount h + 1) = ?n + 1"
    using b(3) wf_packetD [OF assms(1)] by (simp add: unat_plus_if_size word_size)
  have sq: "skip_questions q 1 12 = Inr (off1, rr)"
    by (rule skip_questions_local [OF assms(1) q(2) s]) (use q(4,5) b in auto)
  let ?body = "\<lambda>_ _ (owner, rr, rr_data) result. Inr (if rr_type rr = type_txt
      \<and> rr_class rr = rr_class_num internet then result @ [rr_data] else result)"
  have loop: "record_loop (get_rr p) ?body 0 ?n off1 [] = Inr (pkt_size p, ts)"
    using assms(3) hp s record_loop_offset_unique [OF _ a [unfolded skip_answers_def]]
    by (fastforce simp: find_txt_answers_def)
  have loopq: "record_loop (get_rr q) ?body 0 ?n off1 [] = Inr (pkt_size p, ts)"
    by (rule answer_reader.loop_local [OF assms(1) q(2) loop]) (use q(4,5) b in auto)
  have "get_rr q (pkt_size p) = Inr (pkt_size p + 12 + length ?data, [], answer_rr ?data type_txt ttl, ?data)"
    by (rule get_rr_wire_answer [OF q(2,6)]) (use q(4) b assms(4) in auto)
  then have "record_loop (get_rr q) ?body 0 (?n + 1) off1 []
      = Inr (pkt_size p + 12 + length ?data, ts @ [?data])"
    unfolding record_loop_add loopq by (simp add: answer_rr_def)
  then have "find_txt_answers q = Inr (ts @ [?data])"
    using q(3) hp(2) sq n
    by (simp add: find_txt_answers_def del: ebind_eq_Inr_iff record_loop.simps)
  then have "get_txt_answer q = Inr (map tl ts @ [txt])"
    by (auto simp: get_txt_answer_def)
  moreover have "get_question q = get_question p"
  proof -
    obtain name where g: "get_rr_question p 12 = Inr (off1, name, rr)"
      using s by (auto simp: skip_questions_def)
    have "get_rr_question q 12 = Inr (off1, name, rr)"
      by (rule question_reader.rd_local [OF assms(1) q(2) g]) (use q(4,5) b in auto)
    with g hp q(3) show ?thesis by (simp add: get_question_def)
  qed
  ultimately show ?thesis
    using q(1-3) n assms(4) by (auto simp: set_txt_answer_def)
qed

lemma wire_query_is_dns:
  assumes "content p = wire_query ls typ tid" "wf_packet p"
  shows "is_dns p" "slice 4 4 (pkt_bytes p) = [0, 1, 0, 0]"
proof -
  have size: "17 \<le> pkt_size p" using wire_query_parts(1) [OF assms] by simp
  have h12: "store_header (swap_header (question_header tid)) ! k = pkt_bytes p ! k" if "k < 12" for k
    using wire_query_parts(2) [OF assms] nth_slice [of k 12 0 "pkt_bytes p"] that size
      wf_packetD [OF assms(2)] by simp
  have b: "pkt_bytes p ! 4 = 0" "pkt_bytes p ! 5 = 1" "pkt_bytes p ! 6 = 0" "pkt_bytes p ! 7 = 0"
    "pkt_bytes p ! 10 = 0" "pkt_bytes p ! 11 = 0"
    using h12 [of 4] h12 [of 5] h12 [of 6] h12 [of 7] h12 [of 10] h12 [of 11]
    by (simp_all add: store_header_def store_u16_def swap_header_def question_header_def
        zero_header_def htons_def nth_append)
  show "is_dns p" using size b by (simp add: is_dns_def)
  show "slice 4 4 (pkt_bytes p) = [0, 1, 0, 0]"
  proof (rule nth_equalityI)
    show l: "length (slice 4 4 (pkt_bytes p)) = length [0::byte, 1, 0, 0]"
      using size wf_packetD [OF assms(2)] by simp
    fix i assume "i < length (slice 4 4 (pkt_bytes p))"
    with l have "i < 4" by simp
    then have e: "slice 4 4 (pkt_bytes p) ! i = pkt_bytes p ! (4 + i)"
      by (rule nth_slice) (use size wf_packetD [OF assms(2)] in simp)
    from \<open>i < 4\<close> consider "i = 0" | "i = 1" | "i = 2" | "i = 3" by linarith
    then show "slice 4 4 (pkt_bytes p) ! i = [0, 1, 0, 0] ! i" unfolding e by cases (simp_all add: b)
  qed
qed

section \<open>Properties\<close>

text \<open>
  C26. The constructor of queries and the parser of questions agree: for every host name made of
  non-empty labels of at most 63 letters, digits and hyphens, with or without the dot at the end,
  whose dotted form has at most 256 characters, the constructor succeeds, its message is the wire
  form of the name in a question of class IN, it passes \<^verbatim>\<open>is_dns\<close>, and \<^verbatim>\<open>get_question\<close> reads the
  name, the class and the type back; \<^verbatim>\<open>hostname\<close> returns the name without the dot.
\<close>

theorem query_new_round_trip:
  assumes "list_all valid_label ls" "ls \<noteq> []" "length (dotted ls) \<le> 256"
  shows "\<exists>p. query_new (host_of ls dot) typ tid = Inr p \<and> content p = wire_query ls typ tid
    \<and> wf_packet p \<and> is_dns p \<and> header p = Inr (question_header tid)
    \<and> get_question p = Inr (dotted ls, 1, typ) \<and> hostname p = Inr (butlast (dotted ls))"
proof -
  have "length (host_of ls dot) \<le> 256" using assms(3) by (cases dot) (simp_all add: host_of_def)
  from query_new_host_of [OF assms(1,2) this] obtain p where p:
    "query_new (host_of ls dot) typ tid = Inr p" "content p = wire_query ls typ tid" "wf_packet p"
    by metis
  note q = get_rr_question_wire_query [OF p(2,3) assms(1,3)]
  have gq: "get_question p = Inr (dotted ls, 1, typ)"
    using q by (simp add: get_question_def question_header_def question_rr_def)
  note dns = wire_query_is_dns(1) [OF p(2,3)]
  have "last (dotted ls) = CHR ''.''"
    using assms(2) by (induction ls) (auto simp: last_append)
  then have "hostname p = Inr (butlast (dotted ls))"
    using gq assms(2) by (simp add: hostname_def)
  with p q(2) gq dns show ?thesis by auto
qed

theorem query_new_round_trip_witness:
  "\<exists>p. query_new ''www.example'' 28 7 = Inr p \<and> get_question p = Inr (''www.example.'', 1, 28)"
  using query_new_round_trip [of "[''www'', ''example'']" False 28 7]
  by (auto simp: valid_label_def host_of_def is_dns_char_def is_digit_def)

text \<open>
  An answer record appended to a message is found again, and nothing that was there is lost:
  on a message that ends behind its answers, \<^verbatim>\<open>set_txt_answer\<close> succeeds as long as the result fits,
  \<^verbatim>\<open>get_txt_answer\<close> afterwards returns the earlier texts followed by the new one, the question is
  unchanged, the message is marked as a response with one more answer, and the number of answers
  does not wrap.
\<close>

theorem set_txt_answer_round_trip:
  assumes "wf_packet p" "answers_end p h off1" "find_txt_answers p = Inr ts"
    "length txt \<le> 255" "pkt_size p + 13 + length txt \<le> max_size"
  shows "\<exists>q. set_txt_answer txt ttl p = Inr q \<and> wf_packet q
    \<and> get_txt_answer q = Inr (map tl ts @ [txt])
    \<and> header q = Inr (h\<lparr>h_ancount := h_ancount h + 1, h_qr := True\<rparr>)
    \<and> unat (h_ancount h + 1) = unat (h_ancount h) + 1
    \<and> get_question q = get_question p"
  by (rule set_txt_answer_result [OF assms])

theorem set_txt_answer_round_trip_witness:
  "\<exists>q. set_txt_answer [104, 105] 10 sample_answer = Inr q \<and> get_txt_answer q = Inr [[104, 105]]"
proof -
  let ?h = "\<lparr>h_id = 7, h_rd = True, h_tc = False, h_aa = False, h_opcode = 0, h_qr = True, h_rcode = 0,
    h_z = 0, h_ra = True, h_qdcount = 1, h_ancount = 1, h_nscount = 0, h_arcount = 0\<rparr>"
  have "answers_end sample_answer ?h 19"
    by (simp add: answers_end_def skip_questions_def skip_answers_def sample_answer_def parse_eval
        cong: ebind_weak_cong)
  moreover have "find_txt_answers sample_answer = Inr []"
    by (simp add: find_txt_answers_def skip_questions_def sample_answer_def parse_eval type_txt_def
        cong: ebind_weak_cong)
  moreover have "wf_packet sample_answer" "pkt_size sample_answer = 35"
    by (simp_all add: sample_answer_def packet_of_def wf_packet_def)
  ultimately show ?thesis
    using set_txt_answer_round_trip [of sample_answer ?h 19 "[]" "[104, 105]" 10]
    by (auto simp: max_size_def)
qed

text \<open>
  Answering a query that carries an EDNS record damages it: \<^verbatim>\<open>add_answer\<close> puts the answer in
  the place of the OPT record behind the question but leaves the count of additional records at 1
  (the check of this condition is an assertion, which is not compiled in a release build).  The
  result cannot be parsed to its end.
\<close>

definition edns_query :: packet where
  "edns_query = packet_of [0, 7, 1, 0, 0, 1, 0, 0, 0, 0, 0, 1,
     1, 97, 0, 0, 1, 0, 1,  0, 0, 41, 16, 0, 0, 0, 0, 0, 0, 0, 0]"

theorem add_answer_breaks_edns_query:
  "\<exists>q. add_answer \<lparr>a_inet = ipv4, a_ip = [127, 0, 0, 1], a_port = 0\<rparr> 10 edns_query = Inr q
     \<and> is_dns edns_query \<and> pkt_size q = 35
     \<and> content q = [0, 7, 0x81, 0, 0, 1, 0, 1, 0, 0, 0, 1, 1, 97, 0, 0, 1, 0, 1,
         0xC0, 12, 0, 1, 0, 1, 0, 0, 0, 10, 0, 4, 127, 0, 0, 1]
     \<and> answer_min_ttl q = Inl (Runtime_error ''Too short DNS message'')"
proof -
  let ?q = "\<lparr>pkt_size = 35, pkt_bytes = [0, 7, 0x81, 0, 0, 1, 0, 1, 0, 0, 0, 1, 1, 97, 0, 0, 1, 0, 1,
         0xC0, 12, 0, 1, 0, 1, 0, 0, 0, 10, 0, 4, 127, 0, 0, 1,
         0, 0, 0, 0, 0, 0, 0, 0, 0, 0, 0, 0]\<rparr>"
  have "add_answer \<lparr>a_inet = ipv4, a_ip = [127, 0, 0, 1], a_port = 0\<rparr> 10 edns_query = Inr ?q"
    by (simp add: add_answer_def add_answer_data_def sin_addr_bytes_def edns_query_def parse_eval
        reserved_size_def max_size_def reserve_def set_header_def write_block_def overwrite_def
        store_header_def store_u16_def store_u32_def flags_lo_def flags_hi_def skip_questions_def
        skip_answers_def store_rr_header_def store_rr_question_def set_size_def type_a_def
        replicate_numeral cong: ebind_weak_cong)
  moreover have "is_dns edns_query"
    by (simp add: edns_query_def packet_of_def is_dns_def)
  moreover have "answer_min_ttl ?q = Inl (Runtime_error ''Too short DNS message'')"
    by (simp add: answer_min_ttl_def rcode_def rcode_word_def skip_questions_def parse_eval
        min_ttl_step_def cong: ebind_weak_cong)
  moreover have "content ?q = [0, 7, 0x81, 0, 0, 1, 0, 1, 0, 0, 0, 1, 1, 97, 0, 0, 1, 0, 1,
         0xC0, 12, 0, 1, 0, 1, 0, 0, 0, 10, 0, 4, 127, 0, 0, 1]"
    by (simp add: content_def)
  ultimately show ?thesis by fastforce
qed

end
