(* ===== verification/Query_Ttl.thy ===== *)
theory Query_Ttl
  imports Query_Build
begin

text \<open>
  \<^verbatim>\<open>dns::query\<close>, third part: \<^verbatim>\<open>adjust_id_and_ttl\<close>, which turns a stored response into the response
  to a new query, and its effect on \<^verbatim>\<open>answer_min_ttl\<close>.
\<close>

section \<open>Definitions\<close>

text \<open>
  The loop over all records behind the question.  The record header starts \<^verbatim>\<open>rr_data.size()\<close> and
  the size of \<^verbatim>\<open>rr_header\<close> before the offset behind the record, its field \<^verbatim>\<open>ttl\<close> is 4 bytes further.
\<close>

fun adjust_loop :: "u32 \<Rightarrow> nat \<Rightarrow> nat \<Rightarrow> packet \<Rightarrow> (nat \<times> packet) res" where
  "adjust_loop ttl 0 off p = Inr (off, p)"
| "adjust_loop ttl (Suc n) off p =
     ebind (get_rr p off) (\<lambda>(off', owner, rr, rr_data).
       ebind
         (if rr_type rr \<noteq> type_opt then
            let rr_off = cast_u16 (off' - length rr_data - rr_header_size) in
            ebind (write_block (pkt_bytes p) (rr_off + 4) (store_u32 (htonl ttl)))
              (\<lambda>b. Inr (p\<lparr>pkt_bytes := b\<rparr>))
          else Inr p)
         (adjust_loop ttl n off'))"

definition adjust_id_and_ttl :: "u16 \<Rightarrow> u32 \<Rightarrow> packet \<Rightarrow> packet res" where
  "adjust_id_and_ttl tid ttl p =
     ebind (header p) (\<lambda>head0.
       let head = head0\<lparr>h_id := tid\<rparr> in
       ebind (set_header head p) (\<lambda>p.
       ebind (skip_questions p (unat (h_qdcount head)) header_size) (\<lambda>(off, _).
       ebind (adjust_loop ttl (unat (h_ancount head) + unat (h_arcount head) + unat (h_nscount head)) off p)
         (\<lambda>(_, p). Inr p))))"

section \<open>The records of a message\<close>

fun records :: "packet \<Rightarrow> nat \<Rightarrow> nat \<Rightarrow> (nat \<times> (string \<times> rr_header \<times> byte list) list) res" where
  "records p 0 off = Inr (off, [])"
| "records p (Suc n) off =
     ebind (get_rr p off) (\<lambda>(off', r). ebind (records p n off') (\<lambda>(e, rs). Inr (e, r # rs)))"

lemma records_bounds:
  "wf_packet p \<Longrightarrow> records p n off = Inr (e, rs) \<Longrightarrow>
   off + n \<le> e \<and> (off \<le> pkt_size p \<longrightarrow> e \<le> pkt_size p) \<and> length rs = n"
  by (induction n arbitrary: off rs) (fastforce dest: answer_reader.rd_progress)+

lemma records_local:
  assumes "wf_packet p" "wf_packet q" "records p n off = Inr (e, rs)" "pkt_size p \<le> pkt_size q"
    "\<And>k. off \<le> k \<Longrightarrow> k < e \<Longrightarrow> pkt_bytes q ! k = pkt_bytes p ! k"
  shows "records q n off = Inr (e, rs)"
  using assms(3,5)
proof (induction n arbitrary: off rs)
  case (Suc n)
  from Suc.prems(1) obtain off' r rs' where r: "get_rr p off = Inr (off', r)"
    "records p n off' = Inr (e, rs')" "rs = r # rs'"
    by auto
  have le: "off < off'" "off' \<le> e"
    using answer_reader.rd_progress [OF assms(1) r(1)] records_bounds [OF assms(1) r(2)] by auto
  have "get_rr q off = Inr (off', r)"
    by (rule answer_reader.rd_local [OF assms(1,2) r(1) assms(4)]) (use Suc.prems(2) le in auto)
  moreover have "records q n off' = Inr (e, rs')"
    by (rule Suc.IH [OF r(2)]) (use Suc.prems(2) le in auto)
  ultimately show ?case using r(3) by simp
qed simp

definition with_ttl :: "u32 \<Rightarrow> string \<times> rr_header \<times> byte list \<Rightarrow> string \<times> rr_header \<times> byte list" where
  "with_ttl ttl r = (case r of (owner, rr, data) \<Rightarrow>
     (owner, if rr_type rr \<noteq> type_opt then rr\<lparr>rr_ttl := ttl\<rparr> else rr, data))"

lemma load_rr_header_overwrite_ttl:
  assumes "i + 10 \<le> length b"
  shows "swap_rr_header (load_rr_header (slice i 10 (overwrite (i + 4) (store_u32 (htonl ttl)) b)))
    = (swap_rr_header (load_rr_header (slice i 10 b)))\<lparr>rr_ttl := ttl\<rparr>"
proof -
  let ?b = "overwrite (i + 4) (store_u32 (htonl ttl)) b"
  have n: "slice i 10 ?b ! k = (if 4 \<le> k \<and> k < 8 then store_u32 (htonl ttl) ! (k - 4) else slice i 10 b ! k)"
    if "k < 10" for k
    using assms that by (auto simp: nth_slice nth_overwrite)
  have "load_u32 (store_u32 (htonl ttl) ! 0) (store_u32 (htonl ttl) ! Suc 0)
      (store_u32 (htonl ttl) ! 2) (store_u32 (htonl ttl) ! 3) = htonl ttl"
    using load_store_u32 [of "htonl ttl"] by simp
  then show ?thesis
    by (simp add: load_rr_header_def swap_rr_header_def n)
qed

lemma get_rr_overwrite_ttl:
  fixes ttl :: u32
  assumes wf: "wf_packet p" and r: "get_rr p off = Inr (e, owner, rr, data)"
  defines "i \<equiv> e - length data - 10"
  defines "q \<equiv> p\<lparr>pkt_bytes := overwrite (i + 4) (store_u32 (htonl ttl)) (pkt_bytes p)\<rparr>"
  shows "get_rr q off = Inr (e, owner, rr\<lparr>rr_ttl := ttl\<rparr>, data)" "off < i" "i + 10 \<le> e" "wf_packet q"
    "e \<le> length (pkt_bytes p)" "length data + 10 < e"
proof -
  from r obtain o1 where o1: "get_rr_name p off = Inr (o1, owner)"
    "e = o1 + 10 + unat (rr_rdlength rr)" "e \<le> pkt_size p"
    "rr = swap_rr_header (load_rr_header (slice o1 10 (pkt_bytes p)))"
    "data = slice (o1 + 10) (unat (rr_rdlength rr)) (pkt_bytes p)"
    by (auto simp: get_rr_iff [OF wf])
  have len: "e \<le> length (pkt_bytes p)" using o1(3) wf_packetD [OF wf] by simp
  then have i: "i = o1" using o1(2,5) by (simp add: i_def)
  have off: "off < o1" using get_rr_name_progress [OF wf o1(1)] by simp
  show "off < i" "i + 10 \<le> e" "e \<le> length (pkt_bytes p)" using i off o1(2) len by simp_all
  show "length data + 10 < e" using o1(2,5) off len by simp
  show wfq: "wf_packet q"
    using wf len o1(2) i by (simp add: wf_packet_def q_def)
  have "get_rr_name q off = Inr (o1, owner)"
    by (rule get_rr_name_local [OF wf wfq o1(1)])
      (use i len o1(2) in \<open>auto simp: q_def nth_overwrite\<close>)
  moreover have "slice (o1 + 10) (unat (rr_rdlength rr)) (pkt_bytes q) = data"
    using slice_overwrite_disjoint [of "i + 4" "store_u32 (htonl ttl)" "pkt_bytes p" "o1 + 10"
        "unat (rr_rdlength rr)"] i len o1(2,5) by (simp add: q_def)
  moreover have "swap_rr_header (load_rr_header (slice o1 10 (pkt_bytes q))) = rr\<lparr>rr_ttl := ttl\<rparr>"
    using load_rr_header_overwrite_ttl [of o1 "pkt_bytes p" ttl] i len o1(2,4) by (simp add: q_def)
  ultimately show "get_rr q off = Inr (e, owner, rr\<lparr>rr_ttl := ttl\<rparr>, data)"
    using o1(2,3) by (simp add: get_rr_iff [OF wfq]) (simp add: q_def)
qed

lemma adjust_loop_records:
  assumes "wf_packet p" "records p n off = Inr (e, rs)" "12 \<le> off"
  shows "\<exists>q. adjust_loop ttl n off p = Inr (e, q) \<and> wf_packet q \<and> pkt_size q = pkt_size p
    \<and> length (pkt_bytes q) = length (pkt_bytes p)
    \<and> (\<forall>k < off. k < length (pkt_bytes p) \<longrightarrow> pkt_bytes q ! k = pkt_bytes p ! k)
    \<and> records q n off = Inr (e, map (with_ttl ttl) rs)"
  using assms
proof (induction n arbitrary: off p rs)
  case 0
  then show ?case by auto
next
  case (Suc n)
  note wf = Suc.prems(1)
  from Suc.prems(2) obtain off' owner rr data rs' where r: "get_rr p off = Inr (off', owner, rr, data)"
    "records p n off' = Inr (e, rs')" "rs = (owner, rr, data) # rs'"
    by auto
  have off': "off < off'" "off' \<le> length (pkt_bytes p)"
    using answer_reader.rd_progress [OF wf r(1)] wf_packetD [OF wf] by auto
  obtain p' where p': "adjust_loop ttl (Suc n) off p = adjust_loop ttl n off' p'" "wf_packet p'"
    "pkt_size p' = pkt_size p" "length (pkt_bytes p') = length (pkt_bytes p)"
    "\<And>k. k < off \<or> off' \<le> k \<Longrightarrow> k < length (pkt_bytes p) \<Longrightarrow> pkt_bytes p' ! k = pkt_bytes p ! k"
    "get_rr p' off = Inr (off', with_ttl ttl (owner, rr, data))"
  proof (cases "rr_type rr = type_opt")
    case True
    then show ?thesis using that [of p] r(1) wf by (simp add: with_ttl_def)
  next
    case False
    let ?i = "off' - length data - 10"
    let ?p = "p\<lparr>pkt_bytes := overwrite (?i + 4) (store_u32 (htonl ttl)) (pkt_bytes p)\<rparr>"
    note g = get_rr_overwrite_ttl(1) [OF wf r(1), of ttl] get_rr_overwrite_ttl(2,3) [OF wf r(1)]
      get_rr_overwrite_ttl(4) [OF wf r(1), of ttl] get_rr_overwrite_ttl(5) [OF wf r(1)]
    have "cast_u16 ?i = ?i" using g(5) wf_packetD [OF wf] by simp
    then have "adjust_loop ttl (Suc n) off p = adjust_loop ttl n off' ?p"
      using False r(1) g(3,5) by (simp add: write_block_def Let_def)
    moreover have "length (pkt_bytes ?p) = length (pkt_bytes p)" using g(3,5) by simp
    moreover have "pkt_bytes ?p ! k = pkt_bytes p ! k"
      if "k < off \<or> off' \<le> k" "k < length (pkt_bytes p)" for k
      using that g(2,3,5) by (auto simp: nth_overwrite)
    ultimately show ?thesis
      using that [of ?p] g(1,4) False by (simp add: with_ttl_def)
  qed
  have rp': "records p' n off' = Inr (e, rs')"
    by (rule records_local [OF wf p'(2) r(2)])
      (use p'(3,5) records_bounds [OF wf r(2)] answer_reader.rd_progress [OF wf r(1)] wf_packetD [OF wf] in auto)
  obtain q where q: "adjust_loop ttl n off' p' = Inr (e, q)" "wf_packet q" "pkt_size q = pkt_size p'"
    "length (pkt_bytes q) = length (pkt_bytes p')"
    "\<And>k. k < off' \<Longrightarrow> k < length (pkt_bytes p') \<Longrightarrow> pkt_bytes q ! k = pkt_bytes p' ! k"
    "records q n off' = Inr (e, map (with_ttl ttl) rs')"
    using Suc.IH [OF p'(2) rp'] Suc.prems(3) off' by auto
  have "get_rr q off = Inr (off', with_ttl ttl (owner, rr, data))"
    by (rule answer_reader.rd_local [OF p'(2) q(2) p'(6)]) (use q(3,5) off' p'(4) in auto)
  then have "records q (Suc n) off = Inr (e, map (with_ttl ttl) rs)"
    using q(6) r(3) by simp
  moreover have "pkt_bytes q ! k = pkt_bytes p ! k" if "k < off" "k < length (pkt_bytes p)" for k
    using that q(5) [of k] p'(4,5) off'(1) by simp
  ultimately show ?case
    using q(1-4) p'(1,3,4) by (intro exI [of _ q]) simp
qed

section \<open>The smallest time to live\<close>

definition min_ttl_of :: "(string \<times> rr_header \<times> byte list) list \<Rightarrow> int \<Rightarrow> int" where
  "min_ttl_of rs m = fold min (map (\<lambda>(_, rr, _). sint (rr_ttl rr))
     (filter (\<lambda>(_, rr, _). rr_type rr \<noteq> type_opt) rs)) m"

lemma min_ttl_of_simps [simp]:
  "min_ttl_of [] m = m"
  "min_ttl_of ((owner, rr, data) # rs) m =
    min_ttl_of rs (if rr_type rr \<noteq> type_opt then min (sint (rr_ttl rr)) m else m)"
  by (simp_all add: min_ttl_of_def)

lemma min_ttl_loop:
  "records p n off = Inr (e, rs) \<Longrightarrow>
   record_loop (get_rr p) min_ttl_step j n off m = Inr (e, min_ttl_of rs m)"
proof (induction n arbitrary: off rs j m)
  case (Suc n)
  then obtain off' owner rr data rs' where "get_rr p off = Inr (off', owner, rr, data)"
    "records p n off' = Inr (e, rs')" "rs = (owner, rr, data) # rs'"
    by auto
  then show ?case
    using Suc.IH by (simp add: min_ttl_step_def min_def del: ebind_eq_Inr_iff)
qed simp

lemma min_ttl_of_with_ttl:
  "sint ttl \<le> m \<Longrightarrow> min_ttl_of (map (with_ttl ttl) rs) m =
    (if \<exists>(_, rr, _) \<in> set rs. rr_type rr \<noteq> type_opt then sint ttl else m)"
proof (induction rs arbitrary: m)
  case (Cons r rs)
  then show ?case by (cases r) (auto simp: with_ttl_def)
qed simp

lemma sint_u32_le: "sint (w :: u32) \<le> int32_max"
  using sint_less [of w] by (simp add: int32_max_def)

text \<open>
  The messages a cache stores: a complete response of the internet class whose records can be
  parsed.
\<close>

definition parsed :: "packet \<Rightarrow> message_header \<Rightarrow> nat \<Rightarrow> (string \<times> rr_header \<times> byte list) list \<Rightarrow> bool" where
  "parsed p h off rs \<longleftrightarrow> header p = Inr h \<and> h_qdcount h = 1
     \<and> (\<exists>name t. get_rr_question p 12 = Inr (off, name, t))
     \<and> (\<exists>e. records p (unat (h_ancount h) + unat (h_arcount h) + unat (h_nscount h)) off = Inr (e, rs))"

lemma adjust_id_and_ttl_result:
  assumes wf: "wf_packet p" and p: "parsed p h off rs"
  obtains q where "adjust_id_and_ttl tid ttl p = Inr q" "wf_packet q" "pkt_size q = pkt_size p"
    "parsed q (h\<lparr>h_id := tid\<rparr>) off (map (with_ttl ttl) rs)"
    "get_rr_question q 12 = get_rr_question p 12"
proof -
  let ?h = "h\<lparr>h_id := tid\<rparr>" and ?n = "unat (h_ancount h) + unat (h_arcount h) + unat (h_nscount h)"
  from p obtain name t e where h: "header p = Inr h" "h_qdcount h = 1"
    and qu: "get_rr_question p 12 = Inr (off, name, t)" and rs: "records p ?n off = Inr (e, rs)"
    by (auto simp: parsed_def)
  have b: "12 < off" "off \<le> pkt_size p" "e \<le> pkt_size p" "off \<le> e"
    using question_reader.rd_progress [OF wf qu] records_bounds [OF wf rs] by auto
  note w = wf_packetD [OF wf]
  obtain p1 where p1: "set_header ?h p = Inr p1" "header p1 = Inr ?h" "pkt_size p1 = pkt_size p"
    "length (pkt_bytes p1) = length (pkt_bytes p)"
    "\<And>k. 12 \<le> k \<Longrightarrow> k < length (pkt_bytes p) \<Longrightarrow> pkt_bytes p1 ! k = pkt_bytes p ! k"
    using updates_header_set_header [OF h(1), of ?h] by (auto elim!: updates_headerD)
  have wf1: "wf_packet p1" using wf p1(3,4) by (simp add: wf_packet_def)
  have q1: "get_rr_question p1 12 = Inr (off, name, t)"
    by (rule question_reader.rd_local [OF wf wf1 qu]) (use p1(3,5) b w in auto)
  have r1: "records p1 ?n off = Inr (e, rs)"
    by (rule records_local [OF wf wf1 rs]) (use p1(3,5) b w in auto)
  obtain q where q: "adjust_loop ttl ?n off p1 = Inr (e, q)" "wf_packet q" "pkt_size q = pkt_size p1"
    "length (pkt_bytes q) = length (pkt_bytes p1)"
    "\<And>k. k < off \<Longrightarrow> k < length (pkt_bytes p1) \<Longrightarrow> pkt_bytes q ! k = pkt_bytes p1 ! k"
    "records q ?n off = Inr (e, map (with_ttl ttl) rs)"
    using adjust_loop_records [OF wf1 r1, of ttl] b by auto
  have "slice 0 12 (pkt_bytes q) = slice 0 12 (pkt_bytes p1)"
    by (rule slice_cong) (use q(4,5) p1(3,4) b w in auto)
  then have "header q = header p1"
    using q(4) p1(3,4) b w by (intro header_cong) auto
  moreover have "get_rr_question q 12 = Inr (off, name, t)"
    by (rule question_reader.rd_local [OF wf1 q(2) q1]) (use q(3,5) p1(4) b w in auto)
  moreover have "adjust_id_and_ttl tid ttl p = Inr q"
    using h p1(1) q1 q(1) by (simp add: adjust_id_and_ttl_def skip_questions_def Let_def)
  ultimately show thesis
    using that [of q] q(2,3,6) p1(2,3) qu h(2) by (auto simp: parsed_def)
qed

definition storable :: "packet \<Rightarrow> message_header \<Rightarrow> bool" where
  "storable p h \<longleftrightarrow> \<not> h_tc h \<and> h_qr h
     \<and> (h_rcode h = rcode_word noerror \<or> h_rcode h = rcode_word nxdomain)
     \<and> unat (h_ancount h) + unat (h_nscount h) + unat (h_arcount h) \<noteq> 0
     \<and> (\<exists>off name t. get_rr_question p 12 = Inr (off, name, t) \<and> rr_class t = rr_class_num internet)"

lemma answer_min_ttl_parsed:
  assumes "parsed p h off rs" "storable p h"
  shows "answer_min_ttl p = Inr (min_ttl_of rs int32_max)"
proof -
  from assms obtain name t e where *: "header p = Inr h" "h_qdcount h = 1"
    "get_rr_question p 12 = Inr (off, name, t)" "rr_class t = 1"
    "records p (unat (h_ancount h) + unat (h_arcount h) + unat (h_nscount h)) off = Inr (e, rs)"
    by (auto simp: parsed_def storable_def)
  then have "skip_questions p 1 12 = Inr (off, t)" by (simp add: skip_questions_def)
  then show ?thesis
    using * assms(2) min_ttl_loop [OF *(5)]
    by (auto simp: answer_min_ttl_def rcode_def storable_def simp del: ebind_eq_Inr_iff)
qed

section \<open>Properties\<close>

text \<open>
  C27. A stored response is adapted to a new query without damage: on a message whose question and
  records can be parsed, \<^verbatim>\<open>adjust_id_and_ttl\<close> succeeds; the result has the new identifier and
  otherwise the same header, the same size and question, and the same records except that every
  record that is not an OPT pseudo record has the new time to live.  If the message is a complete
  response with at least one such record, \<^verbatim>\<open>answer_min_ttl\<close> of the result is exactly the new time.
\<close>

theorem adjust_id_and_ttl_correct:
  assumes "wf_packet p" "parsed p h off rs"
  shows "\<exists>q. adjust_id_and_ttl tid ttl p = Inr q \<and> wf_packet q \<and> pkt_size q = pkt_size p
    \<and> parsed q (h\<lparr>h_id := tid\<rparr>) off (map (with_ttl ttl) rs) \<and> get_question q = get_question p
    \<and> (storable p h \<and> (\<exists>(_, rr, _) \<in> set rs. rr_type rr \<noteq> type_opt)
        \<longrightarrow> answer_min_ttl q = Inr (sint ttl))"
proof -
  obtain q where q: "adjust_id_and_ttl tid ttl p = Inr q" "wf_packet q" "pkt_size q = pkt_size p"
    "parsed q (h\<lparr>h_id := tid\<rparr>) off (map (with_ttl ttl) rs)"
    "get_rr_question q 12 = get_rr_question p 12"
    by (rule adjust_id_and_ttl_result [OF assms])
  have "get_question q = get_question p"
    using q(4,5) assms(2) by (auto simp: parsed_def get_question_def simp del: ebind_eq_Inr_iff)
  moreover have "answer_min_ttl q = Inr (sint ttl)"
    if "storable p h" "\<exists>(_, rr, _) \<in> set rs. rr_type rr \<noteq> type_opt"
  proof -
    have "storable q (h\<lparr>h_id := tid\<rparr>)" using that(1) q(5) by (simp add: storable_def)
    then have "answer_min_ttl q = Inr (min_ttl_of (map (with_ttl ttl) rs) int32_max)"
      by (rule answer_min_ttl_parsed [OF q(4)])
    with that(2) show ?thesis
      using min_ttl_of_with_ttl [of ttl int32_max rs] sint_u32_le [of ttl] by auto
  qed
  ultimately show ?thesis using q by blast
qed

lemma sample_answer_parsed:
  defines "h \<equiv> \<lparr>h_id = 7, h_rd = True, h_tc = False, h_aa = False, h_opcode = 0, h_qr = True,
    h_rcode = 0, h_z = 0, h_ra = True, h_qdcount = 1, h_ancount = 1, h_nscount = 0, h_arcount = 0\<rparr>"
  shows "parsed sample_answer h 19
      [([], \<lparr>rr_type = 1, rr_class = 1, rr_ttl = 9, rr_rdlength = 4\<rparr>, [127, 0, 0, 1])]"
    "storable sample_answer h" "wf_packet sample_answer"
  by (simp_all add: h_def parsed_def storable_def rcode_word_def sample_answer_def parse_eval
      wf_packet_def cong: ebind_weak_cong)

theorem adjust_id_and_ttl_correct_witness:
  "\<exists>q. adjust_id_and_ttl 99 5 sample_answer = Inr q \<and> answer_min_ttl q = Inr 5
     \<and> get_question q = get_question sample_answer"
  using adjust_id_and_ttl_correct [OF sample_answer_parsed(3,1), of 99 5] sample_answer_parsed(2)
  by (auto simp: type_opt_def)

end
