(* ===== verification/Cache.thy ===== *)
theory Cache
  imports Query_Ttl
begin

unbundle bit_operations_syntax

text \<open>
  \<^verbatim>\<open>dns::cache\<close> (\<^verbatim>\<open>dns/cache.hxx\<close>, \<^verbatim>\<open>dns/srcz/cache.cpp\<close>): responses by lower-case name and type, each
  with the time until which it may be used.  The \<^verbatim>\<open>std::unordered_set\<close> of entries is a list of
  keys and values; its order stands for the unspecified order of iteration.  What
  \<^verbatim>\<open>std::time (nullptr)\<close> returns is the argument \<open>tnow\<close>.
\<close>

section \<open>Definitions\<close>

type_synonym cache_key = "string \<times> u16"

record cache_entry =
  deadline :: int
  response :: "byte list"

record cache =
  entries :: "(cache_key \<times> cache_entry) list"
  min_ttl :: u16

definition default_max_ttl :: int where "default_max_ttl = 86400"
definition default_min_ttl :: int where "default_min_ttl = 60"

definition new_cache :: "u16 \<Rightarrow> cache" where
  "new_cache minttl = \<lparr>entries = [], min_ttl = minttl\<rparr>"

definition cache_find :: "string \<Rightarrow> u16 \<Rightarrow> cache \<Rightarrow> cache_entry option" where
  "cache_find qname qtype c = map_of (entries c) (ascii_tolower_copy qname, qtype)"

text \<open>Assignment to the mutable fields of an element of the set, and \<^verbatim>\<open>insert\<close>, which does nothing
  when the key is present.\<close>

definition assign_entry :: "cache_key \<Rightarrow> cache_entry \<Rightarrow> (cache_key \<times> cache_entry) list
    \<Rightarrow> (cache_key \<times> cache_entry) list" where
  "assign_entry k e es = map (\<lambda>(k', e'). if k' = k then (k', e) else (k', e')) es"

definition insert_entry :: "cache_key \<Rightarrow> cache_entry \<Rightarrow> (cache_key \<times> cache_entry) list
    \<Rightarrow> (cache_key \<times> cache_entry) list" where
  "insert_entry k e es = (if k \<in> fst ` set es then es else (k, e) # es)"

definition replace_entry :: "int \<Rightarrow> string \<Rightarrow> byte list \<Rightarrow> int \<Rightarrow> u16 \<Rightarrow> cache \<Rightarrow> cache" where
  "replace_entry tnow wire_qname wire_data ttl qtype c =
     (let e = \<lparr>deadline = tnow + ttl, response = wire_data\<rparr> in
      case cache_find wire_qname qtype c of
        Some _ \<Rightarrow> c\<lparr>entries := assign_entry (ascii_tolower_copy wire_qname, qtype) e (entries c)\<rparr>
      | None \<Rightarrow> c\<lparr>entries := insert_entry (wire_qname, qtype) e (entries c)\<rparr>)"

definition store :: "int \<Rightarrow> packet \<Rightarrow> cache \<Rightarrow> cache res" where
  "store tnow msg c =
     ebind (read_at (pkt_bytes msg) 2) (\<lambda>ub2.
     ebind (read_at (pkt_bytes msg) 3) (\<lambda>ub3.
       if \<not> (ub2 AND 2 \<noteq> 0 \<or> (ub3 AND 0xf \<noteq> 0 \<and> ub3 AND 0xf \<noteq> 3)) then
         ebind (get_question msg) (\<lambda>(qname, qclass, qtype).
           if qclass = rr_class_num internet then
             ebind (answer_min_ttl msg) (\<lambda>attl.
               let ttl = min default_max_ttl (max attl (int (unat (min_ttl c)))) in
               ebind (query_write msg) (\<lambda>wire.
                 Inr (replace_entry tnow (ascii_tolower_copy qname) wire ttl qtype c)))
           else Inr c)
       else Inr c))"

text \<open>\<^verbatim>\<open>retrieve\<close> overwrites its argument with the response and returns true, or returns false.\<close>

definition retrieve :: "int \<Rightarrow> cache \<Rightarrow> packet \<Rightarrow> packet option res" where
  "retrieve tnow c msg =
     ebind (get_question msg) (\<lambda>(hn, _, qtype).
       case cache_find hn qtype c of
         None \<Rightarrow> Inr None
       | Some ent \<Rightarrow>
           if length (response ent) \<le> max_size \<and> tnow < deadline ent then
             ebind (header msg) (\<lambda>head.
               ebind (adjust_id_and_ttl (h_id head) (word_of_int (deadline ent - tnow))
                   (query_of_bytes (response ent)))
                 (\<lambda>m. Inr (Some m)))
           else Inr None)"

definition collect_garbage :: "int \<Rightarrow> cache \<Rightarrow> cache" where
  "collect_garbage tnow c = c\<lparr>entries := filter (\<lambda>(k, e). \<not> deadline e < tnow) (entries c)\<rparr>"

section \<open>Lemmas\<close>

lemma map_of_assign_entry:
  "map_of (assign_entry k e es) k' = (if k' = k \<and> map_of es k \<noteq> None then Some e else map_of es k')"
  by (induction es) (auto simp: assign_entry_def)

lemma keys_assign_entry [simp]: "map fst (assign_entry k e es) = map fst es"
  by (auto simp: assign_entry_def comp_def split_beta)

lemma map_of_insert_entry:
  "map_of (insert_entry k e es) = (if map_of es k = None then (map_of es)(k \<mapsto> e) else map_of es)"
  by (auto simp: insert_entry_def map_of_eq_None_iff)

lemma distinct_insert_entry: "distinct (map fst es) \<Longrightarrow> distinct (map fst (insert_entry k e es))"
  by (simp add: insert_entry_def)

lemma map_of_filter_key:
  assumes "distinct (map fst es)"
  shows "map_of (filter (\<lambda>(k, e). P e) es) k =
    (case map_of es k of None \<Rightarrow> None | Some e \<Rightarrow> if P e then Some e else None)"
  using assms by (induction es) (auto split: option.split simp: map_of_eq_None_iff image_iff)

text \<open>The invariant: keys are distinct and lower case.\<close>

definition wf_cache :: "cache \<Rightarrow> bool" where
  "wf_cache c \<longleftrightarrow> distinct (map fst (entries c))
     \<and> list_all (\<lambda>(n, t). ascii_tolower_copy n = n) (map fst (entries c))"

lemma new_cache_fields [simp]: "entries (new_cache m) = []" "min_ttl (new_cache m) = m"
  by (simp_all add: new_cache_def)

lemma collect_garbage_fields [simp]:
  "min_ttl (collect_garbage t c) = min_ttl c"
  "set (entries (collect_garbage t c)) = {(k, e). (k, e) \<in> set (entries c) \<and> \<not> deadline e < t}"
  by (auto simp: collect_garbage_def)

lemma wf_new_cache: "wf_cache (new_cache m)"
  by (simp add: wf_cache_def new_cache_def)

lemma wf_replace_entry:
  assumes "wf_cache c" "ascii_tolower_copy name = name"
  shows "wf_cache (replace_entry tnow name data ttl qtype c)"
  using assms
  by (auto simp: wf_cache_def replace_entry_def Let_def insert_entry_def split: option.splits)

text \<open>The abstract view: a finite map from normalised keys; \<^verbatim>\<open>replace_entry\<close> is an update of it.\<close>

lemma replace_entry_refines:
  assumes "ascii_tolower_copy name = name"
  shows "map_of (entries (replace_entry tnow name data ttl qtype c))
    = (map_of (entries c))((name, qtype) \<mapsto> \<lparr>deadline = tnow + ttl, response = data\<rparr>)"
  using assms
  by (auto simp: replace_entry_def cache_find_def Let_def map_of_assign_entry map_of_insert_entry
      fun_eq_iff split: option.splits)

lemma min_ttl_replace_entry [simp]: "min_ttl (replace_entry tnow name data ttl qtype c) = min_ttl c"
  by (simp add: replace_entry_def Let_def split: option.split)

lemma cache_find_garbage:
  assumes "wf_cache c"
  shows "cache_find qname qtype (collect_garbage t c) =
    (case cache_find qname qtype c of None \<Rightarrow> None
     | Some e \<Rightarrow> if deadline e < t then None else Some e)"
  using assms
  by (simp add: cache_find_def collect_garbage_def wf_cache_def map_of_filter_key split: option.split)

lemma wf_collect_garbage: "wf_cache c \<Longrightarrow> wf_cache (collect_garbage t c)"
  by (auto simp: wf_cache_def collect_garbage_def list_all_iff distinct_map inj_on_def)

text \<open>The two bit tests on the raw header bytes are the truncation flag and the response code.\<close>

lemma and_2_iff: "(w :: byte) AND 2 \<noteq> 0 \<longleftrightarrow> odd (unat w div 2)"
proof -
  have "w AND 2 \<noteq> 0 \<longleftrightarrow> bit w 1"
    using and_exp_eq_0_iff_not_bit [of w 1] by simp
  also have "\<dots> \<longleftrightarrow> bit (unat w) 1"
    by (simp add: bit_unsigned_iff)
  also have "\<dots> \<longleftrightarrow> odd (unat w div 2)"
    by (simp add: bit_iff_odd)
  finally show ?thesis .
qed

lemma and_15_eq: "unat ((w :: byte) AND 0xf) = unat w mod 16"
proof -
  have "w AND 0xf = w mod 16"
    using take_bit_eq_mask [of 4 w] by (simp add: mask_numeral take_bit_eq_mod)
  then show ?thesis by (simp add: unat_mod)
qed

lemma sint_word_of_int_small:
  assumes "0 \<le> i" "i < 2147483648"
  shows "sint (word_of_int i :: u32) = i"
  using assms by (simp add: sint_sbintrunc' signed_take_bit_int_eq_self)

lemma header_bytes:
  assumes "header p = Inr h"
  shows "3 < length (pkt_bytes p)" "h_tc h \<longleftrightarrow> odd (unat (pkt_bytes p ! 2) div 2)"
    "h_rcode h = word_of_nat (unat (pkt_bytes p ! 3) mod 16)"
proof -
  from assms have l: "12 \<le> length (pkt_bytes p)"
    and h: "h = swap_header (load_header (slice 0 12 (pkt_bytes p)))"
    by (auto simp: header_def)
  show "3 < length (pkt_bytes p)" using l by simp
  show "h_tc h \<longleftrightarrow> odd (unat (pkt_bytes p ! 2) div 2)"
    "h_rcode h = word_of_nat (unat (pkt_bytes p ! 3) mod 16)"
    using l by (simp_all add: h swap_header_def load_header_def)
qed

lemma rcode_bits:
  assumes "header p = Inr h"
  shows "pkt_bytes p ! 3 AND 0xf \<noteq> 0 \<and> pkt_bytes p ! 3 AND 0xf \<noteq> 3
    \<longleftrightarrow> h_rcode h \<noteq> rcode_word noerror \<and> h_rcode h \<noteq> rcode_word nxdomain"
proof -
  let ?b = "pkt_bytes p ! 3"
  have "unat (h_rcode h) = unat ?b mod 16"
    by (simp add: header_bytes(3) [OF assms] unat_of_nat)
  then show ?thesis
    using and_15_eq [of ?b] by (simp add: word_unat_eq_iff)
qed

lemma store_storable:
  assumes "wf_packet msg" "parsed msg h off rs" "storable msg h"
    "get_question msg = Inr (name, 1, qtype)"
  shows "store tnow msg c = Inr (replace_entry tnow (ascii_tolower_copy name) (content msg)
    (min default_max_ttl (max (min_ttl_of rs int32_max) (int (unat (min_ttl c))))) qtype c)"
proof -
  have h: "header msg = Inr h" using assms(2) by (simp add: parsed_def)
  have "query_write msg = Inr (content msg)"
    using wf_packetD [OF assms(1)] by (simp add: query_write_def content_def)
  then show ?thesis
    using assms(3,4) header_bytes [OF h] rcode_bits [OF h] answer_min_ttl_parsed [OF assms(2,3)]
      and_2_iff [of "pkt_bytes msg ! 2"]
    by (auto simp: store_def read_at_def storable_def Let_def simp del: ebind_eq_Inr_iff)
qed

lemma query_of_content:
  assumes "wf_packet p" "pkt_size p \<le> max_size"
  defines "q \<equiv> query_of_bytes (content p)"
  shows "wf_packet q" "pkt_size q = pkt_size p" "length (pkt_bytes q) = max_size"
    "k < pkt_size p \<Longrightarrow> pkt_bytes q ! k = pkt_bytes p ! k"
proof -
  have l: "length (content p) = pkt_size p" "pkt_size p < 65536"
    using assms(1) wf_packetD [OF assms(1)] by simp_all
  then show s: "pkt_size q = pkt_size p" "length (pkt_bytes q) = max_size"
    by (simp_all add: q_def query_of_bytes_def packet_of_def)
  then show "wf_packet q" using assms(2) by (simp add: wf_packet_def max_size_def)
  show "k < pkt_size p \<Longrightarrow> pkt_bytes q ! k = pkt_bytes p ! k"
    using l assms(2) by (simp add: q_def query_of_bytes_def packet_of_def nth_reserve) (simp add: content_def)
qed

lemma parsed_query_of_content:
  assumes wf: "wf_packet p" and p: "parsed p h off rs" and s: "pkt_size p \<le> max_size"
  defines "q \<equiv> query_of_bytes (content p)"
  shows "parsed q h off rs" "get_rr_question q 12 = get_rr_question p 12"
proof -
  let ?n = "unat (h_ancount h) + unat (h_arcount h) + unat (h_nscount h)"
  from p obtain name t e where h: "header p = Inr h" "h_qdcount h = 1"
    and qu: "get_rr_question p 12 = Inr (off, name, t)" and rs: "records p ?n off = Inr (e, rs)"
    by (auto simp: parsed_def)
  note c = query_of_content [OF wf s, folded q_def]
  have b: "12 < off" "off \<le> pkt_size p" "e \<le> pkt_size p"
    using question_reader.rd_progress [OF wf qu] records_bounds [OF wf rs] by auto
  note w = wf_packetD [OF wf]
  have "slice 0 12 (pkt_bytes q) = slice 0 12 (pkt_bytes p)"
    by (rule slice_cong) (use c b w s in auto)
  then have "header q = header p"
    using c b w s by (intro header_cong) auto
  moreover have g: "get_rr_question q 12 = Inr (off, name, t)"
    by (rule question_reader.rd_local [OF wf c(1) qu]) (use c b in auto)
  moreover have "records q ?n off = Inr (e, rs)"
    by (rule records_local [OF wf c(1) rs]) (use c b in auto)
  ultimately show "parsed q h off rs" "get_rr_question q 12 = get_rr_question p 12"
    using h qu by (auto simp: parsed_def)
qed

lemma get_question_parsed_cong:
  assumes "parsed p h off rs" "parsed q h' off' rs'" "get_rr_question q 12 = get_rr_question p 12"
  shows "get_question q = get_question p"
  using assms by (auto simp: parsed_def get_question_def simp del: ebind_eq_Inr_iff)

lemma retrieve_found:
  assumes "wf_packet msg" "parsed msg h off rs" "pkt_size msg \<le> max_size"
    "get_question q = Inr (name, cls, qtype)" "header q = Inr hq"
    "cache_find name qtype c = Some \<lparr>deadline = d, response = content msg\<rparr>" "t < d"
  obtains m where "retrieve t c q = Inr (Some m)" "wf_packet m" "pkt_size m = pkt_size msg"
    "parsed m (h\<lparr>h_id := h_id hq\<rparr>) off (map (with_ttl (word_of_int (d - t))) rs)"
    "get_question m = get_question msg"
proof -
  let ?q = "query_of_bytes (content msg)"
  note c = query_of_content [OF assms(1,3)] parsed_query_of_content [OF assms(1-3)]
  obtain m where m: "adjust_id_and_ttl (h_id hq) (word_of_int (d - t)) ?q = Inr m" "wf_packet m"
    "pkt_size m = pkt_size ?q"
    "parsed m (h\<lparr>h_id := h_id hq\<rparr>) off (map (with_ttl (word_of_int (d - t))) rs)"
    "get_rr_question m 12 = get_rr_question ?q 12"
    by (rule adjust_id_and_ttl_result [OF c(1,5)])
  have "retrieve t c q = Inr (Some m)"
    using assms(1,3-7) m(1) by (simp add: retrieve_def)
  moreover have "get_question m = get_question msg"
    using get_question_parsed_cong [OF assms(2) m(4)] m(5) c(6) by simp
  ultimately show thesis using that m(2-4) c(2) by simp
qed

section \<open>Properties\<close>

text \<open>
  C23. What is stored is found again until it expires: a complete response stored at time \<open>t0\<close> is
  returned for every later query with the same type and a name that differs at most in the case of
  letters, as long as its lifetime (the smallest time to live, raised to the configured minimum and
  cut off at a day) has not passed.  The returned message has the identifier of the new query, the
  question and records of the stored response, and the remaining lifetime as time to live, which
  is a positive 32 bit number.  From its deadline on the response is not returned any more.
\<close>

theorem cache_store_retrieve:
  fixes c :: cache and rs t0
  defines "ttl \<equiv> min default_max_ttl (max (min_ttl_of rs int32_max) (int (unat (min_ttl c))))"
  assumes "wf_packet msg" "parsed msg h off rs" "storable msg h" "pkt_size msg \<le> max_size"
    "get_question msg = Inr (name, 1, qtype)"
    "get_question q = Inr (name', cls, qtype)" "header q = Inr hq"
    "ascii_tolower_copy name' = ascii_tolower_copy name" "t0 \<le> t"
  shows "\<exists>c'. store t0 msg c = Inr c'
    \<and> (t < t0 + ttl \<longrightarrow> (\<exists>m. retrieve t c' q = Inr (Some m) \<and> wf_packet m
        \<and> get_question m = Inr (name, 1, qtype)
        \<and> parsed m (h\<lparr>h_id := h_id hq\<rparr>) off (map (with_ttl (word_of_int (t0 + ttl - t))) rs)
        \<and> 0 < sint (word_of_int (t0 + ttl - t) :: u32)
        \<and> sint (word_of_int (t0 + ttl - t) :: u32) = t0 + ttl - t))
    \<and> (t0 + ttl \<le> t \<longrightarrow> retrieve t c' q = Inr None)"
proof -
  let ?c = "replace_entry t0 (ascii_tolower_copy name) (content msg) ttl qtype c"
  have st: "store t0 msg c = Inr ?c"
    using store_storable [OF assms(2-4,6)] by (simp add: ttl_def)
  have f: "cache_find name' qtype ?c = Some \<lparr>deadline = t0 + ttl, response = content msg\<rparr>"
    by (simp add: cache_find_def replace_entry_refines assms(9))
  have "retrieve t ?c q = Inr None" if "t0 + ttl \<le> t"
    using that f assms(7) by (simp add: retrieve_def)
  moreover have "\<exists>m. retrieve t ?c q = Inr (Some m) \<and> wf_packet m
      \<and> get_question m = Inr (name, 1, qtype)
      \<and> parsed m (h\<lparr>h_id := h_id hq\<rparr>) off (map (with_ttl (word_of_int (t0 + ttl - t))) rs)"
    if "t < t0 + ttl"
    by (rule retrieve_found [OF assms(2,3,5,7,8) f that]) (use assms(6) in auto)
  moreover have "sint (word_of_int (t0 + ttl - t) :: u32) = t0 + ttl - t" if "t < t0 + ttl"
  proof -
    have "0 \<le> t0 + ttl - t" "t0 + ttl - t \<le> 86400"
      using that assms(10) by (auto simp: ttl_def default_max_ttl_def)
    then show ?thesis by (intro sint_word_of_int_small) auto
  qed
  ultimately show ?thesis using st by (auto simp del: of_int_add of_int_diff)
qed

theorem cache_store_retrieve_witness:
  "\<exists>c' m. store 1000 sample_answer (new_cache 60) = Inr c'
     \<and> retrieve 1050 c' sample_answer = Inr (Some m) \<and> get_question m = Inr (''a.'', 1, 1)"
proof -
  have q: "get_question sample_answer = Inr (''a.'', 1, 1)"
    by (simp add: sample_answer_def parse_eval cong: ebind_weak_cong)
  have h: "header sample_answer = Inr \<lparr>h_id = 7, h_rd = True, h_tc = False, h_aa = False,
      h_opcode = 0, h_qr = True, h_rcode = 0, h_z = 0, h_ra = True, h_qdcount = 1, h_ancount = 1,
      h_nscount = 0, h_arcount = 0\<rparr>"
    using sample_answer_parsed(1) by (simp add: parsed_def)
  have s: "pkt_size sample_answer \<le> max_size"
    by (simp add: sample_answer_def packet_of_def max_size_def)
  from cache_store_retrieve [OF sample_answer_parsed(3,1,2) s q q h refl, of 1000 1050 "new_cache 60"]
  show ?thesis
    by (auto simp: new_cache_def default_max_ttl_def type_opt_def int32_max_def)
qed

text \<open>
  Removing expired entries is invisible: at the time of the collection and at every later
  time, each query gets the same answer from the collected cache as from the one before.
\<close>

theorem collect_garbage_invisible:
  assumes "wf_cache c" "t \<le> t'"
  shows "retrieve t' (collect_garbage t c) q = retrieve t' c q \<and> wf_cache (collect_garbage t c)"
  using assms
  by (auto simp: retrieve_def cache_find_garbage wf_collect_garbage split: option.split
      intro!: ebind_cong)

theorem collect_garbage_invisible_witness:
  "retrieve 5 (collect_garbage 5 (new_cache 60)) sample_answer = retrieve 5 (new_cache 60) sample_answer"
  using collect_garbage_invisible [OF wf_new_cache, of 5 5 60 sample_answer] by simp

text \<open>
  The life of a cache between restarts: responses are stored and garbage is collected as time goes
  on.
\<close>

inductive cache_run :: "u16 \<Rightarrow> int \<Rightarrow> cache \<Rightarrow> bool" for m where
  run_new: "cache_run m t (new_cache m)"
| run_wait: "cache_run m t c \<Longrightarrow> t \<le> t' \<Longrightarrow> cache_run m t' c"
| run_store: "cache_run m t c \<Longrightarrow> store t msg c = Inr c' \<Longrightarrow> cache_run m t c'"
| run_garbage: "cache_run m t c \<Longrightarrow> cache_run m t (collect_garbage t c)"

lemma store_cases:
  assumes "store t msg c = Inr c'"
  obtains "c' = c"
  | name data ttl qtype where "c' = replace_entry t (ascii_tolower_copy name) data ttl qtype c"
      "ttl \<le> default_max_ttl"
  using assms by (fastforce simp: store_def Let_def split: if_splits)

lemma entry_of_map: "wf_cache c \<Longrightarrow> (k, e) \<in> set (entries c) \<longleftrightarrow> map_of (entries c) k = Some e"
  by (simp add: wf_cache_def)

text \<open>
  In every cache that is reached by storing responses and collecting garbage while time passes,
  keys are unique and in lower case, the configured minimum is unchanged, and no entry lives longer
  than a day from now, so that the conversion of the remaining lifetime to \<^verbatim>\<open>std::int32_t\<close> in
  \<^verbatim>\<open>retrieve\<close> is exact for every entry that is handed out.
\<close>

theorem cache_run_invariant:
  assumes "cache_run m t c"
  shows "wf_cache c \<and> min_ttl c = m \<and> (\<forall>(k, e) \<in> set (entries c). deadline e \<le> t + default_max_ttl
    \<and> (t < deadline e \<longrightarrow> sint (word_of_int (deadline e - t) :: u32) = deadline e - t))"
proof -
  have "wf_cache c \<and> min_ttl c = m \<and> (\<forall>(k, e) \<in> set (entries c). deadline e \<le> t + default_max_ttl)"
    using assms
  proof (induction rule: cache_run.induct)
    case (run_store t c msg c')
    from run_store.hyps(2) show ?case
    proof (cases rule: store_cases)
      case 1
      then show ?thesis using run_store.IH by simp
    next
      case (2 name data ttl qtype)
      have wf: "wf_cache c'" unfolding 2(1) by (rule wf_replace_entry) (use run_store.IH in auto)
      have "deadline e \<le> t + default_max_ttl" if "(k, e) \<in> set (entries c')" for k e
      proof -
        have "map_of (entries c') k = Some e" using that entry_of_map [OF wf] by simp
        then show ?thesis
          using run_store.IH 2 by (auto simp: replace_entry_refines entry_of_map split: if_splits)
      qed
      then show ?thesis using wf run_store.IH 2(1) by auto
    qed
  qed (auto simp: wf_new_cache wf_collect_garbage)
  moreover from this have "sint (word_of_int (deadline e - t) :: u32) = deadline e - t"
    if "(k, e) \<in> set (entries c)" "t < deadline e" for k e
    using that by (intro sint_word_of_int_small) (fastforce simp: default_max_ttl_def)+
  ultimately show ?thesis by (auto simp del: of_int_diff)
qed

theorem cache_run_invariant_witness:
  "\<exists>c'. cache_run 60 1000 c' \<and> entries c' \<noteq> [] \<and> wf_cache c'"
proof -
  have q: "get_question sample_answer = Inr (''a.'', 1, 1)"
    by (simp add: sample_answer_def parse_eval cong: ebind_weak_cong)
  let ?c = "replace_entry 1000 (ascii_tolower_copy ''a.'') (content sample_answer) 60 1 (new_cache 60)"
  have "store 1000 sample_answer (new_cache 60) = Inr ?c"
    using store_storable [OF sample_answer_parsed(3,1,2) q, of 1000 "new_cache 60"]
    by (simp add: new_cache_def default_max_ttl_def type_opt_def int32_max_def)
  then have "cache_run 60 1000 ?c" by (rule run_store [OF run_new])
  moreover have "entries ?c \<noteq> []"
    by (simp add: replace_entry_def cache_find_def new_cache_def insert_entry_def)
  moreover have "wf_cache ?c" using cache_run_invariant [OF calculation(1)] by simp
  ultimately show ?thesis by blast
qed

end
