(* ===== verification/Cache_File.thy ===== *)
theory Cache_File
  imports Cache
begin

text \<open>
  \<^verbatim>\<open>cache::save_as\<close> and \<^verbatim>\<open>cache::load\<close> (\<^verbatim>\<open>dns/srcz/cache.cpp\<close>): the cache as a sequence of bytes and
  back.  The file is the list of its bytes; a write that fails and a file that cannot be opened are
  not modelled.  \<^verbatim>\<open>std::size_t\<close> and \<^verbatim>\<open>std::time_t\<close> have 64 bits and, like all numbers of the file, the
  byte order of the host.
\<close>

section \<open>Definitions\<close>

definition time_bytes :: "int \<Rightarrow> byte list" where
  "time_bytes t = le_bytes 8 (nat (t mod 2 ^ 64))"

definition time_value :: "byte list \<Rightarrow> int" where
  "time_value b = (let n = int (le_value b) in if n < 2 ^ 63 then n else n - 2 ^ 64)"

definition magick :: nat where
  "magick = 1023456789"

definition save_entry :: "cache_key \<times> cache_entry \<Rightarrow> byte list" where
  "save_entry ent = (case ent of ((name, qtype), e) \<Rightarrow>
     str_bytes ''entr'' @ le_bytes 8 (length name) @ str_bytes name @ store_u16 qtype
     @ time_bytes (deadline e) @ str_bytes ''dns:'' @ le_bytes 8 (length (response e)) @ response e)"

definition save_as :: "cache \<Rightarrow> byte list" where
  "save_as c = str_bytes ''mgck'' @ le_bytes 4 magick @ str_bytes ''size''
     @ le_bytes 8 (length (entries c)) @ concat (map save_entry (entries c))"

text \<open>\<^verbatim>\<open>crd\<close> with a check of the stream: exactly \<open>n\<close> bytes, or an exception.\<close>

definition crd :: "nat \<Rightarrow> byte list \<Rightarrow> (byte list \<times> byte list) res" where
  "crd n s = (if n \<le> length s then Inr (take n s, drop n s) else Inl (Runtime_error ''wrong file''))"

text \<open>
  \<^verbatim>\<open>crd<4>\<close> with a comparison: at the end of the file no exception is thrown and the array that is
  compared is not initialised.
\<close>

definition crd_key :: "string \<Rightarrow> string \<Rightarrow> byte list \<Rightarrow> byte list res" where
  "crd_key key msg s =
     (if length s < 4 then Inl Undefined_behaviour
      else if take 4 s \<noteq> str_bytes key then Inl (Runtime_error msg) else Inr (drop 4 s))"

text \<open>An entry behind its key \<^verbatim>\<open>entr\<close>.\<close>

definition load_entry :: "byte list \<Rightarrow> (cache_key \<times> cache_entry \<times> byte list) res" where
  "load_entry s =
     ebind (crd 8 s) (\<lambda>(lb, s). let l = le_value lb in
     if 1 > l \<or> 300 < l then Inl (Runtime_error ''corrupt DNS name in'')
     else ebind (crd l s) (\<lambda>(name, s).
     ebind (crd 2 s) (\<lambda>(qt, s).
     ebind (crd 8 s) (\<lambda>(dl, s).
     ebind (crd_key ''dns:'' ''corrupt DNS entry in'' s) (\<lambda>s.
     ebind (crd 8 s) (\<lambda>(rb, s). let r = le_value rb in
     if 12 > r \<or> max_size < r \<or> r > reserved_size new_query
     then Inl (Runtime_error ''invalid DNS message in'')
     else ebind (crd r s) (\<lambda>(msg, s).
       Inr ((map byte_char name, load_u16 (qt ! 0) (qt ! 1)),
            \<lparr>deadline = time_value dl, response = msg\<rparr>, s))))))))"

lemma crd_length: "crd n s = Inr (x, s') \<Longrightarrow> length s' \<le> length s"
  by (auto simp: crd_def split: if_splits)

lemma crd_key_length: "crd_key k m s = Inr s' \<Longrightarrow> length s' \<le> length s"
  by (auto simp: crd_key_def split: if_splits)

lemma load_entry_length: "load_entry s = Inr (k, e, s') \<Longrightarrow> length s' \<le> length s"
  by (auto simp: load_entry_def Let_def split: if_splits dest!: crd_length crd_key_length)

text \<open>The loop ends at the end of the file, also when one to three bytes are left there.\<close>

function load_loop :: "nat \<Rightarrow> nat \<Rightarrow> byte list \<Rightarrow> (cache_key \<times> cache_entry) list
    \<Rightarrow> (cache_key \<times> cache_entry) list res" where
  "load_loop nq n s es =
     (if length s < 4 then Inr es
      else if take 4 s \<noteq> str_bytes ''entr'' then Inl (Runtime_error ''corrupt DNS cache file'')
      else ebind (load_entry (drop 4 s)) (\<lambda>(k, e, s').
        if n + 1 > nq then Inl (Runtime_error ''Too many entries in DNS cache'')
        else load_loop nq (n + 1) s' (insert_entry k e es)))"
  by pat_completeness auto
termination
  by (relation "measure (\<lambda>(nq, n, s, es). length s)") (auto dest!: load_entry_length)

declare load_loop.simps [simp del]

definition load :: "byte list \<Rightarrow> u16 \<Rightarrow> cache res" where
  "load s minttl =
     ebind (crd_key ''mgck'' ''Not a DNS cache (wrong magick)'' s) (\<lambda>s.
     ebind (crd 4 s) (\<lambda>(m, s).
     if le_value m \<noteq> magick then Inl (Runtime_error ''Not a DNS cache (wrong byte order)'')
     else ebind (crd_key ''size'' ''Not a DNS cache (no size)'' s) (\<lambda>s.
     ebind (crd 8 s) (\<lambda>(nb, s). let nq = le_value nb in
     ebind (load_loop nq 0 s []) (\<lambda>es.
       if length es < nq then Inl (Runtime_error ''too few entries'')
       else Inr \<lparr>entries = es, min_ttl = minttl\<rparr>)))))"

section \<open>Lemmas\<close>

lemma length_time_bytes [simp]: "length (time_bytes t) = 8"
  by (simp add: time_bytes_def)

lemma time_value_bytes:
  assumes "- (2 ^ 63) \<le> t" "t < 2 ^ 63"
  shows "time_value (time_bytes t) = t"
proof -
  have l: "nat (t mod 2 ^ 64) < 256 ^ 8" by (simp add: nat_less_iff)
  show ?thesis
  proof (cases "0 \<le> t")
    case True
    then have "t mod 2 ^ 64 = t" using assms(2) by simp
    then show ?thesis using True assms(2) l by (simp add: time_value_def time_bytes_def)
  next
    case False
    then have "t mod 2 ^ 64 = t + 2 ^ 64"
      using assms mod_add_self2 [of t "2 ^ 64"] mod_pos_pos_trivial [of "t + 2 ^ 64" "2 ^ 64"] by simp
    then show ?thesis using False assms l by (simp add: time_value_def time_bytes_def)
  qed
qed

lemma length_str_bytes [simp]: "length (str_bytes s) = length s"
  by (simp add: str_bytes_def)

lemma crd_append [simp]: "length b = n \<Longrightarrow> crd n (b @ s) = Inr (b, s)"
  by (simp add: crd_def)

lemma crd_key_append [simp]: "length k = 4 \<Longrightarrow> crd_key k m (str_bytes k @ s) = Inr s"
  by (simp add: crd_key_def)

lemma map_byte_char_str_bytes [simp]: "map byte_char (str_bytes s) = s"
  unfolding str_bytes_def by (rule map_byte_char_byte)

lemma reserved_size_new_query [simp]: "reserved_size new_query = 55535"
  by (simp add: reserved_size_def new_query_def Let_def max_size_def)

lemma map_of_eq_cong_set:
  assumes "set xs = set ys" "distinct (map fst xs)" "distinct (map fst ys)"
  shows "map_of xs k = map_of ys k"
proof (cases "map_of xs k")
  case None
  then have "map_of ys k = None" using assms(1) by (simp add: map_of_eq_None_iff)
  with None show ?thesis by simp
next
  case (Some v)
  then show ?thesis using assms by simp
qed

text \<open>The entries that survive a save: what \<^verbatim>\<open>load\<close> checks, and times of 64 bits.\<close>

definition saveable :: "cache_key \<times> cache_entry \<Rightarrow> bool" where
  "saveable ent \<longleftrightarrow> (case ent of ((name, qtype), e) \<Rightarrow>
     1 \<le> length name \<and> length name \<le> 300 \<and> 12 \<le> length (response e) \<and> length (response e) \<le> max_size
     \<and> - (2 ^ 63) \<le> deadline e \<and> deadline e < 2 ^ 63)"

lemma load_save_entry:
  assumes "saveable ent"
  shows "load_entry (drop 4 (save_entry ent @ s)) = Inr (fst ent, snd ent, s)"
    "take 4 (save_entry ent @ s) = str_bytes ''entr''" "4 \<le> length (save_entry ent)"
proof -
  obtain name qtype e where ent: "ent = ((name, qtype), e)" by (metis surj_pair)
  have d: "drop 4 (save_entry ent @ s) = le_bytes 8 (length name) @ str_bytes name @ store_u16 qtype
      @ time_bytes (deadline e) @ str_bytes ''dns:'' @ le_bytes 8 (length (response e)) @ response e @ s"
    by (simp add: save_entry_def ent)
  have "load_u16 (store_u16 qtype ! 0) (store_u16 qtype ! 1) = qtype" by (rule load_store_u16)
  then show "load_entry (drop 4 (save_entry ent @ s)) = Inr (fst ent, snd ent, s)"
    unfolding d load_entry_def
    using assms by (auto simp: ent saveable_def max_size_def time_value_bytes simp del: ebind_eq_Inr_iff)
  show "take 4 (save_entry ent @ s) = str_bytes ''entr''" "4 \<le> length (save_entry ent)"
    by (simp_all add: save_entry_def ent)
qed

lemma load_loop_save:
  assumes "list_all saveable ents" "distinct (map fst (ents @ es))" "n + length ents \<le> nq"
  shows "load_loop nq n (concat (map save_entry ents)) es = Inr (rev ents @ es)"
  using assms
proof (induction ents arbitrary: n es)
  case Nil
  then show ?case by (simp add: load_loop.simps)
next
  case (Cons ent ents)
  obtain k e where ent: "ent = (k, e)" by (cases ent)
  note s = load_save_entry(1,2) [of ent "concat (map save_entry ents)"] load_save_entry(3) [of ent]
  have "load_loop nq n (concat (map save_entry (ent # ents))) es
      = load_loop nq (n + 1) (concat (map save_entry ents)) (insert_entry k e es)"
    using Cons.prems s by (subst load_loop.simps) (simp add: ent)
  also have "insert_entry k e es = (k, e) # es"
    using Cons.prems(2) by (force simp: insert_entry_def ent)
  also have "load_loop nq (n + 1) (concat (map save_entry ents)) ((k, e) # es)
      = Inr (rev ents @ (k, e) # es)"
    by (rule Cons.IH) (use Cons.prems in \<open>auto simp: ent\<close>)
  finally show ?case by (simp add: ent)
qed

lemma load_save:
  assumes "list_all saveable (entries c)" "distinct (map fst (entries c))" "length (entries c) < 2 ^ 64"
  shows "load (save_as c) m = Inr \<lparr>entries = rev (entries c), min_ttl = m\<rparr>"
proof -
  have "load_loop (length (entries c)) 0 (concat (map save_entry (entries c))) [] = Inr (rev (entries c))"
    using load_loop_save [of "entries c" "[]"] assms by simp
  then show ?thesis
    using assms(3) by (simp add: load_def save_as_def magick_def Let_def)
qed

section \<open>Properties\<close>

text \<open>
  A saved cache is loaded again without loss: if the keys are unique and every entry passes the
  limits that \<^verbatim>\<open>load\<close> checks (a name of 1 to 300 characters, a message of 12 to 55535 bytes), then
  loading the saved bytes succeeds and the loaded cache answers every query at every time exactly
  as the saved one.
\<close>

theorem cache_save_load_round_trip:
  assumes "wf_cache c" "list_all saveable (entries c)" "length (entries c) < 2 ^ 64"
  shows "\<exists>c'. load (save_as c) (min_ttl c) = Inr c' \<and> wf_cache c' \<and> min_ttl c' = min_ttl c
    \<and> map_of (entries c') = map_of (entries c) \<and> (\<forall>t q. retrieve t c' q = retrieve t c q)"
proof -
  let ?c = "\<lparr>entries = rev (entries c), min_ttl = min_ttl c\<rparr>"
  have d: "distinct (map fst (entries c))" using assms(1) by (simp add: wf_cache_def)
  have m: "map_of (rev (entries c)) = map_of (entries c)"
    using d by (intro ext map_of_eq_cong_set) (simp_all add: rev_map [symmetric])
  then have "retrieve t ?c q = retrieve t c q" for t q
    by (simp add: retrieve_def cache_find_def)
  moreover have "wf_cache ?c"
    using assms(1) by (simp add: wf_cache_def rev_map [symmetric])
  ultimately show ?thesis
    using load_save [OF assms(2) d assms(3)] m by auto
qed

theorem cache_save_load_round_trip_witness:
  "let e = \<lparr>deadline = 1700000000, response = content sample_answer\<rparr>;
       c = \<lparr>entries = [((''a.'', 1), e)], min_ttl = 60\<rparr>
   in load (save_as c) 60 = Inr c"
proof -
  let ?e = "\<lparr>deadline = 1700000000, response = content sample_answer\<rparr>"
  let ?c = "\<lparr>entries = [((''a.'', 1), ?e)], min_ttl = 60\<rparr>"
  have "length (content sample_answer) = 35"
    by (simp add: content_def sample_answer_def packet_of_def)
  then have s: "list_all saveable (entries ?c)" by (simp add: saveable_def max_size_def)
  have wf: "wf_cache ?c"
    by (simp add: wf_cache_def ascii_tolower_copy_def to_lower_def)
  have "\<exists>c'. load (save_as ?c) 60 = Inr c'"
    using cache_save_load_round_trip [OF wf s] by auto
  then show ?thesis using load_save [OF s, of 60] by auto
qed

text \<open>
  One response for the root name makes the saved cache unusable: the name of the root is read
  as the empty string, \<^verbatim>\<open>store\<close> accepts it and \<^verbatim>\<open>save_as\<close> writes it, but \<^verbatim>\<open>load\<close> refuses names
  without characters and throws, so that all other entries of the file are lost as well.
\<close>

definition root_answer :: packet where
  "root_answer = packet_of [0, 7, 0x81, 0x80, 0, 1, 0, 1, 0, 0, 0, 0,  0, 0, 2, 0, 1,
     0, 0, 2, 0, 1, 0, 0, 0, 9, 0, 1, 0]"

theorem root_entry_makes_file_unloadable:
  "\<exists>c'. store t root_answer (new_cache m) = Inr c' \<and> length (entries c') = 1
     \<and> load (save_as c') m = Inl (Runtime_error ''corrupt DNS name in'')"
proof -
  let ?h = "\<lparr>h_id = 7, h_rd = True, h_tc = False, h_aa = False, h_opcode = 0, h_qr = True, h_rcode = 0,
    h_z = 0, h_ra = True, h_qdcount = 1, h_ancount = 1, h_nscount = 0, h_arcount = 0\<rparr>"
  have p: "parsed root_answer ?h 17
      [([], \<lparr>rr_type = 2, rr_class = 1, rr_ttl = 9, rr_rdlength = 1\<rparr>, [0])]"
    and s: "storable root_answer ?h" and wf: "wf_packet root_answer"
    by (simp_all add: parsed_def storable_def rcode_word_def root_answer_def parse_eval wf_packet_def
        cong: ebind_weak_cong)
  have q: "get_question root_answer = Inr ([], 1, 2)"
    by (simp add: root_answer_def parse_eval cong: ebind_weak_cong)
  let ?e = "\<lparr>deadline = t + min default_max_ttl (max 9 (int (unat m))), response = content root_answer\<rparr>"
  let ?c = "\<lparr>entries = [(([], 2), ?e)], min_ttl = m\<rparr>"
  have "store t root_answer (new_cache m) = Inr ?c"
    using store_storable [OF wf p s q, of t "new_cache m"]
    by (simp add: replace_entry_def cache_find_def insert_entry_def type_opt_def int32_max_def
        new_cache_def Let_def ascii_tolower_copy_def)
  moreover have "load_entry (drop 4 (save_entry (([], 2), ?e))) = Inl (Runtime_error ''corrupt DNS name in'')"
    by (simp add: load_entry_def save_entry_def)
  then have "load_loop 1 0 (save_entry (([], 2), ?e)) [] = Inl (Runtime_error ''corrupt DNS name in'')"
    by (subst load_loop.simps) (simp add: save_entry_def)
  then have "load (save_as ?c) m = Inl (Runtime_error ''corrupt DNS name in'')"
    by (simp add: load_def save_as_def magick_def Let_def)
  ultimately show ?thesis by auto
qed

end
