(* ===== verification/Word_Set.thy ===== *)
theory Word_Set
  imports Str
begin

text \<open>
  The ordered sets of words of \<^verbatim>\<open>dns/filter.hxx\<close> and the templates \<^verbatim>\<open>words_match\<close> and
  \<^verbatim>\<open>words_insert\<close> of \<^verbatim>\<open>dns/srcz/filter.cpp\<close>.  A \<^verbatim>\<open>std::set\<close> is the list of its elements in the
  order of its comparison, which is a parameter of the templates, as in the source.

  The templates keep a set free of words that are covered by another word, so that one lookup of
  the predecessor decides whether any word covers a name.  The locale \<open>word_order\<close> states what they
  rely on about the comparison and \<^verbatim>\<open>contains\<close>; it is interpreted for both instances, \<^verbatim>\<open>comp\<close>
  with prefixes and \<^verbatim>\<open>rev_comp\<close> with suffixes.
\<close>

section \<open>Definitions\<close>

fun lexicographical_compare :: "string \<Rightarrow> string \<Rightarrow> bool" where
  "lexicographical_compare [] [] = False"
| "lexicographical_compare [] (b # bs) = True"
| "lexicographical_compare (a # as) [] = False"
| "lexicographical_compare (a # as) (b # bs) =
     (if schar a < schar b then True else if schar b < schar a then False
      else lexicographical_compare as bs)"

definition comp :: "string \<Rightarrow> string \<Rightarrow> bool" where
  "comp a b = lexicographical_compare a b"

definition rev_comp :: "string \<Rightarrow> string \<Rightarrow> bool" where
  "rev_comp a b = lexicographical_compare (rev a) (rev b)"

definition contains_comp :: "string \<Rightarrow> string \<Rightarrow> bool" where
  "contains_comp longer shorter \<longleftrightarrow>
     length shorter \<le> length longer \<and> take (length shorter) longer = shorter"

definition contains_rev_comp :: "string \<Rightarrow> string \<Rightarrow> bool" where
  "contains_rev_comp longer shorter \<longleftrightarrow>
     length shorter \<le> length longer \<and> drop (length longer - length shorter) longer = shorter"

text \<open>\<^verbatim>\<open>upper_bound (str)\<close> is the first word that is greater; the word before it is looked at.\<close>

definition words_match ::
  "(string \<Rightarrow> string \<Rightarrow> bool) \<Rightarrow> (string \<Rightarrow> string \<Rightarrow> bool) \<Rightarrow> string list \<Rightarrow> string \<Rightarrow> bool" where
  "words_match cmp contains words str =
     (let before = takeWhile (\<lambda>w. \<not> cmp str w) words in
      before \<noteq> [] \<and> contains str (last before))"

definition words_insert ::
  "(string \<Rightarrow> string \<Rightarrow> bool) \<Rightarrow> (string \<Rightarrow> string \<Rightarrow> bool) \<Rightarrow> string list \<Rightarrow> string \<Rightarrow> string list" where
  "words_insert cmp contains words w =
     (let before = takeWhile (\<lambda>x. cmp x w) words; rest = dropWhile (\<lambda>x. cmp x w) words in
      if rest \<noteq> [] \<and> \<not> cmp w (hd rest) then words
      else if before \<noteq> [] \<and> contains w (last before) then words
      else before @ w # dropWhile (\<lambda>n. contains n w) rest)"

section \<open>The contract of a comparison and its containment\<close>

definition covers :: "(string \<Rightarrow> string \<Rightarrow> bool) \<Rightarrow> string list \<Rightarrow> string \<Rightarrow> bool" where
  "covers contains words s \<longleftrightarrow> (\<exists>w \<in> set words. contains s w)"

lemma covers_simps [simp]:
  "\<not> covers contains [] s" "covers contains (w # ws) s \<longleftrightarrow> contains s w \<or> covers contains ws s"
  by (auto simp: covers_def)

definition wf_words :: "(string \<Rightarrow> string \<Rightarrow> bool) \<Rightarrow> (string \<Rightarrow> string \<Rightarrow> bool) \<Rightarrow> string list \<Rightarrow> bool" where
  "wf_words cmp contains words \<longleftrightarrow> sorted_wrt cmp words
     \<and> (\<forall>x \<in> set words. \<forall>y \<in> set words. contains x y \<longrightarrow> x = y)"

locale word_order =
  fixes cmp :: "string \<Rightarrow> string \<Rightarrow> bool" and contains :: "string \<Rightarrow> string \<Rightarrow> bool"
  assumes cmp_irrefl: "\<not> cmp x x"
    and cmp_trans: "cmp x y \<Longrightarrow> cmp y z \<Longrightarrow> cmp x z"
    and cmp_total: "x \<noteq> y \<Longrightarrow> cmp x y \<or> cmp y x"
    and contains_refl: "contains x x"
    and contains_trans: "contains x y \<Longrightarrow> contains y z \<Longrightarrow> contains x z"
    and contains_antisym: "contains x y \<Longrightarrow> contains y x \<Longrightarrow> x = y"
    and contains_not_less: "contains x y \<Longrightarrow> \<not> cmp x y"
    and contains_between: "contains x y \<Longrightarrow> \<not> cmp z y \<Longrightarrow> \<not> cmp x z \<Longrightarrow> contains z y"
begin

lemma cmp_asym: "cmp x y \<Longrightarrow> \<not> cmp y x"
  using cmp_irrefl cmp_trans by blast

lemma takeWhile_eq_filter:
  assumes "sorted_wrt cmp ws" "\<And>x y. x \<in> set ws \<Longrightarrow> y \<in> set ws \<Longrightarrow> cmp x y \<Longrightarrow> P y \<Longrightarrow> P x"
  shows "takeWhile P ws = filter P ws" "dropWhile P ws = filter (\<lambda>x. \<not> P x) ws"
proof -
  have "takeWhile P ws = filter P ws \<and> dropWhile P ws = filter (\<lambda>x. \<not> P x) ws"
    using assms
  proof (induction ws)
    case (Cons a ws)
    show ?case
    proof (cases "P a")
      case True
      have "takeWhile P ws = filter P ws \<and> dropWhile P ws = filter (\<lambda>x. \<not> P x) ws"
        by (rule Cons.IH) (use Cons.prems in auto)
      with True show ?thesis by simp
    next
      case False
      then have "\<not> P y" if "y \<in> set ws" for y
        using that Cons.prems by auto
      with False show ?thesis by (auto simp: filter_empty_conv filter_id_conv)
    qed
  qed simp
  then show "takeWhile P ws = filter P ws" "dropWhile P ws = filter (\<lambda>x. \<not> P x) ws" by simp_all
qed

lemma sorted_last: "sorted_wrt cmp ws \<Longrightarrow> w \<in> set ws \<Longrightarrow> w = last ws \<or> cmp w (last ws)"
  by (induction ws) auto

lemma match_iff_covers:
  assumes "wf_words cmp contains ws"
  shows "words_match cmp contains ws s \<longleftrightarrow> covers contains ws s"
proof -
  have s: "sorted_wrt cmp ws" using assms by (simp add: wf_words_def)
  let ?b = "filter (\<lambda>w. \<not> cmp s w) ws"
  have b: "takeWhile (\<lambda>w. \<not> cmp s w) ws = ?b"
    by (rule takeWhile_eq_filter [OF s]) (use cmp_trans in blast)
  have "contains s (last ?b)" "?b \<noteq> []" if w: "w \<in> set ws" "contains s w" for w
  proof -
    have wb: "w \<in> set ?b" using w contains_not_less by simp
    then show ne: "?b \<noteq> []" by (metis empty_iff empty_set)
    have l: "last ?b \<in> set ws" "\<not> cmp s (last ?b)" using last_in_set [OF ne] by auto
    have "w = last ?b \<or> cmp w (last ?b)"
      by (rule sorted_last [OF _ wb]) (use s in \<open>simp add: sorted_wrt_filter\<close>)
    then have "\<not> cmp (last ?b) w" using cmp_asym cmp_irrefl by blast
    then have "contains (last ?b) w" using contains_between [OF w(2)] l(2) by blast
    then have "last ?b = w" using assms l(1) w(1) by (auto simp: wf_words_def)
    then show "contains s (last ?b)" using w(2) by simp
  qed
  moreover have "last ?b \<in> set ws" if "?b \<noteq> []" using last_in_set [OF that] by auto
  ultimately show ?thesis
    unfolding words_match_def covers_def Let_def b by blast
qed

lemma insert_correct:
  assumes wf: "wf_words cmp contains ws"
  shows "wf_words cmp contains (words_insert cmp contains ws w)"
    "covers contains (words_insert cmp contains ws w) s \<longleftrightarrow> covers contains ws s \<or> contains s w"
    "set (words_insert cmp contains ws w) \<subseteq> insert w (set ws)"
proof -
  have s: "sorted_wrt cmp ws"
    and anti: "\<And>x y. x \<in> set ws \<Longrightarrow> y \<in> set ws \<Longrightarrow> contains x y \<Longrightarrow> x = y"
    using wf by (auto simp: wf_words_def)
  define b r where "b = filter (\<lambda>x. cmp x w) ws" and "r = filter (\<lambda>x. \<not> cmp x w) ws"
  have tw: "takeWhile (\<lambda>x. cmp x w) ws = b" "dropWhile (\<lambda>x. cmp x w) ws = r"
    unfolding b_def r_def by (rule takeWhile_eq_filter [OF s], use cmp_trans in blast)+
  have sb: "sorted_wrt cmp b" "sorted_wrt cmp r" using s by (simp_all add: b_def r_def sorted_wrt_filter)
  have sets: "set ws = set b \<union> set r" by (auto simp: b_def r_def)
  consider (present) "r \<noteq> []" "\<not> cmp w (hd r)" | (covered) "r = [] \<or> cmp w (hd r)" "b \<noteq> []" "contains w (last b)"
    | (new) "r = [] \<or> cmp w (hd r)" "b = [] \<or> \<not> contains w (last b)"
    by blast
  then have "wf_words cmp contains (words_insert cmp contains ws w)
    \<and> (\<forall>s. covers contains (words_insert cmp contains ws w) s \<longleftrightarrow> covers contains ws s \<or> contains s w)
    \<and> set (words_insert cmp contains ws w) \<subseteq> insert w (set ws)"
  proof cases
    case present
    have hr: "hd r \<in> set r" using present(1) by simp
    then have "hd r = w" using present(2) cmp_total by (auto simp: r_def)
    then have "w \<in> set ws" using hr sets by auto
    then show ?thesis
      using present wf by (auto simp: words_insert_def Let_def tw covers_def)
  next
    case covered
    have "last b \<in> set ws" using covered(2) sets by auto
    then show ?thesis
      using covered wf contains_trans by (auto simp: words_insert_def Let_def tw covers_def)
  next
    case new
    have rw: "cmp w x" if "x \<in> set r" for x
    proof (cases r)
      case (Cons y ys)
      then have "x = y \<or> cmp y x" using that sb(2) by auto
      then show ?thesis using new(1) Cons cmp_trans by auto
    qed (use that in simp)
    define r' where "r' = filter (\<lambda>n. \<not> contains n w) r"
    have dw: "dropWhile (\<lambda>n. contains n w) r = r'"
      unfolding r'_def
      by (rule takeWhile_eq_filter [OF sb(2)]) (use contains_between rw cmp_asym in blast)
    have eq: "words_insert cmp contains ws w = b @ w # r'"
      using new cmp_asym rw by (auto simp: words_insert_def Let_def tw dw)
    have bw: "\<not> contains w x" if "x \<in> set b" for x
    proof
      assume c: "contains w x"
      have bne: "b \<noteq> []" using that by auto
      have "x = last b \<or> cmp x (last b)" by (rule sorted_last [OF sb(1) that])
      moreover have "last b \<in> set b" using bne by simp
      moreover from this have "cmp (last b) w" by (simp add: b_def)
      ultimately have "contains (last b) x"
        using contains_between [OF c, of "last b"] cmp_asym contains_refl by blast
      then have "last b = x" using anti sets \<open>last b \<in> set b\<close> that by blast
      with c new(2) bne show False by simp
    qed
    have bw': "\<not> contains x w" if "x \<in> set b" for x
      using that contains_not_less by (auto simp: b_def)
    have rw': "\<not> contains w x" if "x \<in> set r" for x
      using that rw contains_not_less by blast
    have sub: "set b \<subseteq> set ws" "set r' \<subseteq> set ws" "set r' \<subseteq> set r"
      by (auto simp: b_def r_def r'_def)
    have "sorted_wrt cmp (b @ w # r')"
    proof -
      have "cmp x y" if "x \<in> set b" "y \<in> set r'" for x y
        using that sub(3) rw cmp_trans [of x w y] by (auto simp: b_def)
      then show ?thesis
        using sb sub(3) rw by (auto simp: sorted_wrt_append r'_def sorted_wrt_filter b_def)
    qed
    moreover have "x = y" if "x \<in> set (b @ w # r')" "y \<in> set (b @ w # r')" "contains x y" for x y
      using that anti sub bw bw' rw' by (auto simp: r'_def)
    moreover have "covers contains (b @ w # r') s \<longleftrightarrow> covers contains ws s \<or> contains s w" for s
      using sets contains_trans by (fastforce simp: covers_def r'_def)
    ultimately show ?thesis unfolding eq using sub by (auto simp: wf_words_def)
  qed
  then show "wf_words cmp contains (words_insert cmp contains ws w)"
    "covers contains (words_insert cmp contains ws w) s \<longleftrightarrow> covers contains ws s \<or> contains s w"
    "set (words_insert cmp contains ws w) \<subseteq> insert w (set ws)"
    by blast+
qed

lemma wf_filter: "wf_words cmp contains ws \<Longrightarrow> wf_words cmp contains (filter P ws)"
  by (auto simp: wf_words_def sorted_wrt_filter)

lemma insert_all_correct:
  assumes "wf_words cmp contains ws"
  shows "wf_words cmp contains (fold (\<lambda>w ws. words_insert cmp contains ws w) vs ws)"
    "covers contains (fold (\<lambda>w ws. words_insert cmp contains ws w) vs ws) s
      \<longleftrightarrow> covers contains ws s \<or> covers contains vs s"
  using assms by (induction vs arbitrary: ws) (auto simp: insert_correct)

end

section \<open>The two instances\<close>

lemma lex_irrefl: "\<not> lexicographical_compare x x"
  by (induction x) auto

lemma lex_trans:
  "lexicographical_compare x y \<Longrightarrow> lexicographical_compare y z \<Longrightarrow> lexicographical_compare x z"
proof (induction x y arbitrary: z rule: lexicographical_compare.induct)
  case (2 b bs)
  then show ?case by (cases z) simp_all
next
  case (4 a as b bs)
  then show ?case by (cases z) (auto split: if_splits)
qed simp_all

lemma lex_total: "x \<noteq> y \<Longrightarrow> lexicographical_compare x y \<or> lexicographical_compare y x"
proof (induction x y rule: lexicographical_compare.induct)
  case (4 a as b bs)
  then show ?case by (cases "schar a = schar b") auto
qed simp_all

lemma contains_comp_iff: "contains_comp x y \<longleftrightarrow> prefix y x"
  by (auto simp: contains_comp_def prefix_def take_is_prefix)
    (metis append_take_drop_id)

lemma contains_rev_comp_iff: "contains_rev_comp x y \<longleftrightarrow> prefix (rev y) (rev x)"
proof -
  have "contains_rev_comp x y \<longleftrightarrow> suffix y x"
    by (auto simp: contains_rev_comp_def suffix_def) (metis append_take_drop_id)
  then show ?thesis by (simp add: suffix_to_prefix)
qed

lemma lex_prefix: "prefix y x \<Longrightarrow> \<not> lexicographical_compare x y"
  by (induction x y rule: lexicographical_compare.induct) auto

lemma lex_between:
  "prefix y x \<Longrightarrow> \<not> lexicographical_compare z y \<Longrightarrow> \<not> lexicographical_compare x z \<Longrightarrow> prefix y z"
proof (induction y arbitrary: x z)
  case (Cons c y)
  then obtain x' where x: "x = c # x'" "prefix y x'" by (cases x) auto
  then obtain d z' where z: "z = d # z'" using Cons.prems(2) by (cases z) auto
  have "schar d = schar c" using Cons.prems(2,3) x z by (simp split: if_splits)
  then show ?case using Cons.IH [OF x(2)] Cons.prems(2,3) x z by simp
qed simp

interpretation prefix_words: word_order comp contains_comp
proof unfold_locales
  fix x y z :: string
  show "\<not> comp x x" "x \<noteq> y \<Longrightarrow> comp x y \<or> comp y x"
    by (simp_all add: comp_def lex_irrefl lex_total)
  show "comp x y \<Longrightarrow> comp y z \<Longrightarrow> comp x z"
    unfolding comp_def by (rule lex_trans)
  show "contains_comp x x" "contains_comp x y \<Longrightarrow> contains_comp y x \<Longrightarrow> x = y"
    "contains_comp x y \<Longrightarrow> contains_comp y z \<Longrightarrow> contains_comp x z"
    by (auto simp: contains_comp_iff)
  show "contains_comp x y \<Longrightarrow> \<not> comp x y"
    by (simp add: contains_comp_iff comp_def lex_prefix)
  show "contains_comp x y \<Longrightarrow> \<not> comp z y \<Longrightarrow> \<not> comp x z \<Longrightarrow> contains_comp z y"
    unfolding contains_comp_iff comp_def by (rule lex_between)
qed

interpretation suffix_words: word_order rev_comp contains_rev_comp
proof unfold_locales
  fix x y z :: string
  show "\<not> rev_comp x x" "x \<noteq> y \<Longrightarrow> rev_comp x y \<or> rev_comp y x"
    by (simp_all add: rev_comp_def lex_irrefl lex_total)
  show "rev_comp x y \<Longrightarrow> rev_comp y z \<Longrightarrow> rev_comp x z"
    unfolding rev_comp_def by (rule lex_trans)
  show "contains_rev_comp x x" "contains_rev_comp x y \<Longrightarrow> contains_rev_comp y z \<Longrightarrow> contains_rev_comp x z"
    by (auto simp: contains_rev_comp_iff)
  show "contains_rev_comp x y \<Longrightarrow> contains_rev_comp y x \<Longrightarrow> x = y"
    unfolding contains_rev_comp_iff by (drule (1) prefix_order.antisym) simp
  show "contains_rev_comp x y \<Longrightarrow> \<not> rev_comp x y"
    by (simp add: contains_rev_comp_iff rev_comp_def lex_prefix)
  show "contains_rev_comp x y \<Longrightarrow> \<not> rev_comp z y \<Longrightarrow> \<not> rev_comp x z \<Longrightarrow> contains_rev_comp z y"
    unfolding contains_rev_comp_iff rev_comp_def by (rule lex_between)
qed

end
