(* ===== verification/Name_Filter.thy ===== *)
theory Name_Filter
  imports Word_Set Address
begin

text \<open>
  \<^verbatim>\<open>dns::filter\<close> (\<^verbatim>\<open>dns/filter.hxx\<close>, \<^verbatim>\<open>dns/srcz/filter.cpp\<close>): the black and white lists of host
  names.  A filter has four kinds of entries, each in a set of its own; \<^verbatim>\<open>std::unordered_set\<close>s are
  lists whose order stands for the unspecified order of iteration.
\<close>

section \<open>Definitions\<close>

definition MAX_QNAME_LENGTH :: nat where
  "MAX_QNAME_LENGTH = 1024"

text \<open>\<^verbatim>\<open>npos != str.find (s)\<close>\<close>

definition has_substr :: "string \<Rightarrow> string \<Rightarrow> bool" where
  "has_substr str s \<longleftrightarrow> list_ex (\<lambda>t. prefix s t) (suffixes str)"

definition substr_match :: "string list \<Rightarrow> string \<Rightarrow> bool" where
  "substr_match subs str = list_ex (\<lambda>s. length str \<ge> length s \<and> has_substr str s) subs"

definition uset_insert :: "string \<Rightarrow> string list \<Rightarrow> string list" where
  "uset_insert w subs = (if w \<in> set subs then subs else w # subs)"

text \<open>
  The loop of \<^verbatim>\<open>substr_insert\<close>: \<open>seen\<close> are the words before the iterator, which stay in the set.
\<close>

fun substr_insert_loop :: "string list \<Rightarrow> string list \<Rightarrow> string \<Rightarrow> string list" where
  "substr_insert_loop seen [] w = uset_insert w seen"
| "substr_insert_loop seen (i # subs) w =
     (if has_substr w i then seen @ i # subs
      else if has_substr i w then uset_insert w (seen @ filter (\<lambda>j. \<not> has_substr j w) subs)
      else substr_insert_loop (seen @ [i]) subs w)"

definition substr_insert :: "string list \<Rightarrow> string \<Rightarrow> string list" where
  "substr_insert subs w = substr_insert_loop [] subs w"

record filter_t =
  f_prefix :: "string list"
  f_suffix :: "string list"
  f_substrings :: "string list"
  f_exact :: "string list"

definition empty_filter :: filter_t where
  "empty_filter = \<lparr>f_prefix = [], f_suffix = [], f_substrings = [], f_exact = []\<rparr>"

definition filter_count :: "filter_t \<Rightarrow> nat" where
  "filter_count f = length (f_suffix f) + length (f_prefix f) + length (f_substrings f) + length (f_exact f)"

definition filter_empty :: "filter_t \<Rightarrow> bool" where
  "filter_empty f \<longleftrightarrow> f_suffix f = [] \<and> f_prefix f = [] \<and> f_substrings f = [] \<and> f_exact f = []"

text \<open>The forms of a name that \<^verbatim>\<open>match\<close> and \<^verbatim>\<open>optimize\<close> build one after the other.\<close>

definition add_front_dot :: "string \<Rightarrow> string" where
  "add_front_dot s = (if s = [] \<or> hd s \<noteq> CHR ''.'' then CHR ''.'' # s else s)"

definition add_back_dot :: "string \<Rightarrow> string" where
  "add_back_dot s = (if s = [] \<or> last s \<noteq> CHR ''.'' then s @ ''.'' else s)"

definition drop_front_dot :: "string \<Rightarrow> string" where
  "drop_front_dot s = (if s \<noteq> [] \<and> hd s = CHR ''.'' then tl s else s)"

definition match_low :: "filter_t \<Rightarrow> string \<Rightarrow> bool" where
  "match_low f low =
     (if low \<in> set (f_exact f) then True
      else
        let low = add_front_dot low in
        if words_match rev_comp contains_rev_comp (f_suffix f) low then True
        else
          let low = add_back_dot low in
          if substr_match (f_substrings f) low then True
          else words_match comp contains_comp (f_prefix f) (drop_front_dot low))"

definition normalize_host :: "string \<Rightarrow> string res" where
  "normalize_host host =
     (if length host > MAX_QNAME_LENGTH then Inl (Runtime_error ''too long host name'')
      else
        let low = (if length host > 1 \<and> last host = CHR ''.'' then butlast host else host) in
        if low = [] then Inl (Runtime_error ''too short host name'') else Inr (ascii_tolower low))"

definition filter_match :: "filter_t \<Rightarrow> string \<Rightarrow> bool res" where
  "filter_match f host = ebind (normalize_host host) (\<lambda>low. Inr (match_low f low))"

definition optimize :: "filter_t \<Rightarrow> filter_t" where
  "optimize f =
     (let suffix1 = filter (\<lambda>d. \<not> substr_match (f_substrings f) (add_back_dot d)) (f_suffix f);
          prefix1 = filter (\<lambda>d. \<not> substr_match (f_substrings f) (add_front_dot d)) (f_prefix f);
          exact1 = filter (\<lambda>w.
             let str = add_front_dot w in
             \<not> words_match rev_comp contains_rev_comp suffix1 str
             \<and> \<not> substr_match (f_substrings f) (add_back_dot str)
             \<and> \<not> words_match comp contains_comp prefix1 (drop_front_dot (add_back_dot str))) (f_exact f)
      in f\<lparr>f_suffix := suffix1, f_prefix := prefix1, f_exact := exact1\<rparr>)"

text \<open>
  A word of a filter file.  \<^verbatim>\<open>word_cstr\<close> is a C string, so what follows a NUL is cut off.  For the
  word \<^verbatim>\<open>*\<close> the pointer is moved behind the terminating NUL of the empty string.
\<close>

datatype filters = exact | prefix_f | suffix_f | substring

definition classify_word :: "string \<Rightarrow> (filters \<times> string) res" where
  "classify_word word =
     (if hd word = CHR ''*'' \<and> last word = CHR ''*'' then
        (if length word = 1 then Inl Undefined_behaviour
         else Inr (substring, c_str (tl (butlast word))))
      else if last word = CHR ''*'' then Inr (prefix_f, c_str (butlast word))
      else
        let cstr = c_str (if hd word = CHR ''*'' then tl word else word) in
        Inr (if cstr \<noteq> [] \<and> hd cstr = CHR ''.'' then suffix_f else exact, cstr))"

definition add_word :: "string \<Rightarrow> filter_t \<Rightarrow> filter_t res" where
  "add_word word f =
     (if length word > MAX_QNAME_LENGTH then Inl (Runtime_error ''Too long filter entry'')
      else ebind (classify_word word) (\<lambda>(filter_type, cstr).
        if cstr = [] then Inr f
        else
          let w = ascii_tolower_copy cstr in
          Inr (case filter_type of
              exact \<Rightarrow> f\<lparr>f_exact := uset_insert w (f_exact f)\<rparr>
            | suffix_f \<Rightarrow> f\<lparr>f_suffix := words_insert rev_comp contains_rev_comp (f_suffix f) w\<rparr>
            | prefix_f \<Rightarrow> f\<lparr>f_prefix := words_insert comp contains_comp (f_prefix f) w\<rparr>
            | substring \<Rightarrow> f\<lparr>f_substrings := substr_insert (f_substrings f) w\<rparr>)))"

text \<open>
  \<^verbatim>\<open>text_stream >> word\<close> and \<^verbatim>\<open>text_stream.ignore (10000000, newline)\<close>: the words of the text that are
  not part of a comment.
\<close>

definition skip_line :: "string \<Rightarrow> string" where
  "skip_line s =
     (let k = length (takeWhile (\<lambda>c. c \<noteq> CHR 0x0A) s) in if k < 10000000 then drop (k + 1) s else drop 10000000 s)"

lemma length_skip_line: "length (skip_line s) \<le> length s"
  by (simp add: skip_line_def Let_def)

lemma word_rest_shorter:
  assumes "dropWhile P inp \<noteq> []"
  shows "length (dropWhile (\<lambda>c. \<not> P c) (dropWhile P inp)) < length inp"
proof -
  obtain c t where t: "dropWhile P inp = c # t" using assms by (cases "dropWhile P inp") auto
  have "\<not> P c" using hd_dropWhile [OF assms] t by simp
  then have "length (dropWhile (\<lambda>c. \<not> P c) (dropWhile P inp)) < length (dropWhile P inp)"
    using length_dropWhile_le [of "\<lambda>c. \<not> P c" t] by (simp add: t)
  also have "\<dots> \<le> length inp" by (rule length_dropWhile_le)
  finally show ?thesis .
qed

function filter_loop :: "string \<Rightarrow> filter_t \<Rightarrow> filter_t res" where
  "filter_loop inp f =
     (let t = dropWhile is_space inp in
      if t = [] then Inr f
      else
        let word = takeWhile (\<lambda>c. \<not> is_space c) t; rest = dropWhile (\<lambda>c. \<not> is_space c) t in
        if hd word = CHR ''#'' then filter_loop (skip_line rest) f
        else ebind (add_word word f) (filter_loop rest))"
  by pat_completeness auto
termination
proof (relation "measure (\<lambda>(inp, f). length inp)", goal_cases)
  case (2 inp f t word rest)
  then show ?case using word_rest_shorter [of is_space inp] length_skip_line [of rest] by simp
next
  case (3 inp f t word rest)
  then show ?case using word_rest_shorter [of is_space inp] by simp
qed simp

declare filter_loop.simps [simp del]

definition filter_of_text :: "string \<Rightarrow> filter_t res" where
  "filter_of_text inp = ebind (filter_loop inp empty_filter) (\<lambda>f. Inr (optimize f))"

definition merge :: "filter_t \<Rightarrow> filter_t \<Rightarrow> filter_t" where
  "merge f other =
     optimize
       \<lparr>f_prefix = (if f_prefix f = [] then f_prefix other
          else fold (\<lambda>w ws. words_insert comp contains_comp ws w) (f_prefix other) (f_prefix f)),
        f_suffix = (if f_suffix f = [] then f_suffix other
          else fold (\<lambda>w ws. words_insert rev_comp contains_rev_comp ws w) (f_suffix other) (f_suffix f)),
        f_substrings = (if f_substrings f = [] then f_substrings other
          else fold (\<lambda>w ws. substr_insert ws w) (f_substrings other) (f_substrings f)),
        f_exact = (if f_exact f = [] then f_exact other
          else fold uset_insert (f_exact other) (f_exact f))\<rparr>"

text \<open>
  \<^verbatim>\<open>write\<close>: the entries of each kind in lines of at most about 85 characters.  The substrings are
  written by a loop of their own, which counts the asterisks and does not start with a blank; the
  other three loops differ in the mark behind the word and in the additional length.
\<close>

definition newline_str :: string where
  "newline_str = [CHR 0x0A]"

fun write_substrings :: "nat \<Rightarrow> string list \<Rightarrow> string" where
  "write_substrings line_len [] = []"
| "write_substrings line_len (d # ds) =
     (let l = line_len + (length d + 3);
          l' = (if l > 85 then length d + 2 else l);
          sep = (if l > 85 then newline_str else if length d + 3 \<noteq> l then '' '' else [])
      in sep @ ''*'' @ d @ ''*'' @ write_substrings l' ds)"

fun write_words :: "nat \<Rightarrow> string \<Rightarrow> nat \<Rightarrow> string list \<Rightarrow> string" where
  "write_words extra mark line_len [] = []"
| "write_words extra mark line_len (d # ds) =
     (let l = line_len + (length d + extra);
          l' = (if l > 85 then length d + (extra - 1) else l);
          sep = (if l > 85 then newline_str else '' '')
      in sep @ d @ mark @ write_words extra mark l' ds)"

definition filter_write :: "filter_t \<Rightarrow> string" where
  "filter_write f =
     (if f_substrings f \<noteq> [] then newline_str @ ''# filter substring domains'' @ newline_str else [])
     @ write_substrings 0 (f_substrings f)
     @ (if f_prefix f \<noteq> [] then newline_str @ newline_str @ ''# prefix domains'' @ newline_str else [])
     @ write_words 2 ''*'' 0 (f_prefix f)
     @ (if f_suffix f \<noteq> [] then newline_str @ newline_str @ ''# suffix domains'' @ newline_str else [])
     @ write_words 1 [] 0 (f_suffix f)
     @ (if f_exact f \<noteq> [] then newline_str @ newline_str @ ''# exact hosts'' @ newline_str else [])
     @ write_words 1 [] 0 (f_exact f)"

section \<open>Specification: a linear scan over all entries\<close>

definition rule_matches :: "filters \<Rightarrow> string \<Rightarrow> string \<Rightarrow> bool" where
  "rule_matches t w low =
     (case t of
        exact \<Rightarrow> low = w
      | suffix_f \<Rightarrow> suffix w (add_front_dot low)
      | substring \<Rightarrow> sublist w (add_back_dot (add_front_dot low))
      | prefix_f \<Rightarrow> prefix w (drop_front_dot (add_back_dot (add_front_dot low))))"

definition scan :: "filter_t \<Rightarrow> string \<Rightarrow> bool" where
  "scan f low \<longleftrightarrow>
     (\<exists>w \<in> set (f_exact f). rule_matches exact w low)
     \<or> (\<exists>w \<in> set (f_suffix f). rule_matches suffix_f w low)
     \<or> (\<exists>w \<in> set (f_substrings f). rule_matches substring w low)
     \<or> (\<exists>w \<in> set (f_prefix f). rule_matches prefix_f w low)"

definition wf_filter :: "filter_t \<Rightarrow> bool" where
  "wf_filter f \<longleftrightarrow> wf_words rev_comp contains_rev_comp (f_suffix f)
     \<and> wf_words comp contains_comp (f_prefix f)"

lemma has_substr_iff: "has_substr str s \<longleftrightarrow> sublist s str"
  by (auto simp: has_substr_def list_ex_iff sublist_altdef')

lemma substr_match_iff: "substr_match subs str \<longleftrightarrow> (\<exists>s \<in> set subs. sublist s str)"
  by (auto simp: substr_match_def list_ex_iff has_substr_iff dest: sublist_length_le)

lemma substr_match_Nil [simp]: "\<not> substr_match [] str"
  by (simp add: substr_match_def)

lemma substr_match_Cons: "substr_match (a # subs) str \<longleftrightarrow> sublist a str \<or> substr_match subs str"
  by (simp add: substr_match_iff)

lemma substr_match_mono: "substr_match subs x \<Longrightarrow> sublist x y \<Longrightarrow> substr_match subs y"
  unfolding substr_match_iff by (meson sublist_order.order_trans)

lemma contains_rev_comp_suffix: "contains_rev_comp x y \<longleftrightarrow> suffix y x"
  by (simp add: contains_rev_comp_iff suffix_to_prefix)

lemma scan_iff:
  "scan f low \<longleftrightarrow> low \<in> set (f_exact f)
     \<or> covers contains_rev_comp (f_suffix f) (add_front_dot low)
     \<or> substr_match (f_substrings f) (add_back_dot (add_front_dot low))
     \<or> covers contains_comp (f_prefix f) (drop_front_dot (add_back_dot (add_front_dot low)))"
  by (simp add: scan_def rule_matches_def covers_def substr_match_iff
      contains_rev_comp_suffix contains_comp_iff)

lemma match_low_scan: "wf_filter f \<Longrightarrow> match_low f low \<longleftrightarrow> scan f low"
  by (simp add: match_low_def scan_iff wf_filter_def prefix_words.match_iff_covers
      suffix_words.match_iff_covers Let_def)

subsection \<open>Removal of redundant entries\<close>

lemma add_back_dot_sublist:
  assumes "suffix d a"
  shows "sublist (add_back_dot d) (add_back_dot a)"
proof -
  have "suffix (add_back_dot d) (add_back_dot a)"
  proof (cases d rule: rev_cases)
    case Nil
    then show ?thesis by (auto simp: add_back_dot_def suffix_def) (metis append_butlast_last_id)
  next
    case (snoc d' c)
    then show ?thesis using assms by (auto simp: add_back_dot_def suffix_def)
  qed
  then show ?thesis by (rule suffix_imp_sublist)
qed

lemma add_front_dot_sublist:
  assumes "prefix d (drop_front_dot b)" "b \<noteq> []" "hd b = CHR ''.''"
  shows "sublist (add_front_dot d) b"
proof -
  obtain c where b: "b = CHR ''.'' # c" using assms(2,3) by (cases b) auto
  then have "prefix d c" using assms(1) by (simp add: drop_front_dot_def)
  then show ?thesis
    by (auto simp: add_front_dot_def b intro: prefix_imp_sublist sublist_Cons_right [THEN iffD2])
qed

lemma front_dot_facts:
  "add_front_dot s \<noteq> []" "hd (add_front_dot s) = CHR ''.''"
  "add_back_dot s \<noteq> []" "s \<noteq> [] \<Longrightarrow> hd (add_back_dot s) = hd s"
  by (auto simp: add_front_dot_def add_back_dot_def)

lemma wf_optimize: "wf_filter f \<Longrightarrow> wf_filter (optimize f)"
  by (simp add: wf_filter_def optimize_def Let_def prefix_words.wf_filter suffix_words.wf_filter)

lemma covers_filter:
  assumes "\<And>w. w \<in> set ws \<Longrightarrow> contains s w \<Longrightarrow> \<not> P w \<Longrightarrow> Q"
  shows "covers contains (filter P ws) s \<or> Q \<longleftrightarrow> covers contains ws s \<or> Q"
  using assms by (auto simp: covers_def)

lemma scan_optimize:
  assumes "wf_filter f"
  shows "scan (optimize f) low \<longleftrightarrow> scan f low"
proof -
  let ?a = "add_front_dot low" let ?b = "add_back_dot ?a" let ?c = "drop_front_dot ?b"
  let ?S = "substr_match (f_substrings f)"
  define sf where "sf = filter (\<lambda>d. \<not> ?S (add_back_dot d)) (f_suffix f)"
  define pf where "pf = filter (\<lambda>d. \<not> ?S (add_front_dot d)) (f_prefix f)"
  have wf: "wf_words rev_comp contains_rev_comp sf" "wf_words comp contains_comp pf"
    using assms by (simp_all add: sf_def pf_def wf_filter_def prefix_words.wf_filter suffix_words.wf_filter)
  define ex where "ex = filter (\<lambda>w. let str = add_front_dot w in
      \<not> words_match rev_comp contains_rev_comp sf str \<and> \<not> ?S (add_back_dot str)
      \<and> \<not> words_match comp contains_comp pf (drop_front_dot (add_back_dot str))) (f_exact f)"
  have o: "optimize f = f\<lparr>f_suffix := sf, f_prefix := pf, f_exact := ex\<rparr>"
    by (simp add: optimize_def Let_def sf_def pf_def ex_def)
  have "covers contains_rev_comp sf ?a \<or> ?S ?b \<longleftrightarrow> covers contains_rev_comp (f_suffix f) ?a \<or> ?S ?b"
    unfolding sf_def
  proof (rule covers_filter)
    fix d assume "contains_rev_comp ?a d" "\<not> \<not> ?S (add_back_dot d)"
    then have "?S (add_back_dot d)" "sublist (add_back_dot d) ?b"
      by (simp_all add: contains_rev_comp_suffix add_back_dot_sublist)
    then show "?S ?b" by (rule substr_match_mono)
  qed
  moreover have "covers contains_comp pf ?c \<or> ?S ?b \<longleftrightarrow> covers contains_comp (f_prefix f) ?c \<or> ?S ?b"
    unfolding pf_def
  proof (rule covers_filter)
    fix d assume "contains_comp ?c d" "\<not> \<not> ?S (add_front_dot d)"
    then have "?S (add_front_dot d)" "sublist (add_front_dot d) ?b"
      by (simp_all add: contains_comp_iff add_front_dot_sublist front_dot_facts)
    then show "?S ?b" by (rule substr_match_mono)
  qed
  moreover have "low \<in> set (f_exact f) \<longleftrightarrow> low \<in> set ex
      \<or> low \<in> set (f_exact f) \<and> (covers contains_rev_comp sf ?a \<or> ?S ?b \<or> covers contains_comp pf ?c)"
    using prefix_words.match_iff_covers [OF wf(2)] suffix_words.match_iff_covers [OF wf(1)]
    by (auto simp: ex_def Let_def)
  moreover have sel: "f_exact (optimize f) = ex" "f_suffix (optimize f) = sf"
    "f_substrings (optimize f) = f_substrings f" "f_prefix (optimize f) = pf"
    by (simp_all add: o)
  ultimately show ?thesis unfolding scan_iff sel by blast
qed

subsection \<open>Insertion\<close>

lemma set_uset_insert [simp]: "set (uset_insert w ws) = insert w (set ws)"
  by (auto simp: uset_insert_def)

lemma substr_insert_loop_match:
  "substr_match (substr_insert_loop seen subs w) str \<longleftrightarrow> substr_match (seen @ subs) str \<or> sublist w str"
proof (induction seen subs w rule: substr_insert_loop.induct)
  case (1 seen w)
  then show ?case by (auto simp: substr_match_iff)
next
  case (2 seen i subs w)
  then show ?case
    by (auto simp: substr_match_iff has_substr_iff dest: sublist_order.order_trans)
qed

lemma substr_insert_match:
  "substr_match (substr_insert subs w) str \<longleftrightarrow> substr_match subs str \<or> sublist w str"
  by (simp add: substr_insert_def substr_insert_loop_match)

lemma wf_empty_filter [simp]: "wf_filter empty_filter"
  by (simp add: wf_filter_def wf_words_def empty_filter_def)

lemma scan_empty_filter [simp]: "\<not> scan empty_filter low"
  by (simp add: scan_def empty_filter_def)

text \<open>What one word of a filter text matches, by itself.\<close>

definition word_matches :: "string \<Rightarrow> string \<Rightarrow> bool" where
  "word_matches word low =
     (case classify_word word of Inl e \<Rightarrow> False
      | Inr (t, cstr) \<Rightarrow> cstr \<noteq> [] \<and> rule_matches t (ascii_tolower_copy cstr) low)"

lemma add_word_scan:
  assumes "wf_filter f" "add_word word f = Inr g"
  shows "wf_filter g \<and> (scan g low \<longleftrightarrow> scan f low \<or> word_matches word low)"
proof -
  obtain t cstr where c: "classify_word word = Inr (t, cstr)"
    using assms(2) by (auto simp: add_word_def split: if_splits)
  show ?thesis
  proof (cases "cstr = []")
    case True
    then show ?thesis using assms c by (auto simp: add_word_def word_matches_def split: if_splits)
  next
    case False
    let ?w = "ascii_tolower_copy cstr"
    have g: "g = (case t of exact \<Rightarrow> f\<lparr>f_exact := uset_insert ?w (f_exact f)\<rparr>
            | suffix_f \<Rightarrow> f\<lparr>f_suffix := words_insert rev_comp contains_rev_comp (f_suffix f) ?w\<rparr>
            | prefix_f \<Rightarrow> f\<lparr>f_prefix := words_insert comp contains_comp (f_prefix f) ?w\<rparr>
            | substring \<Rightarrow> f\<lparr>f_substrings := substr_insert (f_substrings f) ?w\<rparr>)"
      using assms(2) c False by (auto simp: add_word_def Let_def split: if_splits)
    have "word_matches word low \<longleftrightarrow> rule_matches t ?w low"
      using c False by (simp add: word_matches_def)
    then show ?thesis
      using assms(1) unfolding g
      by (cases t) (auto simp: wf_filter_def scan_iff rule_matches_def prefix_words.insert_correct
          suffix_words.insert_correct substr_insert_match contains_rev_comp_suffix contains_comp_iff)
  qed
qed

lemma add_word_succeeds_iff:
  "word \<noteq> [] \<Longrightarrow> (\<exists>g. add_word word f = Inr g) \<longleftrightarrow> length word \<le> MAX_QNAME_LENGTH \<and> word \<noteq> ''*''"
  by (auto simp: add_word_def classify_word_def Let_def length_Suc_conv split: if_splits)

text \<open>The words of a filter text, without the comments.\<close>

function text_words :: "string \<Rightarrow> string list" where
  "text_words inp =
     (let t = dropWhile is_space inp in
      if t = [] then []
      else
        let word = takeWhile (\<lambda>c. \<not> is_space c) t; rest = dropWhile (\<lambda>c. \<not> is_space c) t in
        if hd word = CHR ''#'' then text_words (skip_line rest) else word # text_words rest)"
  by pat_completeness auto
termination
proof (relation "measure length", goal_cases)
  case (2 inp t word rest)
  then show ?case using word_rest_shorter [of is_space inp] length_skip_line [of rest] by simp
next
  case (3 inp t word rest)
  then show ?case using word_rest_shorter [of is_space inp] by simp
qed simp

declare text_words.simps [simp del]

fun add_words :: "string list \<Rightarrow> filter_t \<Rightarrow> filter_t res" where
  "add_words [] f = Inr f"
| "add_words (w # ws) f = ebind (add_word w f) (add_words ws)"

lemma filter_loop_eq: "filter_loop inp f = add_words (text_words inp) f"
proof (induction inp f rule: filter_loop.induct)
  case (1 inp f)
  let ?t = "dropWhile is_space inp"
  let ?word = "takeWhile (\<lambda>c. \<not> is_space c) ?t" and ?rest = "dropWhile (\<lambda>c. \<not> is_space c) ?t"
  have "ebind (add_word ?word f) (filter_loop ?rest) = ebind (add_word ?word f) (add_words (text_words ?rest))"
    if "?t \<noteq> []" "hd ?word \<noteq> CHR ''#''"
    by (rule ebind_cong [OF refl]) (use 1(2) [OF refl that(1) refl refl that(2)] in blast)
  then show ?case
    using 1(1) [OF refl _ refl refl] by (subst filter_loop.simps, subst text_words.simps) (simp add: Let_def)
qed

lemma text_words_nonempty: "word \<in> set (text_words inp) \<Longrightarrow> word \<noteq> []"
proof (induction inp rule: text_words.induct)
  case (1 inp)
  have "takeWhile (\<lambda>c. \<not> is_space c) (dropWhile is_space inp) \<noteq> []" if "dropWhile is_space inp \<noteq> []"
    using that hd_dropWhile [OF that] by (cases "dropWhile is_space inp") auto
  then show ?case
    using 1 by (subst (asm) (3) text_words.simps) (auto simp: Let_def split: if_splits)
qed

lemma add_words_scan:
  assumes "wf_filter f" "add_words ws f = Inr g"
  shows "wf_filter g \<and> (scan g low \<longleftrightarrow> scan f low \<or> (\<exists>w \<in> set ws. word_matches w low))"
  using assms
proof (induction ws arbitrary: f)
  case (Cons w ws)
  then obtain f' where f': "add_word w f = Inr f'" "add_words ws f' = Inr g" by auto
  have "wf_filter f' \<and> (scan f' low \<longleftrightarrow> scan f low \<or> word_matches w low)"
    by (rule add_word_scan [OF Cons.prems(1) f'(1)])
  with Cons.IH [OF _ f'(2)] show ?case by auto
qed simp

lemma add_words_succeeds_iff:
  "\<forall>w \<in> set ws. w \<noteq> [] \<Longrightarrow> (\<exists>g. add_words ws f = Inr g)
     \<longleftrightarrow> (\<forall>w \<in> set ws. length w \<le> MAX_QNAME_LENGTH \<and> w \<noteq> ''*'')"
proof (induction ws arbitrary: f)
  case (Cons w ws)
  have "(\<exists>g. add_words (w # ws) f = Inr g) \<longleftrightarrow> (\<exists>f'. add_word w f = Inr f' \<and> (\<exists>g. add_words ws f' = Inr g))"
    by auto
  also have "\<dots> \<longleftrightarrow> (\<exists>f'. add_word w f = Inr f') \<and> (\<forall>w \<in> set ws. length w \<le> MAX_QNAME_LENGTH \<and> w \<noteq> ''*'')"
    using Cons by auto
  finally show ?case using Cons.prems add_word_succeeds_iff [of w f] by auto
qed simp

section \<open>Properties\<close>

text \<open>
  C24. The optimised filter is equivalent to a linear scan: a filter read from a text (ordered sets
  free of covered words, redundant entries removed) matches a host name exactly if one of the words
  of the text, taken by itself, matches it: an exact name, a suffix of the name with a dot in
  front, a part of the name between dots, or a prefix of the name with a dot at the end.  Reading
  succeeds exactly if every word has at most 1024 characters and none is a lone asterisk.
\<close>

theorem filter_match_linear_scan:
  "((\<exists>f. filter_of_text inp = Inr f)
      \<longleftrightarrow> (\<forall>w \<in> set (text_words inp). length w \<le> 1024 \<and> w \<noteq> ''*''))
   \<and> (\<forall>f. filter_of_text inp = Inr f \<longrightarrow>
        filter_match f host = ebind (normalize_host host)
          (\<lambda>low. Inr (\<exists>w \<in> set (text_words inp). word_matches w low)))"
proof (intro conjI allI impI)
  show "(\<exists>f. filter_of_text inp = Inr f)
      \<longleftrightarrow> (\<forall>w \<in> set (text_words inp). length w \<le> 1024 \<and> w \<noteq> ''*'')"
    using add_words_succeeds_iff [of "text_words inp" empty_filter] text_words_nonempty
    by (auto simp: filter_of_text_def filter_loop_eq MAX_QNAME_LENGTH_def)
next
  fix f assume "filter_of_text inp = Inr f"
  then obtain g where g: "add_words (text_words inp) empty_filter = Inr g" "f = optimize g"
    by (auto simp: filter_of_text_def filter_loop_eq)
  have "match_low f low \<longleftrightarrow> (\<exists>w \<in> set (text_words inp). word_matches w low)" for low
    using add_words_scan [OF wf_empty_filter g(1), of low]
    by (simp add: g(2) match_low_scan wf_optimize scan_optimize)
  then show "filter_match f host = ebind (normalize_host host)
      (\<lambda>low. Inr (\<exists>w \<in> set (text_words inp). word_matches w low))"
    by (simp add: filter_match_def)
qed

theorem filter_match_linear_scan_witness:
  "filter_of_text ''*.b'' = Inr (empty_filter\<lparr>f_suffix := [''.b'']\<rparr>)
   \<and> filter_match (empty_filter\<lparr>f_suffix := [''.b'']\<rparr>) ''a.B.'' = Inr True"
proof -
  have w: "text_words ''*.b'' = [''*.b'']"
    by (simp add: text_words.simps is_space_def Let_def)
  have f: "filter_of_text ''*.b'' = Inr (empty_filter\<lparr>f_suffix := [''.b'']\<rparr>)"
    by (simp add: filter_of_text_def filter_loop.simps is_space_def add_word_def classify_word_def c_str_def
        MAX_QNAME_LENGTH_def ascii_tolower_copy_def to_lower_def words_insert_def optimize_def
        empty_filter_def schar_def Let_def NUL_def)
  have "word_matches ''*.b'' ''a.b''"
    by (simp add: word_matches_def classify_word_def rule_matches_def c_str_def ascii_tolower_copy_def
        to_lower_def add_front_dot_def suffix_def schar_def NUL_def)
  then show ?thesis
    using filter_match_linear_scan [of "''*.b''" "''a.B.''"] f w
    by (simp add: normalize_host_def MAX_QNAME_LENGTH_def ascii_tolower_def to_lower_def char_of_def
        bit_iff_odd)
qed

lemma substr_insert_all:
  "substr_match (fold (\<lambda>w ws. substr_insert ws w) vs ws) str \<longleftrightarrow> substr_match ws str \<or> substr_match vs str"
  by (induction vs arbitrary: ws) (auto simp: substr_insert_match substr_match_Cons)

lemma set_fold_uset_insert [simp]: "set (fold uset_insert vs ws) = set vs \<union> set ws"
  by (induction vs arbitrary: ws) auto

lemma merge_match_low:
  assumes "wf_filter f" "wf_filter g"
  shows "wf_filter (merge f g)" "match_low (merge f g) low \<longleftrightarrow> match_low f low \<or> match_low g low"
proof -
  define m where "m = \<lparr>f_prefix = (if f_prefix f = [] then f_prefix g
          else fold (\<lambda>w ws. words_insert comp contains_comp ws w) (f_prefix g) (f_prefix f)),
        f_suffix = (if f_suffix f = [] then f_suffix g
          else fold (\<lambda>w ws. words_insert rev_comp contains_rev_comp ws w) (f_suffix g) (f_suffix f)),
        f_substrings = (if f_substrings f = [] then f_substrings g
          else fold (\<lambda>w ws. substr_insert ws w) (f_substrings g) (f_substrings f)),
        f_exact = (if f_exact f = [] then f_exact g
          else fold uset_insert (f_exact g) (f_exact f))\<rparr>"
  have wf: "wf_filter m"
    using assms
    by (simp add: m_def wf_filter_def prefix_words.insert_all_correct suffix_words.insert_all_correct)
  have "covers contains_comp (f_prefix m) s \<longleftrightarrow> covers contains_comp (f_prefix f) s \<or> covers contains_comp (f_prefix g) s"
    "covers contains_rev_comp (f_suffix m) s
      \<longleftrightarrow> covers contains_rev_comp (f_suffix f) s \<or> covers contains_rev_comp (f_suffix g) s"
    "substr_match (f_substrings m) s \<longleftrightarrow> substr_match (f_substrings f) s \<or> substr_match (f_substrings g) s"
    "set (f_exact m) = set (f_exact f) \<union> set (f_exact g)" for s
    using assms
    by (auto simp: m_def wf_filter_def prefix_words.insert_all_correct suffix_words.insert_all_correct
        substr_insert_all)
  then have "scan m low \<longleftrightarrow> scan f low \<or> scan g low" for low
    unfolding scan_iff by blast
  then show "match_low (merge f g) low \<longleftrightarrow> match_low f low \<or> match_low g low"
    using wf assms by (simp add: merge_def m_def [symmetric] match_low_scan wf_optimize scan_optimize)
  show "wf_filter (merge f g)"
    using wf_optimize [OF wf] by (simp add: merge_def m_def)
qed

lemma wf_filter_of_text: "filter_of_text inp = Inr f \<Longrightarrow> wf_filter f"
  using add_words_scan [OF wf_empty_filter] by (auto simp: filter_of_text_def filter_loop_eq wf_optimize)

text \<open>
  Merging two filters gives the union: a name matches the merged filter exactly if it matches
  one of the two, and the invariant of the ordered sets is kept, so that merging and matching can be
  repeated in any order.
\<close>

theorem filter_merge_union:
  assumes "wf_filter f" "wf_filter g"
  shows "wf_filter (merge f g)
    \<and> filter_match (merge f g) host
       = ebind (filter_match f host) (\<lambda>a. ebind (filter_match g host) (\<lambda>b. Inr (a \<or> b)))"
  using merge_match_low [OF assms]
  by (cases "normalize_host host") (simp_all add: filter_match_def)

theorem filter_merge_union_witness:
  "let f = empty_filter\<lparr>f_suffix := [''.com'']\<rparr>; g = empty_filter\<lparr>f_exact := [''a.net'']\<rparr>
   in filter_match (merge f g) ''ads.com.'' = Inr True"
proof -
  let ?f = "empty_filter\<lparr>f_suffix := [''.com'']\<rparr>" and ?g = "empty_filter\<lparr>f_exact := [''a.net'']\<rparr>"
  have "wf_filter ?f" "wf_filter ?g" by (simp_all add: wf_filter_def empty_filter_def wf_words_def)
  moreover have "filter_match ?f ''ads.com.'' = Inr True" "filter_match ?g ''ads.com.'' = Inr False"
    by (simp_all add: filter_match_def normalize_host_def MAX_QNAME_LENGTH_def match_low_def
        words_match_def empty_filter_def ascii_tolower_def to_lower_def add_front_dot_def rev_comp_def
        contains_rev_comp_def schar_def)
  ultimately show ?thesis
    using filter_merge_union [of ?f ?g "''ads.com.''"] by simp
qed

end
