(* ===== verification/Hosts.thy ===== *)
theory Hosts
  imports Address
begin

text \<open>
  \<^verbatim>\<open>dns::hosts\<close> (\<^verbatim>\<open>dns/hosts.hxx\<close>, \<^verbatim>\<open>dns/srcz/hosts.cpp\<close>): names with fixed addresses, read from a
  file in the format of \<^verbatim>\<open>/etc/hosts\<close>.  The file is its text; a file that cannot be opened is not
  modelled.  The constructor is one loop over the characters with the pending address and the
  pending word as its state.
\<close>

section \<open>Definitions\<close>

type_synonym hosts = "string \<rightharpoonup> string"

definition ignore :: "nat \<Rightarrow> string \<Rightarrow> string" where
  "ignore n s = (let k = length (takeWhile (\<lambda>c. c \<noteq> CHR 0x0A) s) in if k < n then drop (k + 1) s else drop n s)"

lemma length_ignore: "length (ignore n s) \<le> length s"
  by (simp add: ignore_def Let_def)

text \<open>\<^verbatim>\<open>std::string &str = host_ip_map_[word]; if (str.empty()) str = ip;\<close>\<close>

definition add_host :: "string \<Rightarrow> string \<Rightarrow> hosts \<Rightarrow> hosts" where
  "add_host ip word m = (case m word of Some (c # s) \<Rightarrow> m | _ \<Rightarrow> m(word \<mapsto> ip))"

text \<open>
  What happens at the end of a word: the new pending address, the new map, and whether the rest of
  the line is skipped.
\<close>

definition word_end ::
  "inet_lib \<Rightarrow> bool \<Rightarrow> bool \<Rightarrow> string \<Rightarrow> string \<Rightarrow> hosts \<Rightarrow> (string \<times> hosts \<times> bool) res" where
  "word_end lib disable_ipv6 line_break ip word m =
     (if word = [] then Inr (ip, m, False)
      else if ip = [] then
        (if \<not> line_break then
           ebind (is_ip_address lib (c_str word)) (\<lambda>af.
             if af = ipv4 \<or> \<not> disable_ipv6 then Inr (word, m, False) else Inr (ip, m, True))
         else Inr (ip, m, False))
      else Inr (ip, add_host ip word m, False))"

definition is_blank :: "char \<Rightarrow> bool" where
  "is_blank c \<longleftrightarrow> c = CHR 0x0D \<or> c = CHR 0x09 \<or> c = CHR 0x0B \<or> c = CHR '' ''"

function hosts_loop :: "inet_lib \<Rightarrow> bool \<Rightarrow> string \<Rightarrow> string \<Rightarrow> string \<Rightarrow> hosts \<Rightarrow> hosts res" where
  "hosts_loop lib d [] ip word m = ebind (word_end lib d True ip word m) (\<lambda>(ip, m, sk). Inr m)"
| "hosts_loop lib d (ch # s) ip word m =
     (if ch = CHR 0x0A \<or> ch = CHR ''#'' then
        ebind (word_end lib d True ip word m) (\<lambda>(ip', m', sk).
          hosts_loop lib d (if ch = CHR ''#'' then ignore 100000 s else s) [] [] m')
      else if is_blank ch then
        ebind (word_end lib d False ip word m) (\<lambda>(ip', m', sk).
          hosts_loop lib d (if sk then ignore 100000 s else s) ip' [] m')
      else
        (if 2048 \<le> length (word @ [ch]) then Inl (Runtime_error ''Too long word in hosts file'')
         else hosts_loop lib d s ip (word @ [ch]) m))"
  by pat_completeness auto
termination
  by (relation "measure (\<lambda>(lib, d, s, ip, word, m). length s)")
    (auto simp: length_ignore less_Suc_eq_le)

definition hosts_of_text :: "inet_lib \<Rightarrow> string \<Rightarrow> bool \<Rightarrow> hosts res" where
  "hosts_of_text lib s disable_ipv6 = hosts_loop lib disable_ipv6 s [] [] Map.empty"

definition hosts_response :: "hosts \<Rightarrow> string \<Rightarrow> string" where
  "hosts_response m name = (case m name of Some ip \<Rightarrow> ip | None \<Rightarrow> [])"

section \<open>Lines of a hosts file\<close>

definition word_char :: "char \<Rightarrow> bool" where
  "word_char c \<longleftrightarrow> c \<noteq> CHR 0x0A \<and> c \<noteq> CHR ''#'' \<and> \<not> is_blank c"

definition is_word :: "string \<Rightarrow> bool" where
  "is_word w \<longleftrightarrow> w \<noteq> [] \<and> length w < 2048 \<and> list_all word_char w"

text \<open>An address, the names behind it, each after a blank, and the rest of the line as a comment.\<close>

definition hosts_line :: "string \<times> string list \<times> string \<Rightarrow> string" where
  "hosts_line l = (case l of (ip, names, comment) \<Rightarrow>
     ip @ concat (map (\<lambda>n. CHR '' '' # n) names) @ '' #'' @ comment @ [CHR 0x0A])"

definition valid_line :: "inet_lib \<Rightarrow> bool \<Rightarrow> string \<times> string list \<times> string \<Rightarrow> bool" where
  "valid_line lib d l \<longleftrightarrow> (case l of (ip, names, comment) \<Rightarrow>
     is_word ip \<and> NUL \<notin> set ip \<and> list_all is_word names \<and> CHR 0x0A \<notin> set comment \<and> length comment < 100000
     \<and> (\<exists>af. is_ip_address lib ip = Inr af \<and> (af = ipv4 \<or> \<not> d)))"

definition line_effect :: "string \<times> string list \<times> string \<Rightarrow> hosts \<Rightarrow> hosts" where
  "line_effect l m = (case l of (ip, names, comment) \<Rightarrow> fold (add_host ip) names m)"

lemma hosts_loop_word:
  assumes "list_all word_char w" "length (word @ w) < 2048"
  shows "hosts_loop lib d (w @ s) ip word m = hosts_loop lib d s ip (word @ w) m"
  using assms
proof (induction w arbitrary: word)
  case (Cons c w)
  then show ?case by (simp add: word_char_def)
qed simp

lemma hosts_loop_blank:
  "is_blank c \<Longrightarrow> hosts_loop lib d (c # s) ip word m
     = ebind (word_end lib d False ip word m) (\<lambda>(ip', m', sk).
          hosts_loop lib d (if sk then ignore 100000 s else s) ip' [] m')"
  by (auto simp: is_blank_def)

lemma is_blank_space [simp]: "is_blank CHR '' ''"
  by (simp add: is_blank_def)

lemma hosts_loop_names:
  assumes "list_all is_word names" "ip \<noteq> []" "word = [] \<or> is_word word"
  shows "hosts_loop lib d (concat (map (\<lambda>n. CHR '' '' # n) names) @ CHR '' '' # s) ip word m
    = hosts_loop lib d s ip [] (fold (add_host ip) names (if word = [] then m else add_host ip word m))"
  using assms(1,3)
proof (induction names arbitrary: word m)
  case Nil
  then show ?case using assms(2) by (simp add: hosts_loop_blank word_end_def del: hosts_loop.simps)
next
  case (Cons n names)
  have n: "is_word n" using Cons.prems(1) by simp
  let ?m = "if word = [] then m else add_host ip word m"
  let ?s = "concat (map (\<lambda>n. CHR '' '' # n) names) @ CHR '' '' # s"
  have "hosts_loop lib d (concat (map (\<lambda>n. CHR '' '' # n) (n # names)) @ CHR '' '' # s) ip word m
      = hosts_loop lib d (n @ ?s) ip [] ?m"
    using assms(2) by (simp add: hosts_loop_blank word_end_def del: hosts_loop.simps)
  also have "\<dots> = hosts_loop lib d ?s ip n ?m"
    using hosts_loop_word [of n "[]"] n by (simp add: is_word_def del: hosts_loop.simps)
  also have "\<dots> = hosts_loop lib d s ip [] (fold (add_host ip) names (add_host ip n ?m))"
    using Cons.IH [of n ?m] Cons.prems(1) n by (simp add: is_word_def del: hosts_loop.simps)
  finally show ?case by (simp del: hosts_loop.simps)
qed

lemma ignore_comment:
  assumes "CHR 0x0A \<notin> set comment" "length comment < n"
  shows "ignore n (comment @ CHR 0x0A # s) = s"
proof -
  have "takeWhile (\<lambda>c. c \<noteq> CHR 0x0A) (comment @ CHR 0x0A # s) = comment"
    using assms(1) by (induction comment) auto
  then show ?thesis using assms(2) by (simp add: ignore_def)
qed

lemma hosts_loop_comment:
  assumes "CHR 0x0A \<notin> set comment" "length comment < 100000"
  shows "hosts_loop lib d (CHR ''#'' # comment @ CHR 0x0A # s) ip [] m = hosts_loop lib d s [] [] m"
  by (simp add: word_end_def ignore_comment [OF assms])

lemma hosts_loop_line:
  assumes "valid_line lib d l"
  shows "hosts_loop lib d (hosts_line l @ s) [] [] m = hosts_loop lib d s [] [] (line_effect l m)"
proof -
  obtain ip names comment where l: "l = (ip, names, comment)" by (cases l)
  from assms have ip: "is_word ip" "NUL \<notin> set ip" "list_all is_word names" "CHR 0x0A \<notin> set comment"
    "length comment < 100000" by (auto simp: valid_line_def l)
  have first: "word_end lib d False [] ip m = Inr (ip, m, False)"
    using assms ip by (auto simp: word_end_def l valid_line_def is_word_def c_str_idem)
  define s' where "s' = CHR ''#'' # comment @ CHR 0x0A # s"
  have ne: "ip \<noteq> []" using ip(1) by (simp add: is_word_def)
  have w: "hosts_loop lib d (ip @ t) [] [] m = hosts_loop lib d t [] ip m" for t
    using hosts_loop_word [of ip "[]"] ip(1) by (simp add: is_word_def)
  have "hosts_loop lib d (concat (map (\<lambda>n. CHR '' '' # n) names) @ CHR '' '' # s') [] ip m
      = hosts_loop lib d s' ip [] (fold (add_host ip) names m)"
  proof (cases names)
    case Nil
    then show ?thesis by (simp add: hosts_loop_blank first del: hosts_loop.simps)
  next
    case (Cons n ns)
    let ?s = "concat (map (\<lambda>n. CHR '' '' # n) ns) @ CHR '' '' # s'"
    have n: "is_word n" "list_all is_word ns" using ip(3) Cons by simp_all
    have "hosts_loop lib d (CHR '' '' # n @ ?s) [] ip m = hosts_loop lib d (n @ ?s) ip [] m"
      by (simp add: hosts_loop_blank first del: hosts_loop.simps)
    also have "\<dots> = hosts_loop lib d ?s ip n m"
      using hosts_loop_word [of n "[]"] n by (simp add: is_word_def del: hosts_loop.simps)
    also have "\<dots> = hosts_loop lib d s' ip [] (fold (add_host ip) ns (add_host ip n m))"
      using hosts_loop_names [OF n(2) ne, of n] n(1) by (simp add: is_word_def del: hosts_loop.simps)
    finally show ?thesis by (simp add: Cons del: hosts_loop.simps)
  qed
  then show ?thesis
    using w hosts_loop_comment [OF ip(4,5)]
    by (simp add: l hosts_line_def line_effect_def s'_def del: hosts_loop.simps)
qed

lemma hosts_loop_lines:
  "list_all (valid_line lib d) ls \<Longrightarrow>
   hosts_loop lib d (concat (map hosts_line ls)) [] [] m = Inr (fold line_effect ls m)"
  by (induction ls arbitrary: m) (simp_all add: hosts_loop_line word_end_def)

text \<open>The first line that lists a name decides.\<close>

definition no_empty :: "hosts \<Rightarrow> bool" where
  "no_empty m \<longleftrightarrow> (\<forall>n. m n \<noteq> Some [])"

lemma add_host_no_empty:
  "no_empty m \<Longrightarrow> add_host ip w m = (case m w of None \<Rightarrow> m(w \<mapsto> ip) | Some _ \<Rightarrow> m)"
  by (auto simp: add_host_def no_empty_def split: option.split list.split)

lemma no_empty_add_host: "no_empty m \<Longrightarrow> ip \<noteq> [] \<Longrightarrow> no_empty (add_host ip w m)"
  by (auto simp: add_host_no_empty no_empty_def split: option.split)

lemma no_empty_fold: "no_empty m \<Longrightarrow> ip \<noteq> [] \<Longrightarrow> no_empty (fold (add_host ip) names m)"
  by (induction names arbitrary: m) (simp_all add: no_empty_add_host)

lemma fold_add_host:
  assumes "no_empty m" "ip \<noteq> []"
  shows "fold (add_host ip) names m n
    = (case m n of Some v \<Rightarrow> Some v | None \<Rightarrow> if n \<in> set names then Some ip else None)"
  using assms
proof (induction names arbitrary: m)
  case Nil
  then show ?case by (simp split: option.split)
next
  case (Cons w names)
  from Cons.IH [OF no_empty_add_host [OF Cons.prems] Cons.prems(2)] Cons.prems show ?case
    by (auto simp: add_host_no_empty split: option.splits)
qed

fun first_ip :: "(string \<times> string list \<times> string) list \<Rightarrow> string \<Rightarrow> string" where
  "first_ip [] name = []"
| "first_ip ((ip, names, comment) # ls) name = (if name \<in> set names then ip else first_ip ls name)"

lemma fold_line_effect:
  assumes "no_empty m" "list_all (valid_line lib d) ls"
  shows "hosts_response (fold line_effect ls m) name
    = (case m name of Some v \<Rightarrow> v | None \<Rightarrow> first_ip ls name)"
  using assms
proof (induction ls arbitrary: m)
  case Nil
  then show ?case by (simp add: hosts_response_def split: option.split)
next
  case (Cons l ls)
  obtain ip names comment where l: "l = (ip, names, comment)" by (cases l)
  have ip: "ip \<noteq> []" using Cons.prems(2) by (simp add: l valid_line_def is_word_def)
  from Cons.IH [OF no_empty_fold [OF Cons.prems(1) ip, of names]] Cons.prems(2)
    fold_add_host [OF Cons.prems(1) ip, of names name]
  show ?case by (simp add: l line_effect_def split: option.splits)
qed

section \<open>Properties\<close>

text \<open>
  A hosts file is read as it is meant: for lines that consist of a valid address (IPv6 only if
  it is not disabled), names behind it and a comment, reading succeeds and the response for a name
  is the address of the first line that lists it, or empty if no line does.  What
  \<^verbatim>\<open>inet_pton\<close> accepts is a parameter.
\<close>

theorem hosts_file_first_line_wins:
  assumes "list_all (valid_line lib d) ls"
  shows "\<exists>m. hosts_of_text lib (concat (map hosts_line ls)) d = Inr m
    \<and> (\<forall>name. hosts_response m name = first_ip ls name)"
  using hosts_loop_lines [OF assms] fold_line_effect [OF _ assms, of Map.empty]
  by (simp add: hosts_of_text_def no_empty_def)

theorem hosts_file_first_line_wins_witness:
  "\<exists>m. hosts_of_text \<lparr>inet_pton = (\<lambda>af s. if af = ipv4 then Some [127, 0, 0, 1] else None), inet_ntop = \<lambda>_ _. []\<rparr>
      (hosts_line (''127.0.0.1'', [''localhost'', ''lo''], ''loopback'')) True = Inr m
     \<and> hosts_response m ''lo'' = ''127.0.0.1''"
  using hosts_file_first_line_wins
    [of "\<lparr>inet_pton = (\<lambda>af s. if af = ipv4 then Some [127, 0, 0, 1] else None), inet_ntop = \<lambda>_ _. []\<rparr>"
      True "[(''127.0.0.1'', [''localhost'', ''lo''], ''loopback'')]"]
  by (auto simp: valid_line_def is_word_def word_char_def is_blank_def is_ip_address_def NUL_def)

end
