(* ===== verification/Responder.thy ===== *)
theory Responder
  imports Cache_File Name_Filter Hosts
begin

text \<open>
  \<^verbatim>\<open>dns::responder\<close> (\<^verbatim>\<open>dns/responder.hxx\<close>, \<^verbatim>\<open>dns/srcz/responder.cpp\<close>): what happens to a query: it is
  dropped, answered from the filters, the cache or the hosts file, or forwarded to a provider, and
  what happens to the answer of the provider.

  The surroundings of a call are the record \<open>env\<close>: the time, the next value of \<^verbatim>\<open>std::rand\<close>, the log
  level and the functions of the operating system.  Log messages are not modelled, except that
  writing an unknown class to the log throws, which is visible to the caller.  Requests are
  referred to by the responder through shared pointers; what matters here is which provider and
  message they have and whether they are still active.
\<close>

section \<open>Definitions\<close>

record provider =
  p_address :: address
  p_proto :: proto
  p_failures :: nat

record upstream_req =
  ur_message :: packet
  ur_active :: bool

record responder =
  whitelist :: filter_t
  blacklist :: filter_t
  r_cache :: cache
  r_hosts :: hosts
  dns_providers :: "provider list"
  upstream_requests :: "upstream_req list"
  onion_provider :: "provider option"
  random_provider_idx :: nat
  blacklisted_count :: nat
  processed_count :: nat
  cached_count :: nat
  cache_dir :: string
  noipv6 :: bool
  cache_file :: "byte list option"

record env =
  e_lib :: inet_lib
  e_now :: int
  e_rand :: nat
  e_log :: nat

text \<open>A pointer to a provider: the one for onion names or one of the list.\<close>

datatype provider_ref = Onion | Provider nat

datatype outcome =
    Dropped
  | Responded packet
  | Forwarded provider_ref packet

subsection \<open>Filtering and answering\<close>

definition severity_info :: nat where "severity_info = 6"

definition log_class :: "env \<Rightarrow> u16 \<Rightarrow> unit res" where
  "log_class env cls =
     (if severity_info \<le> e_log env then ebind (rr_class_cstr cls) (\<lambda>_. Inr ()) else Inr ())"

definition filter_pass :: "responder \<Rightarrow> string \<Rightarrow> u16 \<Rightarrow> bool res" where
  "filter_pass r owner qtype =
     ebind (if filter_empty (whitelist r) then Inr True else filter_match (whitelist r) owner) (\<lambda>w.
       if w then
         ebind (filter_match (blacklist r) owner) (\<lambda>b.
           Inr (\<not> b \<and> \<not> (noipv6 r \<and> qtype = type_aaaa)))
       else Inr False)"

definition strip_dot :: "string \<Rightarrow> string" where
  "strip_dot s = (if s \<noteq> [] \<and> last s = CHR ''.'' then butlast s else s)"

definition pre_filter :: "env \<Rightarrow> packet \<Rightarrow> responder \<Rightarrow> (nat \<times> packet \<times> responder) res" where
  "pre_filter env q r =
     ebind (get_question q) (\<lambda>(owner0, qclass, qtype).
     let owner = strip_dot owner0 in
     ebind (filter_pass r owner qtype) (\<lambda>pass.
     ebind (log_class env qclass) (\<lambda>_.
       if \<not> pass then
         ebind (mark_refused q) (\<lambda>q'. Inr (1, q', r\<lparr>blacklisted_count := blacklisted_count r + 1\<rparr>))
       else
         ebind (retrieve (e_now env) (r_cache r) q) (\<lambda>cr.
           case cr of
             Some m \<Rightarrow> Inr (1, m, r\<lparr>cached_count := cached_count r + 1\<rparr>)
           | None \<Rightarrow>
               let ip = hosts_response (r_hosts r) owner in
               if ip \<noteq> [] then ebind (set_answer (e_lib env) ip q) (\<lambda>q'. Inr (2, q', r))
               else Inr (0, q, r)))))"

definition resp_store :: "env \<Rightarrow> packet \<Rightarrow> responder \<Rightarrow> responder res" where
  "resp_store env msg r =
     ebind (store (e_now env) msg (r_cache r)) (\<lambda>c.
       let r' = r\<lparr>r_cache := c\<rparr> in
       Inr (if cache_dir r' \<noteq> [] \<and> length (entries c) mod 16 = 0
            then r'\<lparr>cache_file := Some (save_as c)\<rparr> else r'))"

text \<open>
  \<^verbatim>\<open>pass_answer_downstream\<close> of a forwarded request: the answer is logged, stored if it is a success
  or the name does not exist, and sent to the client.
\<close>

definition pass_answer_downstream :: "env \<Rightarrow> packet \<Rightarrow> responder \<Rightarrow> (outcome \<times> responder) res" where
  "pass_answer_downstream env answer r =
     ebind (short_info (e_lib env) answer) (\<lambda>_.
     ebind (rcode answer) (\<lambda>rc.
       if rc = rcode_word noerror \<or> rc = rcode_word nxdomain then
         ebind (resp_store env answer r) (\<lambda>r'. Inr (Responded answer, r'))
       else Inr (Responded answer, r)))"

subsection \<open>Choosing a provider\<close>

definition rand_max :: nat where "rand_max = 2147483647"

definition select_random_provider :: "env \<Rightarrow> responder \<Rightarrow> responder" where
  "select_random_provider env r =
     (let n = length (dns_providers r); m = (if n > rand_max then rand_max else n);
          mx = (if m = 0 then 1 else m)
      in r\<lparr>random_provider_idx := e_rand env mod mx\<rparr>)"

definition zone_provider :: "packet \<Rightarrow> responder \<Rightarrow> provider_ref option res" where
  "zone_provider q r =
     (case onion_provider r of
        None \<Rightarrow> Inr None
      | Some _ \<Rightarrow>
          ebind (hostname q) (\<lambda>owner.
            Inr (if length owner > 6 \<and> drop (length owner - 6) owner = ''.onion''
                 then Some Onion else None)))"

definition random_provider :: "env \<Rightarrow> packet \<Rightarrow> responder \<Rightarrow> (provider_ref option \<times> responder) res" where
  "random_provider env q r =
     ebind (zone_provider q r) (\<lambda>z.
       case z of
         Some p \<Rightarrow> Inr (Some p, r)
       | None \<Rightarrow>
           if dns_providers r = [] then Inr (None, r)
           else
             let r' = select_random_provider env r in
             if random_provider_idx r' \<ge> length (dns_providers r')
             then Inl (Logic_error ''random DNS provider is not in the list'')
             else Inr (Some (Provider (random_provider_idx r')), r'))"

subsection \<open>The list of upstream requests\<close>

text \<open>
  The loop of \<^verbatim>\<open>collect_garbage\<close>: the element behind an erased one moves to the index that was just
  examined, and the final \<^verbatim>\<open>resize\<close> cuts the vector behind the last element that was found
  active.
\<close>

function garbage_loop :: "('a \<Rightarrow> bool) \<Rightarrow> 'a list \<Rightarrow> nat \<Rightarrow> nat \<Rightarrow> 'a list" where
  "garbage_loop active reqs i lst =
     (if i < length reqs then
        (if \<not> active (reqs ! i) then garbage_loop active (take i reqs @ drop (i + 1) reqs) (i + 1) lst
         else garbage_loop active reqs (i + 1) (i + 1))
      else take lst reqs)"
  by pat_completeness auto
termination
  by (relation "measure (\<lambda>(active, reqs, i, lst). length reqs - i)") auto

declare garbage_loop.simps [simp del]

definition collect_requests :: "responder \<Rightarrow> responder" where
  "collect_requests r =
     r\<lparr>upstream_requests :=
        (if upstream_requests r \<noteq> [] then garbage_loop ur_active (upstream_requests r) 0 0
         else upstream_requests r)\<rparr>"

definition increment_failures :: "provider_ref \<Rightarrow> responder \<Rightarrow> responder" where
  "increment_failures ref r =
     (case ref of
        Onion \<Rightarrow> r\<lparr>onion_provider := map_option (\<lambda>p. p\<lparr>p_failures := p_failures p + 1\<rparr>) (onion_provider r)\<rparr>
      | Provider i \<Rightarrow>
          if i < length (dns_providers r) then
            r\<lparr>dns_providers := (dns_providers r)[i := (dns_providers r ! i)\<lparr>p_failures := p_failures (dns_providers r ! i) + 1\<rparr>]\<rparr>
          else r)"

text \<open>
  The second half of \<^verbatim>\<open>process\<close>: the choice of a provider and the upstream request.  The argument
  \<open>connect\<close> tells whether the construction of the upstream request succeeds; it throws
  \<^verbatim>\<open>network::error\<close> if the socket cannot be connected.
\<close>

definition send_upstream ::
  "env \<Rightarrow> (provider_ref \<Rightarrow> bool) \<Rightarrow> packet \<Rightarrow> responder \<Rightarrow> (outcome \<times> responder) res" where
  "send_upstream env connect msg r =
     ebind (random_provider env msg r) (\<lambda>(prov, r).
       case prov of
         Some p \<Rightarrow>
           let r = collect_requests r in
           if connect p then
             Inr (Forwarded p msg,
                  r\<lparr>upstream_requests := upstream_requests r @ [\<lparr>ur_message = msg, ur_active = True\<rparr>]\<rparr>)
           else
             ebind (mark_servfail msg) (\<lambda>resp. Inr (Responded resp, increment_failures p r))
       | None \<Rightarrow> ebind (mark_servfail msg) (\<lambda>resp. Inr (Responded resp, r)))"

definition process :: "env \<Rightarrow> (provider_ref \<Rightarrow> bool) \<Rightarrow> packet \<Rightarrow> responder \<Rightarrow> (outcome \<times> responder) res" where
  "process env connect msg r0 =
     (if \<not> is_dns msg then Inr (Dropped, r0)
      else
        let r = r0\<lparr>processed_count := processed_count r0 + 1\<rparr> in
        ebind (pre_filter env msg r) (\<lambda>(fr, fmsg, r).
          if fr = 1 then Inr (Responded fmsg, r)
          else if fr = 2 then ebind (resp_store env fmsg r) (\<lambda>r. Inr (Responded fmsg, r))
          else send_upstream env connect msg r))"

subsection \<open>Configuration\<close>

definition default_port :: u16 where "default_port = 53"

text \<open>\<^verbatim>\<open>f >> word\<close>: the next word and the rest of the text, if there is a word.\<close>

definition next_word :: "string \<Rightarrow> (string \<times> string) option" where
  "next_word s =
     (let t = dropWhile is_space s in
      if t = [] then None
      else Some (takeWhile (\<lambda>c. \<not> is_space c) t, dropWhile (\<lambda>c. \<not> is_space c) t))"

lemma next_word_shorter: "next_word s = Some (w, rest) \<Longrightarrow> length rest < length s"
  using word_rest_shorter [of is_space s] by (auto simp: next_word_def Let_def split: if_splits)

definition from_file_address ::
  "inet_lib \<Rightarrow> bool \<Rightarrow> proto \<Rightarrow> string \<Rightarrow> provider list \<Rightarrow> provider list res" where
  "from_file_address lib noip pr word result =
     ebind (address_of_string lib word default_port) (\<lambda>addr.
       Inr (if a_inet addr = ipv4 \<or> \<not> noip
            then result @ [\<lparr>p_address = addr, p_proto = pr, p_failures = 0\<rparr>] else result))"

function from_file :: "inet_lib \<Rightarrow> bool \<Rightarrow> proto \<Rightarrow> string \<Rightarrow> provider list \<Rightarrow> provider list res" where
  "from_file lib noip pr inp result =
     (case next_word inp of
        None \<Rightarrow> Inr result
      | Some (word, rest) \<Rightarrow>
          if hd word = CHR ''#'' \<or> word \<in> set [''search'', ''domain'', ''sortlist'', ''options'']
          then from_file lib noip pr (ignore 100000 rest) result
          else if word = ''nameserver'' then
            (case next_word rest of
               None \<Rightarrow> Inr result
             | Some (ns, rest') \<Rightarrow>
                 ebind (from_file_address lib noip pr ns result)
                   (from_file lib noip pr (ignore 100000000000 rest')))
          else
            ebind (from_file_address lib noip pr word result) (from_file lib noip pr rest))"
  by pat_completeness auto
termination
proof (relation "measure (\<lambda>(lib, noip, pr, inp, result). length inp)", goal_cases)
  case (2 lib noip pr inp result x word rest)
  then show ?case using next_word_shorter [of inp word rest] length_ignore [of 100000 rest] by simp
next
  case (3 lib noip pr inp result x word rest y ns rest')
  then show ?case
    using next_word_shorter [of inp word rest] next_word_shorter [of rest ns rest']
      length_ignore [of 100000000000 rest'] by simp
next
  case (4 lib noip pr inp result x word rest)
  then show ?case using next_word_shorter [of inp word rest] by simp
qed simp

declare from_file.simps [simp del]

text \<open>
  The parameters with the contents of the files they name; \<open>rp_hosts\<close> and \<open>rp_onion\<close> are empty when
  the option is not set.
\<close>

record responder_parameters =
  rp_resolvers :: string
  rp_hosts :: "string option"
  rp_onion :: string
  rp_cachedir :: string
  rp_noipv6 :: bool
  rp_proto :: proto
  rp_min_ttl :: u16
  rp_whitelists :: "string list"
  rp_blacklists :: "string list"

fun merge_all :: "string list \<Rightarrow> filter_t \<Rightarrow> filter_t res" where
  "merge_all [] f = Inr f"
| "merge_all (t # ts) f = ebind (filter_of_text t) (\<lambda>g. merge_all ts (merge f g))"

text \<open>A \<^verbatim>\<open>std::runtime_error\<close> from the list of resolvers is logged and the old list is kept.\<close>

definition reload :: "inet_lib \<Rightarrow> responder_parameters \<Rightarrow> responder \<Rightarrow> responder res" where
  "reload lib params r =
     ebind (case from_file lib (rp_noipv6 params) (rp_proto params) (rp_resolvers params) [] of
         Inr ps \<Rightarrow> Inr ps
       | Inl (Runtime_error m) \<Rightarrow> Inr (dns_providers r)
       | Inl e \<Rightarrow> Inl e) (\<lambda>ps.
     ebind (merge_all (rp_whitelists params) empty_filter) (\<lambda>wl.
     ebind (merge_all (rp_blacklists params) empty_filter) (\<lambda>bl.
     ebind (if rp_onion params \<noteq> [] then
              ebind (address_of_string lib (rp_onion params) 5353) (\<lambda>a.
                Inr (Some \<lparr>p_address = a, p_proto = udp, p_failures = 0\<rparr>))
            else Inr None) (\<lambda>op.
     ebind (case rp_hosts params of
         Some t \<Rightarrow> hosts_of_text lib t (rp_noipv6 params)
       | None \<Rightarrow> Inr Map.empty) (\<lambda>h.
       Inr (r\<lparr>dns_providers := ps, noipv6 := rp_noipv6 params, whitelist := wl, blacklist := bl,
              onion_provider := op, r_hosts := h\<rparr>))))))"

definition new_responder :: "cache \<Rightarrow> string \<Rightarrow> bool \<Rightarrow> byte list option \<Rightarrow> responder" where
  "new_responder c dir noip file =
     \<lparr>whitelist = empty_filter, blacklist = empty_filter, r_cache = c, r_hosts = Map.empty,
      dns_providers = [], upstream_requests = [], onion_provider = None,
      random_provider_idx = 99999999, blacklisted_count = 0, processed_count = 0, cached_count = 0,
      cache_dir = dir, noipv6 = noip, cache_file = file\<rparr>"

definition default_responder :: responder where
  "default_responder = new_responder (new_cache 60) [] False None"

text \<open>
  The constructor with parameters: a saved cache is loaded and cleaned; a \<^verbatim>\<open>std::runtime_error\<close>
  gives an empty cache.
\<close>

definition start_responder :: "env \<Rightarrow> byte list option \<Rightarrow> responder_parameters \<Rightarrow> responder res" where
  "start_responder env file params =
     ebind
       (if rp_cachedir params \<noteq> [] then
          (case file of
             None \<Rightarrow> Inr (new_cache (rp_min_ttl params))
           | Some bytes \<Rightarrow>
               (case load bytes (rp_min_ttl params) of
                  Inr c \<Rightarrow> Inr (collect_garbage (e_now env) c)
                | Inl (Runtime_error m) \<Rightarrow> Inr (new_cache (rp_min_ttl params))
                | Inl e \<Rightarrow> Inl e))
        else Inr (new_cache (rp_min_ttl params)))
       (\<lambda>c. reload (e_lib env) params
              (new_responder c (rp_cachedir params) (rp_noipv6 params) file))"

end
