(* ===== verification/Responder_Safety.thy ===== *)
theory Responder_Safety
  imports Responder
begin

text \<open>
  Memory safety of the way of a query through \<^verbatim>\<open>dns::responder\<close>: the operations that write into
  messages, the cache, and \<^verbatim>\<open>process\<close> itself.
\<close>

section \<open>Operations that write into a message\<close>

lemma safe_set_header: "12 \<le> length (pkt_bytes p) \<Longrightarrow> safe (set_header h p)"
  by (simp add: set_header_eq)

lemma safe_updates_header: "updates_header p r h \<Longrightarrow> safe r"
  by (auto elim: updates_headerD)

lemma safe_mark:
  assumes "12 \<le> length (pkt_bytes p)"
  shows "safe (mark_servfail p)" "safe (mark_refused p)" "safe (mark_truncated p)"
  using mark_servfail_updates mark_refused_updates mark_truncated_updates assms
  by (meson header_eq safe_updates_header)+

lemma write_block_ensures:
  "i + length ys \<le> length b \<Longrightarrow> ensures (write_block b i ys) (\<lambda>b'. length b' = length b)"
  by (simp add: write_block_def)

lemma write_answer_ensures:
  assumes "off + 12 + length data \<le> length b" "\<And>b'. length b' = length b \<Longrightarrow> Q (f b')"
  shows "ensures (ebind (write_block b off [0xc0, word_of_nat header_size]) (\<lambda>b.
      ebind (write_block b (off + 2) (store_rr_header (swap_rr_header rr))) (\<lambda>b.
      ebind (write_block b (off + 2 + rr_header_size) data) (\<lambda>b. Inr (f b))))) Q"
  by (intro ensures_ebind [OF write_block_ensures]) (use assms in simp_all)

lemma add_answer_data_ensures:
  assumes wf: "wf_packet p" and len: "12 \<le> length (pkt_bytes p)"
  shows "ensures (add_answer_data data typ ttl p) (\<lambda>q. wf_packet q \<and> 12 \<le> length (pkt_bytes q))"
proof -
  define n where "n = pkt_size p + (2 + rr_header_size + length data)"
  define p1 where "p1 = (if reserved_size p < n then reserve n p else p)"
  have n: "n = pkt_size p + 12 + length data" by (simp add: n_def)
  show ?thesis
  proof (cases "n > max_size")
    case True
    then show ?thesis by (simp add: add_answer_data_def n_def)
  next
    case False
    have p1: "wf_packet p1" "pkt_size p1 = pkt_size p" "n \<le> length (pkt_bytes p1)"
      "12 \<le> length (pkt_bytes p1)"
      using wf len wf_packetD [OF wf] False
      by (auto simp: p1_def n max_size_def reserved_size_eq wf_reserve)
    show ?thesis
      unfolding add_answer_data_def Let_def n_def [symmetric] p1_def [symmetric] split_beta if_not_P [OF False]
    proof (rule ensures_ebind [where P = "\<lambda>_. True"], goal_cases)
      case 1
      show ?case using p1(4) by (simp add: ensures_iff)
    next
      case (2 h)
      let ?h = "h\<lparr>h_ancount := h_ancount h + 1, h_qr := True\<rparr>"
      obtain p2 where p2: "set_header ?h p1 = Inr p2" using p1(4) by (simp add: set_header_eq)
      note wf2 = wf_set_header [OF p1(1) p2] and h2 = header_set_header [OF p2]
      show ?case
        unfolding p2 ebind_simps
      proof (rule ensures_ebind [where P = "\<lambda>_. True"], goal_cases)
        case 1
        show ?case using wf2 by (simp add: ensures_iff)
      next
        case (2 o1)
        show ?case
        proof (rule ensures_ebind [where P = "\<lambda>o2. h_qdcount h = 1 \<longrightarrow> fst o2 \<le> pkt_size p"], goal_cases)
          case 1
          have "fst o2 \<le> pkt_size p"
            if "h_qdcount h = 1" "skip_answers p2 (unat (h_ancount h)) (fst o1) = Inr o2" for o2
          proof -
            have "fst o1 \<le> pkt_size p2"
              using 2(1) that(1) question_reader.rd_progress [OF wf2]
              by (auto simp: skip_questions_def split: prod.splits)
            then show ?thesis
              using that(2) answer_reader.loop_progress [OF wf2] h2(2) p1(2)
              unfolding skip_answers_def by (metis prod.collapse)
          qed
          then show ?case using wf2 by (simp add: ensures_iff)
        next
          case (2 o2)
          show ?case
          proof (cases "h_qdcount h = 1")
            case True
            with 2(2) have le: "fst o2 + 12 + length data \<le> length (pkt_bytes p2)"
              using p1(3) h2(4) by (simp add: n)
            then have small: "fst o2 + 12 + length data < 65536" using wf_packetD [OF wf2] by simp
            have nt: "\<not> h_qdcount ?h \<noteq> 1" using True by simp
            show ?thesis
              unfolding if_not_P [OF nt]
              by (rule write_answer_ensures)
                (use le small wf2 p1(4) h2(4) in \<open>simp_all add: wf_packet_def set_size_def\<close>)
          qed simp
        qed
      qed
    qed
  qed
qed

lemma safe_split_ip_port [simp]: "safe (split_ip_port s)"
  by (simp add: split_ip_port_def Let_def split: list.split option.split)

lemma safe_str2u16 [simp]: "safe (str2u16 s)"
  by (simp add: str2u16_def Let_def split: prod.split)

lemma safe_address_of_string [simp]: "safe (address_of_string lib s port)"
  unfolding address_of_string_def make_address_def by (auto split: option.split)

lemma set_answer_ensures:
  assumes "wf_packet p" "12 \<le> length (pkt_bytes p)"
  shows "ensures (set_answer lib ip p) (\<lambda>q. wf_packet q \<and> 12 \<le> length (pkt_bytes q))"
  unfolding set_answer_def add_answer_def
  by (rule ensures_ebind [where P = "\<lambda>_. True"])
    (simp_all add: ensures_iff [of "address_of_string _ _ _"] add_answer_data_ensures [OF assms])

lemma adjust_loop_safe: "wf_packet p \<Longrightarrow> safe (adjust_loop ttl n off p)"
proof (induction n arbitrary: off p)
  case (Suc n)
  show ?case
    unfolding adjust_loop.simps split_beta
  proof (intro safe_ebind, goal_cases)
    case 1
    show ?case by (rule answer_reader.rd_safe [OF Suc.prems])
  next
    case (2 x)
    obtain e owner rr data where x: "x = (e, owner, rr, data)" by (cases x)
    from 2 obtain o1 where "e = o1 + 10 + length data" "e \<le> pkt_size p"
      using get_rr_iff [OF Suc.prems] wf_packetD [OF Suc.prems] by (auto simp: x)
    then show ?case
      using wf_packetD [OF Suc.prems] by (auto simp: x Let_def)
  next
    case (3 x q)
    have "wf_packet q"
      using 3 Suc.prems by (auto simp: Let_def wf_packet_def write_block_def overwrite_def split: if_splits)
    then show ?case by (rule Suc.IH)
  qed
qed simp

lemma safe_adjust_id_and_ttl:
  assumes "wf_packet p" "12 \<le> length (pkt_bytes p)"
  shows "safe (adjust_id_and_ttl tid ttl p)"
  unfolding adjust_id_and_ttl_def Let_def split_beta
  using assms wf_set_header [OF assms(1)]
  by (auto intro!: adjust_loop_safe simp: safe_set_header)

section \<open>The cache, the filters and the choice of a provider\<close>

lemma query_of_bytes_wf:
  assumes "length d \<le> max_size"
  shows "wf_packet (query_of_bytes d)" "12 \<le> length (pkt_bytes (query_of_bytes d))"
  using assms by (simp_all add: query_of_bytes_def max_size_def wf_reserve packet_of_def wf_packet_def)

lemma safe_retrieve:
  "wf_packet p \<Longrightarrow> 12 \<le> length (pkt_bytes p) \<Longrightarrow> safe (retrieve tnow c p)"
  unfolding retrieve_def
  by (auto intro!: safe_adjust_id_and_ttl safe_get_question simp: query_of_bytes_wf split: option.split)

lemma safe_store:
  assumes "wf_packet p" "12 \<le> length (pkt_bytes p)"
  shows "safe (store tnow p c)"
  using assms wf_packetD [OF assms(1)] safe_get_question [OF assms] safe_answer_min_ttl [OF assms]
  unfolding store_def Let_def query_write_def by (auto split: prod.split)

lemma safe_filter_match [simp]: "safe (filter_match f s)"
  unfolding filter_match_def normalize_host_def Let_def by auto

lemma safe_filter_pass [simp]: "safe (filter_pass r owner t)"
  unfolding filter_pass_def by auto

lemma safe_log_class [simp]: "safe (log_class env c)"
  unfolding log_class_def by auto

lemma safe_resp_store: "wf_packet p \<Longrightarrow> 12 \<le> length (pkt_bytes p) \<Longrightarrow> safe (resp_store env p r)"
  unfolding resp_store_def Let_def by (auto intro: safe_store)

lemma pre_filter_ensures:
  assumes "wf_packet p" "12 \<le> length (pkt_bytes p)"
  shows "ensures (pre_filter env p r)
    (\<lambda>(fr, q, r'). fr = 2 \<longrightarrow> wf_packet q \<and> 12 \<le> length (pkt_bytes q))"
proof -
  have "safe (pre_filter env p r)"
    unfolding pre_filter_def Let_def
    by (auto intro!: safe_get_question safe_mark safe_retrieve assms
        ensures_safe [OF set_answer_ensures] split: option.split)
  moreover have "wf_packet q \<and> 12 \<le> length (pkt_bytes q)"
    if "pre_filter env p r = Inr (2, q, r')" for q r'
    using that ensuresD [OF set_answer_ensures [OF assms]]
    by (auto simp: pre_filter_def Let_def split: if_splits option.splits)
  ultimately show ?thesis by (auto simp: ensures_iff)
qed

lemma safe_random_provider:
  assumes "wf_packet p" "12 \<le> length (pkt_bytes p)"
  shows "safe (random_provider env p r)"
  unfolding random_provider_def zone_provider_def Let_def
  by (auto intro!: safe_hostname assms split: option.split)

lemma safe_send_upstream:
  assumes "wf_packet p" "12 \<le> length (pkt_bytes p)"
  shows "safe (send_upstream env connect p r)"
  using safe_random_provider [OF assms] safe_mark [OF assms(2)]
  unfolding send_upstream_def Let_def by (fastforce split: prod.split option.split)

lemma is_dnsD: "is_dns p \<Longrightarrow> wf_packet p \<Longrightarrow> 12 \<le> length (pkt_bytes p)"
  by (auto simp: is_dns_def wf_packet_def)

lemma process_safe:
  assumes wf: "wf_packet msg"
  shows "safe (process env connect msg r)"
proof (cases "is_dns msg")
  case True
  note p = wf is_dnsD [OF True wf]
  show ?thesis
    unfolding process_def Let_def
    using ensures_safe [OF pre_filter_ensures [OF p]] ensuresD [OF pre_filter_ensures [OF p]]
      safe_send_upstream [OF p]
    by (fastforce intro: safe_resp_store split: prod.split)
qed (simp add: process_def)

section \<open>Properties\<close>

text \<open>
  C2. No query makes \<^verbatim>\<open>responder::process\<close> read or write outside of a buffer: whatever bytes a client
  sends, whatever is in the cache, the filters, the hosts file and the list of providers, handling
  the query ends with a result or an exception.
\<close>

theorem process_memory_safe:
  assumes "wf_packet msg"
  shows "safe (process env connect msg r)"
  using assms by (rule process_safe)

theorem process_memory_safe_witness:
  "let p = packet_of [0, 7, 1, 0, 0, 1, 0, 0, 0, 0, 0, 0, 63, 97, 0, 0, 1];
       env = \<lparr>e_lib = \<lparr>inet_pton = \<lambda>_ _. None, inet_ntop = \<lambda>_ _. []\<rparr>, e_now = 0, e_rand = 0, e_log = 7\<rparr>
   in safe (process env (\<lambda>_. True) p default_responder)
      \<and> process env (\<lambda>_. True) p default_responder
        = Inl (Runtime_error ''DNS label is outside of message bounds'')"
  unfolding Let_def
  by (intro conjI process_memory_safe)
    (simp_all add: process_def pre_filter_def parse_eval is_dns_def wf_packet_def
      del: ebind_eq_Inr_iff cong: ebind_weak_cong)

end
