(* ===== verification/Responder_Policy.thy ===== *)
theory Responder_Policy
  imports Responder_Safety
begin

text \<open>
  What \<^verbatim>\<open>dns::responder::process\<close> decides: an abstract policy, over the words of the filters instead
  of their search structures, which \<^verbatim>\<open>process\<close> implements; and the list of pending requests.
\<close>

section \<open>Names of questions\<close>

lemma reads_name_dots:
  "reads_name p off owner e name \<Longrightarrow> owner = [] \<or> (\<exists>l c. owner = l @ [c] @ ''.'' \<and> is_dns_char c)
   \<Longrightarrow> name = [] \<or> (\<exists>l c. name = l @ [c] @ ''.'' \<and> is_dns_char c)"
proof (induction rule: reads_name.induct)
  case (rn_label off n label owner e name)
  have "label \<noteq> []" using rn_label(1-6) by (auto simp: rn_label(7) slice_def)
  then obtain l c where "label = l @ [c]" by (metis rev_exhaust)
  then have "owner @ label @ ''.'' = (owner @ l) @ [c] @ ''.'' \<and> is_dns_char c"
    using rn_label(8) by simp
  then show ?case using rn_label.IH by blast
qed auto

lemma question_name:
  assumes "wf_packet p" "get_question p = Inr (owner, cls, typ)"
  shows "owner = [] \<or> (\<exists>l c. owner = l @ [c] @ ''.'' \<and> is_dns_char c)" "length owner \<le> 256"
proof -
  from assms(2) obtain o1 rr where "get_rr_question p 12 = Inr (o1, owner, rr)"
    by (auto simp: get_question_def split: if_splits)
  then obtain o2 where "get_rr_name p 12 = Inr (o2, owner)"
    by (auto simp: get_rr_question_def split: if_splits)
  then have rn: "reads_name p 12 [] o2 owner" by (auto simp: get_rr_name_iff assms(1))
  show "owner = [] \<or> (\<exists>l c. owner = l @ [c] @ ''.'' \<and> is_dns_char c)"
    using reads_name_dots [OF rn] by simp
  show "length owner \<le> 256"
    using reads_name_length [OF rn] by (simp add: max_host_name_length_def)
qed

lemma normalize_question_name:
  assumes "wf_packet p" "get_question p = Inr (owner, cls, typ)"
  shows "normalize_host (strip_dot owner) =
    (if owner = [] then Inl (Runtime_error ''too short host name'')
     else Inr (ascii_tolower (strip_dot owner)))"
  using question_name [OF assms]
  by (auto simp: strip_dot_def normalize_host_def MAX_QNAME_LENGTH_def butlast_append
      dest: dot_not_dns_char)

section \<open>The policy\<close>

definition blocked :: "responder \<Rightarrow> string \<Rightarrow> u16 \<Rightarrow> bool" where
  "blocked r name qtype \<longleftrightarrow>
     (\<not> filter_empty (whitelist r) \<and> \<not> scan (whitelist r) (ascii_tolower name))
     \<or> scan (blacklist r) (ascii_tolower name) \<or> (noipv6 r \<and> qtype = type_aaaa)"

definition is_onion :: "string \<Rightarrow> bool" where
  "is_onion name \<longleftrightarrow> (\<exists>s. s \<noteq> [] \<and> name = s @ ''.onion'')"

definition eligible :: "responder \<Rightarrow> string \<Rightarrow> provider_ref \<Rightarrow> bool" where
  "eligible r name ref =
     (case ref of
        Onion \<Rightarrow> onion_provider r \<noteq> None \<and> is_onion name
      | Provider i \<Rightarrow> i < length (dns_providers r) \<and> \<not> (onion_provider r \<noteq> None \<and> is_onion name))"

text \<open>The outcomes the policy allows for a message, given what the cache returns.\<close>

inductive policy :: "env \<Rightarrow> (provider_ref \<Rightarrow> bool) \<Rightarrow> responder \<Rightarrow> packet \<Rightarrow> outcome \<Rightarrow> bool"
  for env connect r where
  drop_bad: "\<not> is_dns msg \<Longrightarrow> policy env connect r msg Dropped"
| refuse: "\<lbrakk>is_dns msg; get_question msg = Inr (owner, cls, qtype); owner \<noteq> [];
    blocked r (strip_dot owner) qtype; mark_refused msg = Inr resp\<rbrakk>
    \<Longrightarrow> policy env connect r msg (Responded resp)"
| cached: "\<lbrakk>is_dns msg; get_question msg = Inr (owner, cls, qtype); owner \<noteq> [];
    \<not> blocked r (strip_dot owner) qtype; retrieve (e_now env) (r_cache r) msg = Inr (Some resp)\<rbrakk>
    \<Longrightarrow> policy env connect r msg (Responded resp)"
| from_hosts: "\<lbrakk>is_dns msg; get_question msg = Inr (owner, cls, qtype); owner \<noteq> [];
    \<not> blocked r (strip_dot owner) qtype; retrieve (e_now env) (r_cache r) msg = Inr None;
    hosts_response (r_hosts r) (strip_dot owner) = ip; ip \<noteq> [];
    set_answer (e_lib env) ip msg = Inr resp\<rbrakk>
    \<Longrightarrow> policy env connect r msg (Responded resp)"
| forward: "\<lbrakk>is_dns msg; get_question msg = Inr (owner, cls, qtype); owner \<noteq> [];
    \<not> blocked r (strip_dot owner) qtype; retrieve (e_now env) (r_cache r) msg = Inr None;
    hosts_response (r_hosts r) (strip_dot owner) = []; eligible r (strip_dot owner) ref; connect ref\<rbrakk>
    \<Longrightarrow> policy env connect r msg (Forwarded ref msg)"
| fail: "\<lbrakk>is_dns msg; get_question msg = Inr (owner, cls, qtype); owner \<noteq> [];
    \<not> blocked r (strip_dot owner) qtype; retrieve (e_now env) (r_cache r) msg = Inr None;
    hosts_response (r_hosts r) (strip_dot owner) = [];
    (\<forall>ref. \<not> eligible r (strip_dot owner) ref) \<or> (\<exists>ref. eligible r (strip_dot owner) ref \<and> \<not> connect ref);
    mark_servfail msg = Inr resp\<rbrakk>
    \<Longrightarrow> policy env connect r msg (Responded resp)"

lemmas policy_rules = refuse cached from_hosts forward fail

lemma filter_pass_blocked:
  assumes "wf_filter (whitelist r)" "wf_filter (blacklist r)" "wf_packet p"
    "get_question p = Inr (owner, cls, qtype)"
  shows "filter_pass r (strip_dot owner) qtype =
    (if owner = [] then Inl (Runtime_error ''too short host name'')
     else Inr (\<not> blocked r (strip_dot owner) qtype))"
  using assms(1,2) normalize_question_name [OF assms(3,4)]
  by (auto simp: filter_pass_def filter_match_def blocked_def match_low_scan)

lemma hostname_question:
  assumes "wf_packet p" "get_question p = Inr (owner, cls, qtype)"
  shows "hostname p = Inr (strip_dot owner)"
  using assms question_name [OF assms]
  by (auto simp: hostname_def strip_dot_def)

lemma is_onion_iff: "is_onion name \<longleftrightarrow> length name > 6 \<and> drop (length name - 6) name = ''.onion''"
proof
  assume a: "length name > 6 \<and> drop (length name - 6) name = ''.onion''"
  then have "name = take (length name - 6) name @ ''.onion''" by (metis append_take_drop_id)
  moreover have "take (length name - 6) name \<noteq> []" using a by auto
  ultimately show "is_onion name" unfolding is_onion_def by blast
qed (auto simp: is_onion_def)

lemma random_provider_eligible:
  assumes "wf_packet p" "get_question p = Inr (owner, cls, qtype)"
    "length (dns_providers r) \<le> rand_max"
  obtains ref i where "random_provider env p r = Inr (ref, r\<lparr>random_provider_idx := i\<rparr>)"
    "case ref of None \<Rightarrow> \<forall>ref. \<not> eligible r (strip_dot owner) ref
     | Some ref \<Rightarrow> eligible r (strip_dot owner) ref"
proof -
  let ?onion = "onion_provider r \<noteq> None \<and> is_onion (strip_dot owner)"
  have z: "zone_provider p r = Inr (if ?onion then Some Onion else None)"
    using hostname_question [OF assms(1,2)]
    by (auto simp: zone_provider_def is_onion_iff split: option.split)
  have same: "r = r\<lparr>random_provider_idx := random_provider_idx r\<rparr>" by simp
  consider (o) ?onion | (n) "\<not> ?onion" "dns_providers r = []" | (p) "\<not> ?onion" "dns_providers r \<noteq> []"
    by blast
  then show thesis
  proof cases
    case o
    show ?thesis
      by (rule that [of "Some Onion" "random_provider_idx r"])
        (use o z in \<open>simp_all add: random_provider_def eligible_def\<close>)
  next
    case n
    show ?thesis
      by (rule that [of None "random_provider_idx r"])
        (use n z in \<open>auto simp: random_provider_def eligible_def split: provider_ref.split\<close>)
  next
    case p
    let ?i = "e_rand env mod length (dns_providers r)"
    have "?i < length (dns_providers r)" "\<not> length (dns_providers r) \<le> ?i"
      using p by (simp_all add: not_le)
    then show ?thesis
      by (intro that [of "Some (Provider ?i)" ?i])
        (use p z assms(3) in \<open>simp_all add: random_provider_def select_random_provider_def eligible_def Let_def\<close>)
  qed
qed

lemma eligible_update [simp]:
  "eligible (r\<lparr>processed_count := n\<rparr>) name = eligible r name"
  "blocked (r\<lparr>processed_count := n\<rparr>) name qtype = blocked r name qtype"
  by (simp_all add: eligible_def blocked_def fun_eq_iff split: provider_ref.split)

text \<open>\<^verbatim>\<open>process\<close> on every branch, for a question that has a name and whose class can be logged.\<close>

definition regular :: "env \<Rightarrow> responder \<Rightarrow> packet \<Rightarrow> string \<Rightarrow> u16 \<Rightarrow> bool" where
  "regular env r msg owner qtype \<longleftrightarrow> wf_filter (whitelist r) \<and> wf_filter (blacklist r)
     \<and> wf_packet msg \<and> is_dns msg \<and> owner \<noteq> []
     \<and> (\<exists>cls. get_question msg = Inr (owner, cls, qtype) \<and> log_class env cls = Inr ())"

abbreviation counted :: "responder \<Rightarrow> responder" where
  "counted r \<equiv> r\<lparr>processed_count := processed_count r + 1\<rparr>"

lemma pre_filter_eq:
  assumes "regular env r p owner qtype"
  shows "pre_filter env p r =
    (if blocked r (strip_dot owner) qtype then
       ebind (mark_refused p) (\<lambda>q. Inr (1, q, r\<lparr>blacklisted_count := blacklisted_count r + 1\<rparr>))
     else ebind (retrieve (e_now env) (r_cache r) p) (\<lambda>cr.
       case cr of
         Some m \<Rightarrow> Inr (1, m, r\<lparr>cached_count := cached_count r + 1\<rparr>)
       | None \<Rightarrow>
           if hosts_response (r_hosts r) (strip_dot owner) \<noteq> [] then
             ebind (set_answer (e_lib env) (hosts_response (r_hosts r) (strip_dot owner)) p)
               (\<lambda>q. Inr (2, q, r))
           else Inr (0, p, r)))"
  using assms filter_pass_blocked [of r p owner _ qtype]
  by (auto simp: regular_def pre_filter_def Let_def simp del: ebind_eq_Inr_iff intro!: ebind_cong
      split: option.split)

lemma process_eq:
  assumes "regular env r msg owner qtype"
  shows "process env connect msg r =
    (if blocked r (strip_dot owner) qtype then
       ebind (mark_refused msg) (\<lambda>q.
         Inr (Responded q, (counted r)\<lparr>blacklisted_count := blacklisted_count r + 1\<rparr>))
     else ebind (retrieve (e_now env) (r_cache r) msg) (\<lambda>cr.
       case cr of
         Some m \<Rightarrow> Inr (Responded m, (counted r)\<lparr>cached_count := cached_count r + 1\<rparr>)
       | None \<Rightarrow>
           if hosts_response (r_hosts r) (strip_dot owner) \<noteq> [] then
             ebind (set_answer (e_lib env) (hosts_response (r_hosts r) (strip_dot owner)) msg)
               (\<lambda>q. ebind (resp_store env q (counted r)) (\<lambda>r'. Inr (Responded q, r')))
           else send_upstream env connect msg (counted r)))"
proof -
  have "regular env (counted r) msg owner qtype" using assms by (simp add: regular_def)
  from pre_filter_eq [OF this] show ?thesis
    using assms unfolding process_def regular_def Let_def
    by (auto simp: ebind_assoc simp del: ebind_eq_Inr_iff intro!: ebind_cong split: option.split)
qed

lemma process_regular:
  assumes "wf_filter (whitelist r)" "wf_filter (blacklist r)" "wf_packet msg" "is_dns msg"
    "process env connect msg r = Inr x"
  obtains owner qtype where "regular env r msg owner qtype"
proof -
  from assms obtain owner cls qtype where q: "get_question msg = Inr (owner, cls, qtype)"
    by (auto simp: process_def pre_filter_def Let_def)
  have "owner \<noteq> [] \<and> log_class env cls = Inr ()"
    using filter_pass_blocked [of "counted r" msg owner cls qtype] assms q
    by (cases "log_class env cls") (auto simp: process_def pre_filter_def Let_def split: if_splits)
  then show thesis using assms q by (intro that) (auto simp: regular_def)
qed

lemma send_upstream_policy:
  assumes "wf_packet msg" "get_question msg = Inr (owner, cls, qtype)"
    "length (dns_providers r) \<le> rand_max"
  obtains (sent) ref i where "eligible r (strip_dot owner) ref" "connect ref"
      "send_upstream env connect msg r = (let r' = collect_requests (r\<lparr>random_provider_idx := i\<rparr>) in
         Inr (Forwarded ref msg, r'\<lparr>upstream_requests :=
           upstream_requests r' @ [\<lparr>ur_message = msg, ur_active = True\<rparr>]\<rparr>))"
  | (failed) ref i where "eligible r (strip_dot owner) ref" "\<not> connect ref"
      "send_upstream env connect msg r = ebind (mark_servfail msg) (\<lambda>resp.
         Inr (Responded resp, increment_failures ref (collect_requests (r\<lparr>random_provider_idx := i\<rparr>))))"
  | (none) i where "\<And>ref. \<not> eligible r (strip_dot owner) ref"
      "send_upstream env connect msg r = ebind (mark_servfail msg) (\<lambda>resp.
         Inr (Responded resp, r\<lparr>random_provider_idx := i\<rparr>))"
proof (rule random_provider_eligible [OF assms, of env])
  fix ref i assume *: "random_provider env msg r = Inr (ref, r\<lparr>random_provider_idx := i\<rparr>)"
    "case ref of None \<Rightarrow> \<forall>ref. \<not> eligible r (strip_dot owner) ref
     | Some ref \<Rightarrow> eligible r (strip_dot owner) ref"
  show thesis
  proof (cases ref)
    case None
    then show ?thesis using * by (intro none [of i]) (simp_all add: send_upstream_def)
  next
    case (Some p)
    then show ?thesis
      using * sent [of p i] failed [of p i] by (cases "connect p") (simp_all add: send_upstream_def Let_def)
  qed
qed

section \<open>Properties\<close>

text \<open>
  C1. \<^verbatim>\<open>process\<close> implements the policy: a message is dropped only if it is not a DNS query; a name
  that the white or black list or the IPv6 setting blocks is refused; an unblocked name is answered
  from the cache, else from the hosts file, else forwarded unchanged to an eligible provider: the
  onion provider exactly for names below \<^verbatim>\<open>.onion\<close>, any of the list for the others; a failure is
  reported to the client if there is no such provider or it cannot be connected.  The filters are
  those of a linear scan of their words.
\<close>

theorem process_refines_policy:
  assumes "wf_filter (whitelist r)" "wf_filter (blacklist r)" "wf_packet msg"
    "length (dns_providers r) \<le> rand_max" "process env connect msg r = Inr (out, r')"
  shows "policy env connect r msg out"
proof (cases "is_dns msg")
  case True
  obtain owner qtype where reg: "regular env r msg owner qtype"
    by (rule process_regular [OF assms(1-3) True assms(5)])
  then obtain cls where q: "get_question msg = Inr (owner, cls, qtype)" and owner: "owner \<noteq> []"
    by (auto simp: regular_def)
  note eq = assms(5) [unfolded process_eq [OF reg]] and rules = policy_rules [OF True q owner]
  show ?thesis
  proof (cases "blocked r (strip_dot owner) qtype")
    case True
    then show ?thesis using eq by (auto intro: rules(1))
  next
    case nb: False
    then obtain cr where cr: "retrieve (e_now env) (r_cache r) msg = Inr cr" using eq by auto
    consider (c) m where "cr = Some m" | (h) "cr = None" "hosts_response (r_hosts r) (strip_dot owner) \<noteq> []"
      | (u) "cr = None" "hosts_response (r_hosts r) (strip_dot owner) = []"
      by (cases cr) auto
    then show ?thesis
    proof cases
      case c
      then show ?thesis using eq nb cr by (auto intro: rules(2))
    next
      case h
      then show ?thesis using eq nb cr by (auto intro: rules(3) [OF nb _ refl])
    next
      case u
      with eq nb cr have su: "send_upstream env connect msg (counted r) = Inr (out, r')" by simp
      note up = rules(4,5) [OF nb cr [unfolded u] u(2)]
      show ?thesis
        by (rule send_upstream_policy [OF assms(3) q, of "counted r" connect env])
          (use su assms(4) in \<open>auto simp: Let_def intro: up\<close>)
    qed
  qed
qed (use assms(5) in \<open>auto simp: process_def intro: drop_bad\<close>)

text \<open>A responder with one provider and a black list, and a query for the address of \<^verbatim>\<open>a\<close>.\<close>

definition no_lib :: inet_lib where
  "no_lib = \<lparr>inet_pton = (\<lambda>_ _. None), inet_ntop = (\<lambda>_ _. [])\<rparr>"

definition sample_env :: env where
  "sample_env = \<lparr>e_lib = no_lib, e_now = 1000, e_rand = 5, e_log = 7\<rparr>"

definition sample_responder :: responder where
  "sample_responder = default_responder\<lparr>blacklist := empty_filter\<lparr>f_exact := [''b'']\<rparr>,
     dns_providers := [\<lparr>p_address = \<lparr>a_inet = ipv4, a_ip = [8, 8, 8, 8], a_port = 53\<rparr>, p_proto = udp,
       p_failures = 0\<rparr>]\<rparr>"

definition sample_query :: packet where
  "sample_query = packet_of [0, 7, 1, 0, 0, 1, 0, 0, 0, 0, 0, 0, 1, 97, 0, 0, 1, 0, 1]"

lemma sample_query_facts:
  "wf_packet sample_query" "is_dns sample_query" "get_question sample_query = Inr (''a.'', 1, 1)"
  by (simp_all add: sample_query_def parse_eval is_dns_def wf_packet_def cong: ebind_weak_cong)

lemma sample_responder_wf: "wf_filter (whitelist sample_responder)" "wf_filter (blacklist sample_responder)"
  by (simp_all add: sample_responder_def default_responder_def new_responder_def wf_filter_def
      empty_filter_def wf_words_def)

lemma sample_regular: "regular sample_env sample_responder sample_query ''a.'' 1"
  using sample_query_facts sample_responder_wf
  by (simp add: regular_def log_class_def rr_class_cstr_def)

lemmas responder_eval = sample_responder_def default_responder_def new_responder_def empty_filter_def
  filter_empty_def

lemma sample_not_blocked: "\<not> blocked sample_responder (strip_dot ''a.'') 1"
  by (simp add: blocked_def responder_eval strip_dot_def scan_def rule_matches_def ascii_tolower_def
      to_lower_def)

lemma sample_miss: "retrieve (e_now sample_env) (r_cache sample_responder) sample_query = Inr None"
  "hosts_response (r_hosts sample_responder) s = []"
  by (simp_all add: retrieve_def sample_query_facts responder_eval cache_find_def hosts_response_def
      del: ebind_eq_Inr_iff)

lemma sample_process:
  "process sample_env (\<lambda>_. True) sample_query sample_responder
    = Inr (Forwarded (Provider 0) sample_query, sample_responder\<lparr>processed_count := 1,
        random_provider_idx := 0, upstream_requests := [\<lparr>ur_message = sample_query, ur_active = True\<rparr>]\<rparr>)"
  unfolding process_eq [OF sample_regular]
  using sample_not_blocked sample_miss
  by (simp add: send_upstream_def random_provider_def zone_provider_def select_random_provider_def
      collect_requests_def rand_max_def responder_eval Let_def del: ebind_eq_Inr_iff)

theorem process_refines_policy_witness:
  "policy sample_env (\<lambda>_. True) sample_responder sample_query (Forwarded (Provider 0) sample_query)"
  by (rule process_refines_policy [OF sample_responder_wf sample_query_facts(1) _ sample_process])
    (simp add: responder_eval rand_max_def)



text \<open>
  A blocked name is refused without a trace: the client gets its own query back as a response
  with the code REFUSED (same id, same question, same bytes behind the header), nothing is sent to
  a provider, and of the state of the responder only two counters change; in particular the refusal
  is not cached and does not depend on the cache, the hosts file or the providers.
\<close>

theorem blocked_query_is_refused:
  assumes "regular env r msg owner qtype" "header msg = Inr h" "blocked r (strip_dot owner) qtype"
  shows "\<exists>resp. process env connect msg r = Inr (Responded resp,
      r\<lparr>processed_count := processed_count r + 1, blacklisted_count := blacklisted_count r + 1\<rparr>)
    \<and> updates_header msg (Inr resp) (h\<lparr>h_rcode := rcode_word refused, h_qr := True\<rparr>)
    \<and> get_question resp = get_question msg"
proof -
  obtain resp where resp: "mark_refused msg = Inr resp"
    using mark_refused_updates [OF assms(2)] by (auto elim: updates_headerD)
  have u: "updates_header msg (Inr resp) (h\<lparr>h_rcode := rcode_word refused, h_qr := True\<rparr>)"
    using mark_refused_updates [OF assms(2)] resp by simp
  have "get_question resp = get_question msg"
    using get_question_updates_header [OF _ assms(2) u] assms(1) by (auto simp: regular_def)
  then show ?thesis
    using u resp assms(3) by (simp add: process_eq [OF assms(1)])
qed

theorem blocked_query_is_refused_witness:
  "\<exists>resp. process sample_env (\<lambda>_. True) sample_query (sample_responder\<lparr>blacklist := empty_filter\<lparr>f_exact := [''a'']\<rparr>\<rparr>)
      = Inr (Responded resp, sample_responder\<lparr>blacklist := empty_filter\<lparr>f_exact := [''a'']\<rparr>,
          processed_count := 1, blacklisted_count := 1\<rparr>)
    \<and> get_question resp = Inr (''a.'', 1, 1)"
proof -
  let ?r = "sample_responder\<lparr>blacklist := empty_filter\<lparr>f_exact := [''a'']\<rparr>\<rparr>"
  obtain h where h: "header sample_query = Inr h"
    by (simp add: sample_query_def packet_of_def header_eq)
  have "regular sample_env ?r sample_query ''a.'' 1"
    using sample_regular by (simp add: regular_def wf_filter_def empty_filter_def wf_words_def)
  moreover have "blocked ?r (strip_dot ''a.'') 1"
    by (simp add: blocked_def responder_eval strip_dot_def scan_def rule_matches_def ascii_tolower_def
      to_lower_def)
  ultimately show ?thesis
    using blocked_query_is_refused [of sample_env ?r sample_query "''a.''" 1 h "\<lambda>_. True"] h
      sample_query_facts(3) by (auto simp: responder_eval)
qed

lemma root_query_throws:
  assumes "is_dns msg" "get_question msg = Inr ([], cls, qtype)"
  shows "process env connect msg r = Inl (Runtime_error ''too short host name'')"
proof -
  have "filter_match f [] = Inl (Runtime_error ''too short host name'')" for f
    by (simp add: filter_match_def normalize_host_def)
  then show ?thesis
    using assms by (simp add: process_def pre_filter_def filter_pass_def strip_dot_def Let_def del: ebind_eq_Inr_iff)
qed

text \<open>
  Two kinds of legitimate DNS queries make \<^verbatim>\<open>process\<close> throw instead of answering, whatever the
  configuration: a query for the root name (in the filters, which reject the empty string; also with
  empty filters), and, if informational messages are logged, a query of a class without a
  name (in the log).  Each is counted as processed, but the client gets no response.
\<close>

theorem irregular_query_throws:
  assumes "is_dns msg" "get_question msg = Inr (owner, cls, qtype)"
  shows "(owner = [] \<longrightarrow> process env connect msg r = Inl (Runtime_error ''too short host name''))
    \<and> (wf_packet msg \<and> owner \<noteq> [] \<and> rr_class_cstr cls = Inl e \<and> severity_info \<le> e_log env
       \<and> wf_filter (whitelist r) \<and> wf_filter (blacklist r)
       \<longrightarrow> process env connect msg r = Inl e)"
proof (intro conjI impI)
  assume "owner = []"
  then show "process env connect msg r = Inl (Runtime_error ''too short host name'')"
    using assms root_query_throws by blast
next
  assume a: "wf_packet msg \<and> owner \<noteq> [] \<and> rr_class_cstr cls = Inl e \<and> severity_info \<le> e_log env
       \<and> wf_filter (whitelist r) \<and> wf_filter (blacklist r)"
  then have "filter_pass (counted r) (strip_dot owner) qtype = Inr (\<not> blocked r (strip_dot owner) qtype)"
    using filter_pass_blocked [of "counted r" msg owner cls qtype] assms by simp
  then show "process env connect msg r = Inl e"
    using assms a by (simp add: process_def pre_filter_def log_class_def Let_def del: ebind_eq_Inr_iff)
qed

theorem irregular_query_throws_witness:
  "process sample_env (\<lambda>_. True) (packet_of [0, 7, 1, 0, 0, 1, 0, 0, 0, 0, 0, 0, 0, 0, 2, 0, 1]) sample_responder
     = Inl (Runtime_error ''too short host name'')"
proof -
  let ?p = "packet_of [0, 7, 1, 0, 0, 1, 0, 0, 0, 0, 0, 0, 0, 0, 2, 0, 1]"
  have "is_dns ?p" by (simp add: packet_of_def is_dns_def)
  moreover have "get_question ?p = Inr ([], 1, 2)" by (simp add: parse_eval cong: ebind_weak_cong)
  ultimately show ?thesis using irregular_query_throws [of ?p "[]" 1 2] by blast
qed

section \<open>Pending requests\<close>

lemma garbage_loop_subseq: "subseq (garbage_loop active reqs i lst) reqs"
proof (induction active reqs i lst rule: garbage_loop.induct)
  case (1 active reqs i lst)
  have "suffix (drop (i + 1) reqs) (drop i reqs)"
    using suffix_drop [of 1 "drop i reqs"] by simp
  then have "subseq (take i reqs @ drop (i + 1) reqs) (take i reqs @ drop i reqs)"
    by (intro list_emb_append_mono suffix_imp_subseq subseq_order.order_refl)
  then have e: "subseq (take i reqs @ drop (i + 1) reqs) reqs" by simp
  have t: "subseq (take n reqs) reqs" for n
    by (metis take_is_prefix prefix_imp_subseq)
  show ?case
    using 1 subseq_order.order_trans [OF _ e] t by (subst garbage_loop.simps) auto
qed

lemma garbage_loop_active_prefix:
  "list_all active xs \<Longrightarrow>
   garbage_loop active (xs @ ys) 0 0 = garbage_loop active (xs @ ys) (length xs) (length xs)"
proof (induction xs arbitrary: ys rule: rev_induct)
  case (snoc x xs)
  then have "garbage_loop active (xs @ x # ys) 0 0 = garbage_loop active (xs @ x # ys) (length xs) (length xs)"
    by simp
  also have "\<dots> = garbage_loop active (xs @ x # ys) (length xs + 1) (length xs + 1)"
    using snoc.prems by (subst garbage_loop.simps) simp
  finally show ?case by simp
qed simp

lemma garbage_loop_loses:
  assumes "list_all active xs" "\<not> active c"
  shows "garbage_loop active (xs @ [c, n]) 0 0 = xs"
proof -
  have "garbage_loop active (xs @ [c, n]) (length xs) (length xs)
      = garbage_loop active (xs @ [n]) (length xs + 1) (length xs)"
    using assms by (subst garbage_loop.simps) simp
  also have "\<dots> = xs" by (subst garbage_loop.simps) simp
  finally show ?thesis using garbage_loop_active_prefix [OF assms(1)] by simp
qed

text \<open>
  \<^verbatim>\<open>collect_garbage\<close> of the responder removes requests but also loses some that are still active:
  its result is a subsequence of the list, and it is the whole list if every request is active; but
  if the last but one request is the only closed one, then the last request is removed with it,
  although it is active.  The loop does not examine the element behind an erased one, and the final
  \<^verbatim>\<open>resize\<close> cuts the list behind the last element found active.
\<close>

theorem collect_requests_loses_active_request:
  "subseq (upstream_requests (collect_requests r)) (upstream_requests r)
   \<and> (list_all ur_active (upstream_requests r) \<longrightarrow> collect_requests r = r)
   \<and> (list_all ur_active reqs \<and> \<not> ur_active closed \<longrightarrow>
       upstream_requests (collect_requests (r\<lparr>upstream_requests := reqs @ [closed, newest]\<rparr>)) = reqs)"
proof (intro conjI impI)
  show "subseq (upstream_requests (collect_requests r)) (upstream_requests r)"
    by (simp add: collect_requests_def garbage_loop_subseq)
next
  assume "list_all ur_active (upstream_requests r)"
  then have "garbage_loop ur_active (upstream_requests r) 0 0 = upstream_requests r"
    using garbage_loop_active_prefix [of ur_active "upstream_requests r" "[]"]
    by (simp add: garbage_loop.simps)
  then show "collect_requests r = r" by (simp add: collect_requests_def)
next
  assume "list_all ur_active reqs \<and> \<not> ur_active closed"
  then show "upstream_requests (collect_requests (r\<lparr>upstream_requests := reqs @ [closed, newest]\<rparr>)) = reqs"
    using garbage_loop_loses [of ur_active reqs closed newest] by (simp add: collect_requests_def)
qed

theorem collect_requests_loses_active_request_witness:
  "let a = \<lparr>ur_message = sample_query, ur_active = True\<rparr>; c = \<lparr>ur_message = sample_query, ur_active = False\<rparr>
   in upstream_requests (collect_requests (sample_responder\<lparr>upstream_requests := [a, c, a]\<rparr>)) = [a]"
  using collect_requests_loses_active_request [of sample_responder
      "[\<lparr>ur_message = sample_query, ur_active = True\<rparr>]" "\<lparr>ur_message = sample_query, ur_active = False\<rparr>"
      "\<lparr>ur_message = sample_query, ur_active = True\<rparr>"]
  by (simp add: Let_def)

end
