(* ===== verification/Responder_Run.thy ===== *)
theory Responder_Run
  imports Responder_Policy
begin

text \<open>
  The life of a \<^verbatim>\<open>dns::responder\<close>: it is constructed, queries and answers arrive, requests end, and
  the configuration is reloaded, in any order.
\<close>

section \<open>Runs\<close>

definition close_request :: "nat \<Rightarrow> responder \<Rightarrow> responder" where
  "close_request i r =
     (if i < length (upstream_requests r) then
        r\<lparr>upstream_requests := (upstream_requests r)[i := (upstream_requests r ! i)\<lparr>ur_active := False\<rparr>]\<rparr>
      else r)"

inductive responder_run :: "responder \<Rightarrow> bool" where
  run_start: "start_responder env None params = Inr r \<Longrightarrow> responder_run r"
| run_query: "responder_run r \<Longrightarrow> process env connect msg r = Inr (out, r') \<Longrightarrow> responder_run r'"
| run_answer: "responder_run r \<Longrightarrow> pass_answer_downstream env answer r = Inr (out, r') \<Longrightarrow> responder_run r'"
| run_close: "responder_run r \<Longrightarrow> responder_run (close_request i r)"
| run_reload: "responder_run r \<Longrightarrow> reload lib params r = Inr r' \<Longrightarrow> responder_run r'"

section \<open>The invariant\<close>

definition wf_responder :: "responder \<Rightarrow> bool" where
  "wf_responder r \<longleftrightarrow> wf_cache (r_cache r) \<and> wf_filter (whitelist r) \<and> wf_filter (blacklist r)
     \<and> length (upstream_requests r) + blacklisted_count r + cached_count r \<le> processed_count r"

lemma merge_all_wf: "merge_all ts f = Inr g \<Longrightarrow> wf_filter f \<Longrightarrow> wf_filter g"
  by (induction ts arbitrary: f) (auto dest: wf_filter_of_text simp: merge_match_low)

lemma wf_reload: "reload lib params r = Inr r' \<Longrightarrow> wf_responder r \<Longrightarrow> wf_responder r'"
  by (auto simp: reload_def wf_responder_def dest!: merge_all_wf)

lemma wf_store: "store t msg c = Inr c' \<Longrightarrow> wf_cache c \<Longrightarrow> wf_cache c'"
  by (erule store_cases) (simp_all add: wf_replace_entry)

lemma wf_resp_store: "resp_store env msg r = Inr r' \<Longrightarrow> wf_responder r \<Longrightarrow> wf_responder r'"
  by (auto simp: resp_store_def wf_responder_def Let_def wf_store)

lemma wf_start:
  assumes "start_responder env None params = Inr r"
  shows "wf_responder r"
proof -
  let ?r0 = "new_responder (new_cache (rp_min_ttl params)) (rp_cachedir params) (rp_noipv6 params) None"
  have "reload (e_lib env) params ?r0 = Inr r" using assms by (simp add: start_responder_def split: if_splits)
  moreover have "wf_responder ?r0" by (simp add: wf_responder_def new_responder_def wf_new_cache)
  ultimately show ?thesis by (rule wf_reload)
qed

lemma length_garbage_loop: "length (garbage_loop active reqs i lst) \<le> length reqs"
  using garbage_loop_subseq by (rule list_emb_length)

lemma increment_failures_fields [simp]:
  "r_cache (increment_failures ref r) = r_cache r" "whitelist (increment_failures ref r) = whitelist r"
  "blacklist (increment_failures ref r) = blacklist r"
  "upstream_requests (increment_failures ref r) = upstream_requests r"
  "blacklisted_count (increment_failures ref r) = blacklisted_count r"
  "cached_count (increment_failures ref r) = cached_count r"
  "processed_count (increment_failures ref r) = processed_count r"
  by (simp_all add: increment_failures_def split: provider_ref.split)

lemma random_provider_state:
  assumes "random_provider env msg r = Inr (ref, r')"
  shows "\<exists>i. r' = r\<lparr>random_provider_idx := i\<rparr>"
proof -
  have "\<exists>i. r = r\<lparr>random_provider_idx := i\<rparr>" by (rule exI [of _ "random_provider_idx r"]) simp
  moreover have "r' = r \<or> (\<exists>i. r' = r\<lparr>random_provider_idx := i\<rparr>)"
    using assms
    by (auto simp: random_provider_def select_random_provider_def Let_def split: option.splits if_splits)
  ultimately show ?thesis by blast
qed

lemma wf_send_upstream:
  assumes "send_upstream env connect msg (counted r) = Inr (out, r')" "wf_responder r"
  shows "wf_responder r'"
proof -
  from assms(1) obtain ref r1 where "random_provider env msg (counted r) = Inr (ref, r1)"
    by (auto simp: send_upstream_def)
  then obtain i where i: "random_provider env msg (counted r) = Inr (ref, (counted r)\<lparr>random_provider_idx := i\<rparr>)"
    using random_provider_state by blast
  show ?thesis
    using assms i length_garbage_loop [of ur_active "upstream_requests r" 0 0]
    by (auto simp: send_upstream_def Let_def wf_responder_def collect_requests_def
        split: option.splits if_splits)
qed

lemma pre_filter_state:
  assumes "pre_filter env msg r = Inr (fr, q, r')"
  shows "r' = r\<lparr>blacklisted_count := blacklisted_count r + 1\<rparr> \<and> fr = 1
    \<or> r' = r\<lparr>cached_count := cached_count r + 1\<rparr> \<and> fr = 1 \<or> r' = r"
proof -
  from assms obtain owner pass where pass: "(if \<not> pass then
         ebind (mark_refused msg) (\<lambda>q'. Inr (1, q', r\<lparr>blacklisted_count := blacklisted_count r + 1\<rparr>))
       else
         ebind (retrieve (e_now env) (r_cache r) msg) (\<lambda>cr.
           case cr of
             Some m \<Rightarrow> Inr (1, m, r\<lparr>cached_count := cached_count r + 1\<rparr>)
           | None \<Rightarrow>
               if hosts_response (r_hosts r) owner \<noteq> [] then
                 ebind (set_answer (e_lib env) (hosts_response (r_hosts r) owner) msg) (\<lambda>q'. Inr (2, q', r))
               else Inr (0, msg, r))) = Inr (fr, q, r')"
    unfolding pre_filter_def ebind_eq_Inr_iff Let_def split_beta
    by (elim exE conjE) (rule that, assumption)
  show ?thesis
  proof (cases pass)
    case True
    with pass obtain cr where cr: "retrieve (e_now env) (r_cache r) msg = Inr cr" by auto
    show ?thesis
      using pass True cr by (cases cr) (auto split: if_splits)
  next
    case False
    with pass show ?thesis by auto
  qed
qed

lemma wf_pre_filter:
  assumes "pre_filter env msg (counted r) = Inr (fr, q, r')" "wf_responder r"
  shows "wf_responder r' \<and> (fr \<noteq> 1 \<longrightarrow> r' = counted r)"
  using pre_filter_state [OF assms(1)] assms(2) by (auto simp: wf_responder_def)

lemma wf_process:
  assumes "process env connect msg r = Inr (out, r')" "wf_responder r"
  shows "wf_responder r'"
proof (cases "is_dns msg")
  case True
  with assms(1) obtain fr q r1 where pf: "pre_filter env msg (counted r) = Inr (fr, q, r1)"
    and eq: "(if fr = 1 then Inr (Responded q, r1)
       else if fr = 2 then ebind (resp_store env q r1) (\<lambda>r. Inr (Responded q, r))
       else send_upstream env connect msg r1) = Inr (out, r')"
    by (simp add: process_def Let_def) blast
  note w = wf_pre_filter [OF pf assms(2)]
  show ?thesis
  proof (cases "fr = 1 \<or> fr = 2")
    case True
    then show ?thesis using eq w by (auto dest: wf_resp_store split: if_splits)
  next
    case False
    then show ?thesis using eq w by (auto intro: wf_send_upstream [OF _ assms(2)])
  qed
qed (use assms in \<open>auto simp: process_def\<close>)

lemma wf_pass_answer:
  "pass_answer_downstream env answer r = Inr (out, r') \<Longrightarrow> wf_responder r \<Longrightarrow> wf_responder r'"
  by (auto simp: pass_answer_downstream_def dest: wf_resp_store split: if_splits)

section \<open>Properties\<close>


definition sample_params :: responder_parameters where
  "sample_params = \<lparr>rp_resolvers = [], rp_hosts = None, rp_onion = [], rp_cachedir = [], rp_noipv6 = False,
     rp_proto = udp, rp_min_ttl = 60, rp_whitelists = [], rp_blacklists = []\<rparr>"


end
