(* ===== verification/Socket.thy ===== *)
theory Socket
  imports Address
begin

text \<open>
  Sockets (\<^verbatim>\<open>network/socket.hxx\<close>, \<^verbatim>\<open>network/srcz/socket.cpp\<close>), the branch of the source for Unix.

  A \<^verbatim>\<open>system::socket\<close> object owns a descriptor.  The first part models the objects of the program
  and the descriptors of the process together: which objects are alive, which number each of them
  holds, which descriptors are open.  Its main result is that the move-only objects own their
  descriptors: no descriptor is shared, none is used after it is closed, none is lost.

  The second part models what one open socket does: the calls of the operating system that the
  wrappers make are given by what arrives at the socket (\<open>ep_in\<close>), by how much of each
  transmission the kernel accepts (\<open>ep_sends\<close>), by what it has accepted (\<open>ep_out\<close>) and by the
  pending error (\<open>ep_error\<close>, \<open>None\<close> when it cannot be read); \<open>ep_close\<close> is what \<^verbatim>\<open>::close\<close> will return.  A result of a system call that the
  code only tests is an argument of the definition.
\<close>

section \<open>Definitions\<close>

definition invalid_socket :: int where "invalid_socket = -1"

definition is_valid :: "int \<Rightarrow> bool" where
  "is_valid s \<longleftrightarrow> 0 \<le> s"

definition af_family :: "inet \<Rightarrow> nat" where
  "af_family af = (if af = ipv6 then 10 else 2)"

subsection \<open>Objects and descriptors\<close>

record world =
  w_objects :: "nat \<rightharpoonup> int"
  w_open :: "int set"

definition handle :: "world \<Rightarrow> nat \<Rightarrow> int" where
  "handle w i = (case w_objects w i of Some h \<Rightarrow> h | None \<Rightarrow> invalid_socket)"

definition set_handle :: "nat \<Rightarrow> int \<Rightarrow> world \<Rightarrow> world" where
  "set_handle i h w = w\<lparr>w_objects := (w_objects w)(i \<mapsto> h)\<rparr>"

definition socket_default :: "nat \<Rightarrow> world \<Rightarrow> world" where
  "socket_default i w = set_handle i invalid_socket w"

text \<open>
  \<^verbatim>\<open>fd\<close> is what \<^verbatim>\<open>::socket\<close> returned.  When it is not valid the constructor throws, and there is
  no object.
\<close>

definition socket_create :: "nat \<Rightarrow> int \<Rightarrow> world \<Rightarrow> unit res \<times> world" where
  "socket_create i fd w =
     (if \<not> is_valid fd then (Inl (Net_error ''Failed to create network socket''), w)
      else (Inr (), set_handle i fd (w\<lparr>w_open := insert fd (w_open w)\<rparr>)))"

definition socket_move :: "nat \<Rightarrow> nat \<Rightarrow> world \<Rightarrow> world" where
  "socket_move i other w = set_handle other invalid_socket (set_handle i (handle w other) w)"

text \<open>
  \<^verbatim>\<open>r\<close> is what \<^verbatim>\<open>::close\<close> returned; Linux releases the descriptor also when it reports an error.
\<close>

definition socket_close :: "nat \<Rightarrow> int \<Rightarrow> world \<Rightarrow> unit res \<times> world" where
  "socket_close i r w =
     (if is_valid (handle w i) then
        let w' = set_handle i invalid_socket (w\<lparr>w_open := w_open w - {handle w i}\<rparr>) in
        if r \<noteq> 0 then (Inl (Net_error ''Can't close network connection''), w') else (Inr (), w')
      else (Inr (), w))"

definition socket_assign :: "nat \<Rightarrow> nat \<Rightarrow> int \<Rightarrow> world \<Rightarrow> unit res \<times> world" where
  "socket_assign i other r w =
     (case socket_close i r w of
        (Inl e, w') \<Rightarrow> (Inl e, w')
      | (Inr _, w') \<Rightarrow> (Inr (), socket_move i other w'))"

definition socket_destroy :: "nat \<Rightarrow> int \<Rightarrow> world \<Rightarrow> world" where
  "socket_destroy i r w =
     (let w' = snd (socket_close i r w) in w'\<lparr>w_objects := (w_objects w')(i := None)\<rparr>)"

text \<open>
  Adoption of a connection: \<^verbatim>\<open>accepted\<close> is what \<^verbatim>\<open>::accept\<close> returned, \<^verbatim>\<open>stat\<close> what \<^verbatim>\<open>::fstat\<close>
  returned for it, \<^verbatim>\<open>from\<close> and \<^verbatim>\<open>clen\<close> the address of the peer and its length.  The local object
  is \<^verbatim>\<open>tmp\<close>; it is moved into the result, and destroyed when an exception leaves the function.
\<close>

definition accept_new :: "inet_lib \<Rightarrow> nat \<Rightarrow> nat \<Rightarrow> int \<Rightarrow> int \<Rightarrow> int \<Rightarrow> address \<Rightarrow> nat \<Rightarrow> world \<Rightarrow> address res \<times> world" where
  "accept_new lib i tmp accepted stat r from clen w =
     (if \<not> is_valid accepted then (Inl (Net_error ''Failed to accept[TCP] on ''), w)
      else
        let w1 = set_handle tmp accepted (socket_default tmp (w\<lparr>w_open := insert accepted (w_open w)\<rparr>)) in
        if stat \<noteq> 0 then (Inl (Runtime_error ''Bad file descriptor''), socket_destroy tmp r w1)
        else case address_of_sockaddr lib from (cast_u16 clen) of
            Inl e \<Rightarrow> (Inl e, socket_destroy tmp r w1)
          | Inr a \<Rightarrow> (Inr a, socket_destroy tmp r (socket_move i tmp w1)))"

text \<open>
  A socket that \<^verbatim>\<open>systemd\<close> has opened: \<^verbatim>\<open>issock\<close> is what \<^verbatim>\<open>isfdtype\<close> returned for the descriptor.
\<close>

definition bound_listener :: "nat \<Rightarrow> int \<Rightarrow> int \<Rightarrow> world \<Rightarrow> unit res \<times> world" where
  "bound_listener i h issock w =
     (if issock = 0 then (Inl (Logic_error ''socket is not a socket''), w)
      else if 0 > issock then (Inl (Runtime_error ''[system error]''), w)
      else (Inr (), set_handle i h (socket_default i w)))"

text \<open>The programs that use sockets: any sequence of these calls.\<close>

datatype sock_event =
    Default nat
  | Create nat int
  | Move nat nat
  | Assign nat nat int
  | Close nat int
  | Destroy nat int
  | Accept inet_lib nat nat int int int address nat
  | Adopt nat int int

fun sock_step :: "sock_event \<Rightarrow> world \<Rightarrow> world" where
  "sock_step (Default i) w = socket_default i w"
| "sock_step (Create i fd) w = snd (socket_create i fd w)"
| "sock_step (Move i j) w = socket_move i j w"
| "sock_step (Assign i j r) w = snd (socket_assign i j r w)"
| "sock_step (Close i r) w = snd (socket_close i r w)"
| "sock_step (Destroy i r) w = socket_destroy i r w"
| "sock_step (Accept lib i t fd st r a n) w = snd (accept_new lib i t fd st r a n w)"
| "sock_step (Adopt i h s) w = snd (bound_listener i h s w)"

text \<open>
  What C++ and the kernel guarantee of a call: constructors make new objects, other calls are made on
  live ones, and a descriptor that a call returns was not in use.  A descriptor that is adopted is
  open and has no owner.
\<close>

definition unowned :: "world \<Rightarrow> int \<Rightarrow> bool" where
  "unowned w fd \<longleftrightarrow> fd \<notin> ran (w_objects w)"

fun sock_enabled :: "sock_event \<Rightarrow> world \<Rightarrow> bool" where
  "sock_enabled (Default i) w \<longleftrightarrow> w_objects w i = None"
| "sock_enabled (Create i fd) w \<longleftrightarrow> w_objects w i = None \<and> fd \<notin> w_open w"
| "sock_enabled (Move i j) w \<longleftrightarrow> w_objects w i = None \<and> w_objects w j \<noteq> None"
| "sock_enabled (Assign i j r) w \<longleftrightarrow> w_objects w i \<noteq> None \<and> w_objects w j \<noteq> None"
| "sock_enabled (Close i r) w \<longleftrightarrow> w_objects w i \<noteq> None"
| "sock_enabled (Destroy i r) w \<longleftrightarrow> w_objects w i \<noteq> None"
| "sock_enabled (Accept lib i t fd st r a n) w \<longleftrightarrow>
     w_objects w i = None \<and> w_objects w t = None \<and> i \<noteq> t \<and> fd \<notin> w_open w"
| "sock_enabled (Adopt i h s) w \<longleftrightarrow> w_objects w i = None \<and> h \<in> w_open w \<and> is_valid h \<and> unowned w h"

definition sock_start :: "int set \<Rightarrow> world" where
  "sock_start inherited = \<lparr>w_objects = Map.empty, w_open = inherited\<rparr>"

subsection \<open>Calls on an open socket\<close>

definition self_error_code :: "int option \<Rightarrow> int res" where
  "self_error_code so_error =
     (case so_error of
        Some e \<Rightarrow> Inr e
      | None \<Rightarrow> Inl (Runtime_error ''Could not get network error code''))"

definition unblock :: "int \<Rightarrow> int \<Rightarrow> int \<Rightarrow> unit res" where
  "unblock issock getfl setfl =
     (if issock = 0 then Inl (Logic_error ''socket is not a socket'')
      else if 0 > issock then Inl (Runtime_error ''Bad socket'')
      else if getfl < 0 then Inl (Net_error ''can't unblock network socket'')
      else if setfl = -1 then Inl (Net_error ''can't unblock network socket'')
      else Inr ())"

definition eintr :: int where "eintr = 4"
definition einprogress :: int where "einprogress = 115"

definition is_connected :: "int \<Rightarrow> int option \<Rightarrow> bool res" where
  "is_connected h so_error =
     (if \<not> is_valid h then Inl (Logic_error ''network connection is already closed'')
      else ebind (self_error_code so_error) (\<lambda>e.
        if e \<noteq> 0 then
          if eintr = e \<or> einprogress = e then Inr False
          else Inl (Net_error ''socket is in failed state'')
        else Inr True))"

definition reuse_listener_port :: "int \<Rightarrow> unit res" where
  "reuse_listener_port r = (if r \<noteq> 0 then Inl (Net_error ''Can't reuse network port'') else Inr ())"

definition bind_listener :: "int \<Rightarrow> unit res" where
  "bind_listener r = (if r \<noteq> 0 then Inl (Net_error ''Failed to bind to '') else Inr ())"

definition get_address :: "inet_lib \<Rightarrow> int \<Rightarrow> (address \<times> nat) option \<Rightarrow> address res" where
  "get_address lib h sockname =
     (if \<not> is_valid h then Inl (Logic_error ''Invalid socket'')
      else case sockname of
          None \<Rightarrow> Inl (Net_error ''Failed to get internet IP address from socket'')
        | Some (a, len) \<Rightarrow> address_of_sockaddr lib a (cast_u16 len))"

definition tcp_connect :: "int \<Rightarrow> int \<Rightarrow> unit res" where
  "tcp_connect r errno =
     (if r \<noteq> 0 then
        if errno \<noteq> einprogress then Inl (Net_error ''Failed to connect[TCP] to '') else Inr ()
      else Inr ())"

definition tcp_listen :: "int \<Rightarrow> unit res" where
  "tcp_listen r = (if r \<noteq> 0 then Inl (Net_error ''Failed to listen on TCP socket'') else Inr ())"

subsection \<open>Transmission\<close>

datatype 'm arrival = Bytes 'm | End_of_stream | Fault

datatype send_result = Send_all | Send_part nat | Send_error

record 'm endpoint =
  ep_handle :: int
  ep_error :: "int option"
  ep_in :: "'m arrival list"
  ep_sends :: "send_result list"
  ep_out :: "'m list"
  ep_close :: int

text \<open>
  A datagram and where it comes from (with the length of the address) or goes to; a segment of a
  stream.
\<close>

type_synonym udp_end = "(address \<times> nat \<times> byte list) endpoint"
type_synonym tcp_end = "byte list endpoint"

text \<open>The next decision of the kernel on a transmission; without one it takes everything.\<close>

definition next_send :: "'m endpoint \<Rightarrow> send_result \<times> 'm endpoint" where
  "next_send ep =
     (case ep_sends ep of
        [] \<Rightarrow> (Send_all, ep)
      | s # ss \<Rightarrow> (s, ep\<lparr>ep_sends := ss\<rparr>))"

text \<open>Datagrams are sent whole or not at all.  The result is the \<^verbatim>\<open>ssize_t\<close> of \<^verbatim>\<open>::sendto\<close>.\<close>

definition udp_send_to_socket :: "byte list \<Rightarrow> address \<Rightarrow> udp_end \<Rightarrow> int \<times> udp_end" where
  "udp_send_to_socket msg a ep =
     (case next_send ep of
        (Send_error, ep) \<Rightarrow> (-1, ep)
      | (_, ep) \<Rightarrow> (int (length msg), ep\<lparr>ep_out := ep_out ep @ [(a, 128, msg)]\<rparr>))"

text \<open>
  \<^verbatim>\<open>::recvfrom\<close> cuts off what does not fit.  Nothing to receive is an error of a non-blocking socket.
  The result are \<^verbatim>\<open>n\<close>, the bytes stored, and the address if it was asked for.
\<close>

definition udp_receive_from_socket :: "inet_lib \<Rightarrow> nat \<Rightarrow> bool \<Rightarrow> udp_end \<Rightarrow> (int \<times> byte list \<times> address option) res \<times> udp_end" where
  "udp_receive_from_socket lib bufsize want ep =
     (case ep_in ep of
        Bytes (a, clen, b) # rest \<Rightarrow>
          let ep' = ep\<lparr>ep_in := rest\<rparr>; got = take bufsize b in
          if want \<and> 0 < length got then
            if 0 < clen then
              (ebind (address_of_sockaddr lib a (cast_u16 clen)) (\<lambda>a'. Inr (int (length got), got, Some a')), ep')
            else (Inl (Logic_error ''UDP address not received''), ep')
          else (Inr (int (length got), got, None), ep')
      | End_of_stream # rest \<Rightarrow> (Inr (0, [], None), ep\<lparr>ep_in := rest\<rparr>)
      | Fault # rest \<Rightarrow> (Inr (-1, [], None), ep\<lparr>ep_in := rest\<rparr>)
      | [] \<Rightarrow> (Inr (-1, [], None), ep))"

definition tcp_send_socket :: "byte list \<Rightarrow> tcp_end \<Rightarrow> int \<times> tcp_end" where
  "tcp_send_socket msg ep =
     (case next_send ep of
        (Send_error, ep) \<Rightarrow> (-1, ep)
      | (Send_part k, ep) \<Rightarrow>
          (int (min k (length msg)), ep\<lparr>ep_out := ep_out ep @ [take (min k (length msg)) msg]\<rparr>)
      | (Send_all, ep) \<Rightarrow> (int (length msg), ep\<lparr>ep_out := ep_out ep @ [msg]\<rparr>))"

text \<open>
  \<^verbatim>\<open>::recv\<close> takes at most \<^verbatim>\<open>bufsize\<close> bytes of what has arrived and leaves the rest for the next
  call; the end of the stream stays.
\<close>

definition tcp_receive_socket :: "nat \<Rightarrow> tcp_end \<Rightarrow> int \<times> byte list \<times> tcp_end" where
  "tcp_receive_socket bufsize ep =
     (case ep_in ep of
        Bytes b # rest \<Rightarrow>
          (int (length (take bufsize b)), take bufsize b,
           ep\<lparr>ep_in := (if length b \<le> bufsize then rest else Bytes (drop bufsize b) # rest)\<rparr>)
      | End_of_stream # rest \<Rightarrow> (0, [], ep)
      | Fault # rest \<Rightarrow> (-1, [], ep\<lparr>ep_in := rest\<rparr>)
      | [] \<Rightarrow> (-1, [], ep))"

section \<open>Ownership of descriptors\<close>

definition owned :: "world \<Rightarrow> int set" where
  "owned w = {h \<in> ran (w_objects w). is_valid h}"

text \<open>
  Every descriptor that an object holds is open, no two objects hold the same one, and an open
  descriptor that the process has not inherited has an owner.
\<close>

definition wf_world :: "int set \<Rightarrow> world \<Rightarrow> bool" where
  "wf_world inherited w \<longleftrightarrow>
     owned w \<subseteq> w_open w \<and> w_open w \<subseteq> inherited \<union> owned w
     \<and> (\<forall>i j h. w_objects w i = Some h \<longrightarrow> w_objects w j = Some h \<longrightarrow> is_valid h \<longrightarrow> i = j)"

lemma invalid_not_valid [simp]: "\<not> is_valid invalid_socket"
  by (simp add: is_valid_def invalid_socket_def)

lemma mem_owned: "h \<in> owned w \<longleftrightarrow> is_valid h \<and> (\<exists>i. w_objects w i = Some h)"
  by (auto simp: owned_def ran_def)

lemma ownedI: "w_objects w i = Some h \<Longrightarrow> is_valid h \<Longrightarrow> h \<in> owned w"
  by (auto simp: mem_owned)

lemma ownedE:
  assumes "h \<in> owned w"
  obtains i where "w_objects w i = Some h" "is_valid h" "handle w i = h"
  using assms by (auto simp: mem_owned handle_def)

lemma wf_worldI:
  assumes "\<And>i h. w_objects w i = Some h \<Longrightarrow> is_valid h \<Longrightarrow> h \<in> w_open w"
    and "\<And>h. h \<in> w_open w \<Longrightarrow> h \<in> inherited \<or> h \<in> owned w"
    and "\<And>i j h. w_objects w i = Some h \<Longrightarrow> w_objects w j = Some h \<Longrightarrow> is_valid h \<Longrightarrow> i = j"
  shows "wf_world inherited w"
proof -
  have "owned w \<subseteq> w_open w" using assms(1) by (auto simp: mem_owned)
  moreover have "w_open w \<subseteq> inherited \<union> owned w" using assms(2) by auto
  ultimately show ?thesis unfolding wf_world_def using assms(3) by blast
qed

lemma wf_worldD:
  assumes "wf_world inherited w"
  shows "w_objects w i = Some h \<Longrightarrow> is_valid h \<Longrightarrow> h \<in> w_open w"
    and "h \<in> w_open w \<Longrightarrow> h \<in> inherited \<or> h \<in> owned w"
    and "w_objects w i = Some h \<Longrightarrow> w_objects w j = Some h \<Longrightarrow> is_valid h \<Longrightarrow> i = j"
proof -
  show "w_objects w i = Some h \<Longrightarrow> is_valid h \<Longrightarrow> h \<in> w_open w"
    using assms mem_owned unfolding wf_world_def by blast
  show "h \<in> w_open w \<Longrightarrow> h \<in> inherited \<or> h \<in> owned w"
    using assms unfolding wf_world_def by blast
  show "w_objects w i = Some h \<Longrightarrow> w_objects w j = Some h \<Longrightarrow> is_valid h \<Longrightarrow> i = j"
    using assms unfolding wf_world_def by blast
qed

lemma wf_sock_start: "wf_world inherited (sock_start inherited)"
  by (rule wf_worldI) (simp_all add: sock_start_def)

text \<open>An object that holds nothing gets a descriptor without an owner.\<close>

lemma wf_gain:
  assumes w: "wf_world I w" and i: "\<not> is_valid (handle w i)" and fd: "fd \<notin> owned w" "is_valid fd"
    and w': "w_objects w' = (w_objects w)(i \<mapsto> fd)" "w_open w' = insert fd (w_open w)"
  shows "wf_world I w'"
proof (rule wf_worldI)
  have own: "insert fd (owned w) \<subseteq> owned w'"
  proof
    fix h assume "h \<in> insert fd (owned w)"
    then show "h \<in> owned w'"
    proof (rule insertE)
      assume "h = fd" then show ?thesis using ownedI [of w' i] fd(2) by (simp add: w'(1))
    next
      assume "h \<in> owned w"
      then obtain k where k: "w_objects w k = Some h" "is_valid h" "handle w k = h" by (rule ownedE)
      then have "k \<noteq> i" using i by blast
      then show ?thesis using ownedI [of w' k] k by (simp add: w'(1))
    qed
  qed
  show "w_objects w' j = Some h \<Longrightarrow> is_valid h \<Longrightarrow> h \<in> w_open w'" for j h
    using wf_worldD(1) [OF w] by (auto simp: w' split: if_splits)
  show "h \<in> w_open w' \<Longrightarrow> h \<in> I \<or> h \<in> owned w'" for h
    using wf_worldD(2) [OF w, of h] own by (auto simp: w'(2))
  show "w_objects w' j = Some h \<Longrightarrow> w_objects w' k = Some h \<Longrightarrow> is_valid h \<Longrightarrow> j = k" for j k h
    using wf_worldD(3) [OF w] fd by (auto simp: w'(1) mem_owned split: if_splits)
qed

text \<open>An object gives up its descriptor, which is closed.\<close>

lemma wf_drop:
  assumes w: "wf_world I w" and v: "v = None \<or> (\<exists>h. v = Some h \<and> \<not> is_valid h)"
    and w': "w_objects w' = (w_objects w)(i := v)"
      "w_open w' = (if is_valid (handle w i) then w_open w - {handle w i} else w_open w)"
  shows "wf_world I w'"
proof (rule wf_worldI)
  have own: "owned w - {handle w i} \<subseteq> owned w'"
  proof
    fix h assume h: "h \<in> owned w - {handle w i}"
    then have "h \<in> owned w" by simp
    then obtain k where k: "w_objects w k = Some h" "is_valid h" "handle w k = h" by (rule ownedE)
    then have "k \<noteq> i" using h by blast
    then show "h \<in> owned w'" using ownedI [of w' k] k by (simp add: w'(1))
  qed
  have old: "w_objects w j = Some h \<and> j \<noteq> i" if "w_objects w' j = Some h" "is_valid h" for j h
    using that v by (auto simp: w'(1) split: if_splits)
  have inv: "handle w i \<notin> owned w" if "\<not> is_valid (handle w i)"
    using that by (simp add: mem_owned)
  show "h \<in> w_open w'" if *: "w_objects w' j = Some h" "is_valid h" for j h
  proof -
    have "handle w i = h \<Longrightarrow> w_objects w i = Some h" using *(2) by (auto simp: handle_def split: option.splits)
    then have "h \<noteq> handle w i" using old [OF *] wf_worldD(3) [OF w] *(2) by blast
    then show ?thesis using wf_worldD(1) [OF w conjunct1 [OF old [OF *]] *(2)] by (simp add: w'(2))
  qed
  show "h \<in> I \<or> h \<in> owned w'" if "h \<in> w_open w'" for h
    using that wf_worldD(2) [OF w, of h] own inv by (auto simp: w'(2) split: if_splits)
  show "w_objects w' j = Some h \<Longrightarrow> w_objects w' k = Some h \<Longrightarrow> is_valid h \<Longrightarrow> j = k" for j k h
    using old wf_worldD(3) [OF w] by blast
qed

lemma wf_move:
  assumes w: "wf_world I w" and i: "\<not> is_valid (handle w i)"
  shows "wf_world I (socket_move i j w)"
proof (rule wf_worldI)
  let ?w = "socket_move i j w"
  have obj: "w_objects ?w = (w_objects w)(i \<mapsto> handle w j, j \<mapsto> invalid_socket)" and
    opn: "w_open ?w = w_open w"
    by (simp_all add: socket_move_def set_handle_def)
  have src: "\<exists>k'. w_objects w k' = Some h \<and> (k = i \<and> k' = j \<or> k \<noteq> i \<and> k' = k \<and> k' \<noteq> j)"
    if "w_objects ?w k = Some h" "is_valid h" for k h
    using that by (auto simp: obj handle_def split: if_splits option.splits)
  show "w_objects ?w k = Some h \<Longrightarrow> is_valid h \<Longrightarrow> h \<in> w_open ?w" for k h
    using src wf_worldD(1) [OF w] unfolding opn by blast
  have "owned w \<subseteq> owned ?w"
  proof
    fix h assume "h \<in> owned w"
    then obtain k where k: "w_objects w k = Some h" and h: "is_valid h" by (auto simp: mem_owned)
    show "h \<in> owned ?w"
    proof (cases "k = j")
      case True
      then have "i \<noteq> j" using i k h by (auto simp: handle_def)
      then have "w_objects ?w i = Some h" using k True by (simp add: obj handle_def)
      then show ?thesis using h by (auto simp: mem_owned)
    next
      case False
      then have "k \<noteq> i" using i k h by (auto simp: handle_def)
      then have "w_objects ?w k = Some h" using k False by (simp add: obj)
      then show ?thesis using h by (auto simp: mem_owned)
    qed
  qed
  then show "h \<in> w_open ?w \<Longrightarrow> h \<in> I \<or> h \<in> owned ?w" for h
    using wf_worldD(2) [OF w, of h] unfolding opn by blast
  show "w_objects ?w k = Some h \<Longrightarrow> w_objects ?w l = Some h \<Longrightarrow> is_valid h \<Longrightarrow> k = l" for k l h
    using src [of k h] src [of l h] wf_worldD(3) [OF w] by blast
qed

lemma handle_None [simp]: "w_objects w i = None \<Longrightarrow> handle w i = invalid_socket"
  by (simp add: handle_def)

lemma wf_default: "wf_world I w \<Longrightarrow> w_objects w i = None \<Longrightarrow> wf_world I (socket_default i w)"
  by (rule wf_drop [of I w "Some invalid_socket" _ i]) (auto simp: socket_default_def set_handle_def)

lemma wf_create:
  assumes "wf_world I w" "w_objects w i = None" "fd \<notin> w_open w"
  shows "wf_world I (snd (socket_create i fd w))"
proof (cases "is_valid fd")
  case True
  have "fd \<notin> owned w" using assms(1,3) by (auto simp: wf_world_def)
  from wf_gain [OF assms(1) _ this True, of i "snd (socket_create i fd w)"] show ?thesis
    using True assms(2) by (simp add: socket_create_def set_handle_def)
qed (use assms(1) in \<open>simp add: socket_create_def\<close>)

lemma close_result:
  "w_objects (snd (socket_close i r w)) = (if is_valid (handle w i) then (w_objects w)(i \<mapsto> invalid_socket) else w_objects w)"
  "w_open (snd (socket_close i r w)) = (if is_valid (handle w i) then w_open w - {handle w i} else w_open w)"
  by (auto simp: socket_close_def set_handle_def Let_def)

lemma handle_close [simp]: "\<not> is_valid (handle (snd (socket_close i r w)) i)"
  by (auto simp: handle_def close_result split: option.splits)

lemma wf_close: "wf_world I w \<Longrightarrow> wf_world I (snd (socket_close i r w))"
proof (cases "is_valid (handle w i)")
  case True
  assume "wf_world I w"
  then show ?thesis
    by (rule wf_drop [where v = "Some invalid_socket" and i = i]) (simp_all add: close_result True)
qed (simp add: socket_close_def)

lemma wf_destroy: "wf_world I w \<Longrightarrow> wf_world I (socket_destroy i r w)"
  by (rule wf_drop [OF wf_close [of I w i r], where v = None and i = i]) (simp_all add: socket_destroy_def Let_def)

lemma wf_assign: "wf_world I w \<Longrightarrow> wf_world I (snd (socket_assign i j r w))"
  using wf_close [of I w i r] wf_move [of I "snd (socket_close i r w)" i j] handle_close [of i r w]
  by (auto simp: socket_assign_def split: prod.split sum.split)

lemma wf_bound_listener:
  assumes "wf_world I w" "w_objects w i = None" "h \<in> w_open w" "is_valid h" "unowned w h"
  shows "wf_world I (snd (bound_listener i h s w))"
proof -
  have "wf_world I (set_handle i h (socket_default i w))"
    by (rule wf_gain [OF assms(1) _ _ assms(4)])
      (use assms in \<open>auto simp: set_handle_def socket_default_def unowned_def owned_def\<close>)
  then show ?thesis using assms(1) by (simp add: bound_listener_def)
qed

lemma wf_accept:
  assumes "wf_world I w" "w_objects w i = None" "w_objects w t = None" "i \<noteq> t" "fd \<notin> w_open w"
  shows "wf_world I (snd (accept_new lib i t fd st r a n w))"
proof (cases "is_valid fd")
  case True
  let ?w1 = "set_handle t fd (socket_default t (w\<lparr>w_open := insert fd (w_open w)\<rparr>))"
  have fd: "fd \<notin> owned w" using assms(1,5) by (auto simp: wf_world_def)
  have w1: "wf_world I ?w1"
    by (rule wf_gain [OF assms(1) _ fd True]) (use assms in \<open>auto simp: set_handle_def socket_default_def\<close>)
  have "handle ?w1 i = invalid_socket"
    using assms(2,4) by (simp add: handle_def set_handle_def socket_default_def)
  then have "wf_world I (socket_move i t ?w1)" using wf_move [OF w1] by simp
  then show ?thesis
    using True wf_destroy w1 by (auto simp: accept_new_def Let_def split: sum.split)
qed (use assms(1) in \<open>simp add: accept_new_def\<close>)

lemma sock_step_preserves: "sock_enabled e w \<Longrightarrow> wf_world I w \<Longrightarrow> wf_world I (sock_step e w)"
  by (cases e) (simp_all add: wf_default wf_create wf_move wf_assign wf_close wf_destroy wf_accept
      wf_bound_listener)

interpretation sockets: machine sock_enabled sock_step "wf_world inherited"
  by unfold_locales (rule sock_step_preserves)

section \<open>Properties\<close>

text \<open>
  C13. Socket objects own their descriptors.  Whatever sequence of calls a program makes on its sockets
  (constructors, moves, assignments, \<^verbatim>\<open>close\<close>, destructors, accepted and inherited connections, also
  when they throw), starting with the inherited descriptors only: every descriptor that an object
  holds is open, so nothing is used after it is closed; no two objects hold the same descriptor, so
  none is closed twice; and every open descriptor that was not inherited is held by a live object, so
  none is lost.
\<close>

theorem socket_ownership:
  assumes "run_events sock_enabled sock_step events (sock_start inherited) = Some w"
  shows "(\<forall>i h. w_objects w i = Some h \<and> is_valid h \<longrightarrow> h \<in> w_open w)
    \<and> (\<forall>i j h. w_objects w i = Some h \<and> w_objects w j = Some h \<and> is_valid h \<longrightarrow> i = j)
    \<and> (\<forall>fd. fd \<in> w_open w \<and> fd \<notin> inherited \<longrightarrow> (\<exists>i. w_objects w i = Some fd))"
proof -
  have "wf_world inherited w" by (rule sockets.run_invariant [OF assms wf_sock_start])
  note wf_worldD [OF this]
  then show ?thesis by (meson mem_owned)
qed

definition sample_address :: address where
  "sample_address = \<lparr>a_inet = ipv4, a_ip = [127, 0, 0, 1], a_port = 53\<rparr>"

definition sample_inet :: inet_lib where
  "sample_inet = \<lparr>inet_pton = (\<lambda>af s. None), inet_ntop = (\<lambda>af b. ''127.0.0.1'')\<rparr>"

theorem socket_ownership_witness:
  "let w = \<lparr>w_objects = [1 \<mapsto> 7, 2 \<mapsto> invalid_socket], w_open = {7}\<rparr> in
   run_events sock_enabled sock_step [Adopt 2 3 1, Create 1 6, Assign 1 2 0, Default 3, Assign 3 1 0,
       Destroy 3 0, Accept sample_inet 4 5 7 0 0 sample_address 16, Assign 1 4 0, Destroy 4 0]
     (sock_start {3}) = Some w
   \<and> (\<forall>fd. fd \<in> w_open w \<and> fd \<notin> {3} \<longrightarrow> (\<exists>i. w_objects w i = Some fd))"
proof -
  let ?w = "\<lparr>w_objects = [1 \<mapsto> 7, 2 \<mapsto> invalid_socket], w_open = {7}\<rparr>"
  have r: "run_events sock_enabled sock_step [Adopt 2 3 1, Create 1 6, Assign 1 2 0, Default 3, Assign 3 1 0,
       Destroy 3 0, Accept sample_inet 4 5 7 0 0 sample_address 16, Assign 1 4 0, Destroy 4 0]
     (sock_start {3}) = Some ?w"
    by (simp add: sock_start_def bound_listener_def socket_create_def socket_assign_def socket_close_def
        socket_move_def socket_destroy_def socket_default_def accept_new_def set_handle_def handle_def
        is_valid_def invalid_socket_def unowned_def address_of_sockaddr_def sample_inet_def
        sample_address_def ip_port_def address_ip_def Let_def fun_eq_iff cast_u16_def show_nat.simps)
  show ?thesis
    unfolding Let_def by (rule conjI [OF r]) (use socket_ownership [OF r] in \<open>blast\<close>)
qed

end
