(* ===== verification/Connection.thy ===== *)
theory Connection
  imports Socket Packet
begin

text \<open>
  Connections (\<^verbatim>\<open>network/connection.hxx\<close>, \<^verbatim>\<open>network/srcz/connection.cpp\<close>): messages over datagrams
  and over streams.  A message on a stream is preceded by its length, in two bytes of network order,
  because the stream may deliver it in pieces.

  The operations change the connection and may throw, and a caller that catches the exception goes on
  with the changed connection; so their results are pairs (or triples with the message) of what is
  returned or thrown and the new state.
\<close>

section \<open>Definitions\<close>

definition connection_descriptor :: "'m endpoint \<Rightarrow> int res" where
  "connection_descriptor ep =
     (if ep_handle ep < 0 then Inl (Logic_error ''network connection is closed'') else Inr (ep_handle ep))"

definition close_connection :: "'m endpoint \<Rightarrow> unit res \<times> 'm endpoint" where
  "close_connection ep =
     (if is_valid (ep_handle ep) then
        (if ep_close ep \<noteq> 0 then Inl (Net_error ''Can't close network connection'') else Inr (),
         ep\<lparr>ep_handle := invalid_socket\<rparr>)
      else (Inr (), ep))"

subsection \<open>Datagrams\<close>

definition udp_send_to :: "packet \<Rightarrow> address \<Rightarrow> udp_end \<Rightarrow> unit res \<times> udp_end" where
  "udp_send_to message a ep =
     (let (n, ep') = udp_send_to_socket (content message) a ep in
      if n < 0 then (Inl (Net_error ''Failed send[UDP] ''), ep')
      else if n = 0 then (Inl (Net_error ''Connection reset by peer? [UDP send]''), ep')
      else (Inr (), ep'))"

text \<open>Where the address of the sender is stored.\<close>

datatype address_ref = No_address | Own_address | Other_address

definition udp_receive_into :: "inet_lib \<Rightarrow> address_ref \<Rightarrow> packet \<Rightarrow> udp_end
    \<Rightarrow> address option res \<times> packet \<times> udp_end" where
  "udp_receive_into lib ref message ep =
     (if ref = Own_address then (Inl (Logic_error ''UDP recvfrom for self-address''), message, ep)
      else
        let (received, ep') = udp_receive_from_socket lib (reserved_size message) (ref = Other_address) ep in
        case received of
          Inl e \<Rightarrow> (Inl e, message, ep')
        | Inr (n, got, a) \<Rightarrow>
            if 0 > n then (Inl (Net_error ''Failed to receive[UDP]''), message, ep')
            else if 0 = n then (Inl (Net_error ''Connection reset by peer? [UDP recv]''), message, ep')
            else case write_block (pkt_bytes message) 0 got of
                Inl e \<Rightarrow> (Inl e, message, ep')
              | Inr b \<Rightarrow> (Inr a, set_size (cast_u16 (nat n)) (message\<lparr>pkt_bytes := b\<rparr>), ep'))"

definition udp_receive :: "inet_lib \<Rightarrow> packet \<Rightarrow> udp_end \<Rightarrow> unit res \<times> packet \<times> udp_end" where
  "udp_receive lib message ep =
     (let (r, message', ep') = udp_receive_into lib No_address message ep in
      (ebind r (\<lambda>_. Inr ()), message', ep'))"

definition udp_receive_from :: "inet_lib \<Rightarrow> packet \<Rightarrow> udp_end \<Rightarrow> address option res \<times> packet \<times> udp_end" where
  "udp_receive_from lib = udp_receive_into lib Other_address"

subsection \<open>Streams\<close>

definition tcp_send :: "packet \<Rightarrow> tcp_end \<Rightarrow> unit res \<times> tcp_end" where
  "tcp_send message ep =
     (let sz = htons (word_of_nat (pkt_size message));
          q = packet_append (packet_append_bytes empty_packet (store_u16 sz)) message;
          (n, ep') = tcp_send_socket (content q) ep
      in if n < 0 then (Inl (Net_error ''Failed to TCP-send: ''), ep')
         else if n = 0 then (Inl (Net_error ''connection[TCP,send] reset by peer?''), ep')
         else if int (pkt_size q) \<noteq> n then (Inl (Logic_error ''buffered TCP is not supported''), ep')
         else (Inr (), ep'))"

text \<open>
  The loop that waits for the rest of a message: \<^verbatim>\<open>n\<close> bytes of \<^verbatim>\<open>tcp_n\<close> have arrived.  It ends
  because every pass stores at least one byte.
\<close>

lemma tcp_receive_socket_length:
  "tcp_receive_socket k ep = (n, b, ep') \<Longrightarrow> n \<le> 0 \<and> b = [] \<or> n = int (length b) \<and> 0 < n \<and> length b \<le> k"
  by (auto simp: tcp_receive_socket_def split: list.splits arrival.splits)

function tcp_receive_loop :: "packet \<Rightarrow> nat \<Rightarrow> nat \<Rightarrow> tcp_end \<Rightarrow> (nat \<times> packet) res \<times> tcp_end" where
  "tcp_receive_loop q n tcp_n ep =
     (if n < tcp_n then
        let (n2, got, ep') = tcp_receive_socket (cast_u16 (reserved_size q - n)) ep in
        if n2 \<le> 0 then (Inl (Net_error ''tcp receive failure''), ep')
        else case write_block (pkt_bytes q) n got of
            Inl e \<Rightarrow> (Inl e, ep')
          | Inr b \<Rightarrow> tcp_receive_loop (q\<lparr>pkt_bytes := b\<rparr>) (n + nat n2) tcp_n ep'
      else (Inr (n, q), ep))"
  by pat_completeness auto
termination
  by (relation "measure (\<lambda>(q, n, tcp_n, ep). tcp_n - n)") auto

declare tcp_receive_loop.simps [simp del]

definition tcp_received :: "packet \<Rightarrow> nat \<Rightarrow> nat \<Rightarrow> packet \<Rightarrow> packet res" where
  "tcp_received message tcp_n n q =
     (if tcp_n \<noteq> n then Inl (Logic_error ''TCP message size mismatch, received: '')
      else
        let q = set_size (cast_u16 n) q in
        ebind (read_block (pkt_bytes q) 2 (cast_u16 (pkt_size q - 2))) (\<lambda>b.
          Inr (packet_append_bytes message b)))"

text \<open>What follows the first \<^verbatim>\<open>recv\<close>, which has stored \<^verbatim>\<open>n\<close> bytes in \<^verbatim>\<open>q\<close>.\<close>

definition tcp_receive_rest :: "packet \<Rightarrow> packet \<Rightarrow> nat \<Rightarrow> tcp_end \<Rightarrow> unit res \<times> packet \<times> tcp_end" where
  "tcp_receive_rest message q n ep =
     (let msg_size = unat (ntohs (load_u16 (pkt_bytes q ! 0) (pkt_bytes q ! 1)));
          pkt_size = msg_size + 2
      in if msg_size = 0 then (Inl (Runtime_error ''zero length TCP message''), message, ep)
         else if 65535 < pkt_size then (Inl (Runtime_error ''Too large TCP message''), message, ep)
         else if cast_u16 pkt_size > reserved_size q then
           (Inl (Runtime_error ''too long TCP message''), message, ep)
         else
           let (looped, ep') = tcp_receive_loop q n (cast_u16 pkt_size) ep in
           case ebind looped (\<lambda>(n, q). tcp_received message (cast_u16 pkt_size) n q) of
             Inl e \<Rightarrow> (Inl e, message, ep')
           | Inr message' \<Rightarrow> (Inr (), message', ep'))"

definition tcp_receive :: "packet \<Rightarrow> tcp_end \<Rightarrow> unit res \<times> packet \<times> tcp_end" where
  "tcp_receive message ep =
     (let q = reserve (reserved_size message) empty_packet;
          (n, got, ep1) = tcp_receive_socket (reserved_size q) ep
      in if n < 0 then (Inl (Net_error ''Failed to receive[TCP]''), message, ep1)
         else if n = 0 then
           (ebind (self_error_code (ep_error ep1)) (\<lambda>_. Inl (Net_error ''No data in TCP stream'')), message, ep1)
         else if n < 2 then (Inl (Runtime_error ''not enough data in TCP message''), message, ep1)
         else case write_block (pkt_bytes q) 0 got of
             Inl e \<Rightarrow> (Inl e, message, ep1)
           | Inr b \<Rightarrow> tcp_receive_rest message (q\<lparr>pkt_bytes := b\<rparr>) (nat n) ep1)"

section \<open>Memory safety\<close>

lemma reserved_size_le: "reserved_size p \<le> length (pkt_bytes p)"
  by (simp add: reserved_size_def cast_u16_def)

lemma cast_u16_le: "cast_u16 n \<le> n"
  by (simp add: cast_u16_def)

lemma set_size_simps [simp]: "pkt_size (set_size n p) = n" "pkt_bytes (set_size n p) = pkt_bytes p"
  by (simp_all add: set_size_def)

lemma udp_receive_from_socket_length:
  assumes "udp_receive_from_socket lib k want ep = (Inr (n, got, a), ep')"
  shows "n \<le> 0 \<and> got = [] \<or> n = int (length got) \<and> 0 < n \<and> length got \<le> k"
  using assms
  by (auto simp: udp_receive_from_socket_def Let_def ebind_def split: list.splits arrival.splits sum.splits if_splits)

lemma udp_receive_into_safe:
  assumes "wf_packet p" "udp_receive_into lib ref p ep = (r, p', ep')" "safe (fst (udp_receive_from_socket lib (reserved_size p) (ref = Other_address) ep))"
  shows "safe r \<and> wf_packet p' \<and> length (pkt_bytes p') = length (pkt_bytes p)"
proof -
  obtain x ep1 where x: "udp_receive_from_socket lib (reserved_size p) (ref = Other_address) ep = (x, ep1)"
    by fastforce
  have len: "length got \<le> length (pkt_bytes p)" if "x = Inr (n, got, a)" for n got a
    using udp_receive_from_socket_length [OF x [unfolded that]] reserved_size_le [of p] by auto
  have u: "nat n = length got" if "x = Inr (n, got, a)" "\<not> n < 0" for n got a
    using udp_receive_from_socket_length [OF x [unfolded that(1)]] that(2) by auto
  have w: "length got < 65536" if "x = Inr (n, got, a)" for n got a
    using len [OF that] assms(1) by (simp add: wf_packet_def)
  show ?thesis
    using assms x len u w
    by (auto simp: udp_receive_into_def Let_def wf_packet_def write_block_def safe_def split: sum.splits if_splits)
qed

lemma address_of_sockaddr_safe: "safe (address_of_sockaddr lib a l)"
  by (simp add: address_of_sockaddr_def Let_def)

lemma udp_receive_from_socket_safe: "safe (fst (udp_receive_from_socket lib k want ep))"
  using address_of_sockaddr_safe
  by (auto simp: udp_receive_from_socket_def Let_def split: list.splits arrival.splits)

lemma tcp_receive_loop_safe:
  assumes "n \<le> length (pkt_bytes q)" "tcp_receive_loop q n m ep = (r, ep')"
  shows "ensures r (\<lambda>(n', q'). m \<le> n' \<and> n' \<le> length (pkt_bytes q') \<and> length (pkt_bytes q') = length (pkt_bytes q)
    \<and> pkt_size q' = pkt_size q)"
  using assms
proof (induction q n m ep arbitrary: r ep' rule: tcp_receive_loop.induct)
  case (1 q n m ep)
  show ?case
  proof (cases "n < m")
    case True
    obtain n2 got ep1 where rcv: "tcp_receive_socket (cast_u16 (reserved_size q - n)) ep = (n2, got, ep1)"
      by (metis prod_cases3)
    show ?thesis
    proof (cases "n2 \<le> 0")
      case True
      then show ?thesis using 1(3) \<open>n < m\<close> rcv by (auto simp: tcp_receive_loop.simps [of q n])
    next
      case False
      then have got: "n2 = int (length got)" "length got \<le> cast_u16 (reserved_size q - n)"
        using tcp_receive_socket_length [OF rcv] by auto
      have le: "n + length got \<le> length (pkt_bytes q)"
        using got(2) cast_u16_le [of "reserved_size q - n"] reserved_size_le [of q] 1(2) by linarith
      have "tcp_receive_loop (q\<lparr>pkt_bytes := overwrite n got (pkt_bytes q)\<rparr>) (n + nat n2) m ep1 = (r, ep')"
        using 1(3) \<open>n < m\<close> rcv False le by (simp add: tcp_receive_loop.simps [of q n] write_block_def)
      from 1(1) [OF \<open>n < m\<close> rcv [symmetric] refl refl False _ _ this] show ?thesis
        using le got by (simp add: write_block_def)
    qed
  next
    case False
    then show ?thesis using 1(2,3) by (auto simp: tcp_receive_loop.simps [of q n])
  qed
qed

text \<open>
  The two receiving operations store within the message, and keep its invariant and its reserved size.
\<close>

lemma udp_receive_keeps:
  assumes "wf_packet p" "udp_receive lib p ep = (r, p', ep')"
  shows "safe r" "wf_packet p'" "length (pkt_bytes p') = length (pkt_bytes p)"
proof -
  obtain r0 where *: "udp_receive_into lib No_address p ep = (r0, p', ep')" "r = ebind r0 (\<lambda>_. Inr ())"
    using assms(2) by (auto simp: udp_receive_def split: prod.splits)
  from udp_receive_into_safe [OF assms(1) *(1) udp_receive_from_socket_safe]
  show "safe r" "wf_packet p'" "length (pkt_bytes p') = length (pkt_bytes p)"
    using *(2) by auto
qed

lemma packet_append_fits:
  assumes "wf_packet p" "pkt_size p = 0" "length b \<le> length (pkt_bytes p)"
  shows "wf_packet (packet_append_bytes p b)" "length (pkt_bytes (packet_append_bytes p b)) = length (pkt_bytes p)"
    "content (packet_append_bytes p b) = b"
proof -
  have b: "length b < 65536" using assms(1,3) by (simp add: wf_packet_def)
  show "wf_packet (packet_append_bytes p b)" "length (pkt_bytes (packet_append_bytes p b)) = length (pkt_bytes p)"
    using assms b
    by (auto simp: packet_append_bytes_def packet_append_def packet_of_def wf_packet_def Let_def min_def)
  have "content p = []" by (simp add: content_def assms(2))
  then show "content (packet_append_bytes p b) = b"
    using packet_append_content(1) [OF assms(1) wf_packet_of [OF b]] assms(2) b
    by (simp add: packet_append_bytes_def packet_of_def content_def)
qed

lemma tcp_received_safe:
  assumes "wf_packet p" "pkt_size p = 0" "length (pkt_bytes q) = length (pkt_bytes p)" "m \<le> n"
    "n \<le> length (pkt_bytes q)" "2 \<le> m"
  shows "ensures (tcp_received p m n q) (\<lambda>p'. wf_packet p' \<and> length (pkt_bytes p') = length (pkt_bytes p))"
proof (cases "m = n")
  case True
  have n: "n < 65536" using assms(1,3,5) by (simp add: wf_packet_def)
  then have le: "2 + (n - 2) \<le> length (pkt_bytes q)" using assms(5,6) True by linarith
  then have "length (slice 2 (n - 2) (pkt_bytes q)) \<le> length (pkt_bytes p)" using assms(3) by simp
  from packet_append_fits(1,2) [OF assms(1,2) this] show ?thesis
    using True n le by (simp add: tcp_received_def Let_def read_block_def)
qed (simp add: tcp_received_def)

lemma tcp_receive_rest_keeps:
  assumes p: "wf_packet p" "pkt_size p = 0" and r: "tcp_receive_rest p q n ep = (r, p', ep')"
    and q: "length (pkt_bytes q) = length (pkt_bytes p)" "n \<le> length (pkt_bytes q)"
  shows "safe r \<and> wf_packet p' \<and> length (pkt_bytes p') = length (pkt_bytes p)"
proof -
  define m where "m = unat (htons (load_u16 (pkt_bytes q ! 0) (pkt_bytes q ! 1)))"
  obtain l ep2 where l: "tcp_receive_loop q n (cast_u16 (m + 2)) ep = (l, ep2)" by fastforce
  let ?res = "ebind l (\<lambda>(n, q). tcp_received p (cast_u16 (m + 2)) n q)"
  have "ensures ?res (\<lambda>p'. wf_packet p' \<and> length (pkt_bytes p') = length (pkt_bytes p))" if "m + 2 \<le> 65535"
    by (rule ensures_ebind [OF tcp_receive_loop_safe [OF q(2) l]])
      (use that q(1) in \<open>auto intro!: tcp_received_safe p\<close>)
  then show ?thesis
    using r [unfolded tcp_receive_rest_def Let_def m_def [symmetric] l prod.case] p(1)
    by (cases ?res) (auto simp: safe_def split: if_splits)
qed

lemma tcp_receive_keeps:
  assumes p: "wf_packet p" "pkt_size p = 0" and r: "tcp_receive p ep = (r, p', ep')"
  shows "safe r" "wf_packet p'" "length (pkt_bytes p') = length (pkt_bytes p)"
proof -
  let ?q = "reserve (reserved_size p) empty_packet"
  have q: "length (pkt_bytes ?q) = length (pkt_bytes p)" "reserved_size ?q = length (pkt_bytes p)"
    using p(1) by (simp_all add: reserved_size_eq reserved_size_def wf_packet_def)
  obtain n got ep1 where rcv: "tcp_receive_socket (length (pkt_bytes p)) ep = (n, got, ep1)"
    by (metis prod_cases3)
  have "safe r \<and> wf_packet p' \<and> length (pkt_bytes p') = length (pkt_bytes p)"
  proof (cases "n < 2")
    case True
    then show ?thesis
      using r [unfolded tcp_receive_def Let_def q(2) rcv prod.case] p(1)
      by (auto simp: self_error_code_def split: if_splits option.splits)
  next
    case False
    then have got: "n = int (length got)" "length got \<le> length (pkt_bytes p)"
      using tcp_receive_socket_length [OF rcv] by auto
    have n: "\<not> n < 0" "n \<noteq> 0" "\<not> n < 2" using False by auto
    have "tcp_receive_rest p (?q\<lparr>pkt_bytes := overwrite 0 got (pkt_bytes ?q)\<rparr>) (length got) ep1 = (r, p', ep')"
      using r [unfolded tcp_receive_def Let_def q(2) rcv prod.case if_not_P [OF n(1)] if_not_P [OF n(2)] if_not_P [OF n(3)]]
        got q(1) by (simp add: write_block_def)
    from tcp_receive_rest_keeps [OF p this] show ?thesis using q(1) got(2) by simp
  qed
  then show "safe r" "wf_packet p'" "length (pkt_bytes p') = length (pkt_bytes p)" by simp_all
qed

section \<open>Delivery\<close>

text \<open>A message on a stream.\<close>

definition frame :: "byte list \<Rightarrow> byte list" where
  "frame m = store_u16 (htons (word_of_nat (length m))) @ m"

text \<open>The segments in which a stream delivers bytes: none of them is empty.\<close>

definition segments :: "byte list \<Rightarrow> byte list list \<Rightarrow> bool" where
  "segments b cs \<longleftrightarrow> concat cs = b \<and> [] \<notin> set cs"

lemma length_frame [simp]: "length (frame m) = length m + 2"
  by (simp add: frame_def)

lemma frame_not_Nil [simp]: "frame m \<noteq> []"
  by (simp add: frame_def store_u16_def)

lemma frame_size:
  assumes "length m < 65536"
  shows "unat (htons (load_u16 (frame m ! 0) (frame m ! 1))) = length m"
proof -
  have "frame m ! 0 = store_u16 (htons (word_of_nat (length m))) ! 0"
    "frame m ! 1 = store_u16 (htons (word_of_nat (length m))) ! 1"
    by (simp_all add: frame_def nth_append)
  then show ?thesis by (simp only: load_store_u16 htons_htons unat_of_nat_u16 [OF assms])
qed

lemma tcp_receive_loop_segments:
  assumes "[] \<notin> set cs" "n + length (concat cs) = m" "m \<le> length (pkt_bytes q)" "length (pkt_bytes q) < 65536"
    "ep_in ep = map Bytes cs @ rest"
  shows "tcp_receive_loop q n m ep
    = (Inr (m, q\<lparr>pkt_bytes := overwrite n (concat cs) (pkt_bytes q)\<rparr>), ep\<lparr>ep_in := rest\<rparr>)"
  using assms
proof (induction cs arbitrary: q n ep)
  case Nil
  then show ?case by (auto simp: tcp_receive_loop.simps [of q m])
next
  case (Cons c cs)
  let ?q = "q\<lparr>pkt_bytes := overwrite n c (pkt_bytes q)\<rparr>" and ?ep = "ep\<lparr>ep_in := map Bytes cs @ rest\<rparr>"
  have c: "c \<noteq> []" "n + length c + length (concat cs) = m" using Cons.prems(1,2) by auto
  have le: "n + length c \<le> length (pkt_bytes q)" using c(2) Cons.prems(3) by linarith
  have res: "cast_u16 (reserved_size q - n) = length (pkt_bytes q) - n"
    using Cons.prems(4) by (simp add: reserved_size_def)
  have "tcp_receive_socket (length (pkt_bytes q) - n) ep = (int (length c), c, ?ep)"
    using Cons.prems(5) le by (simp add: tcp_receive_socket_def)
  moreover have "n < m" using c by (cases c) auto
  ultimately have "tcp_receive_loop q n m ep = tcp_receive_loop ?q (n + length c) m ?ep"
    using le c(1) by (simp add: tcp_receive_loop.simps [of q n] res write_block_def)
  also have "\<dots> = (Inr (m, ?q\<lparr>pkt_bytes := overwrite (n + length c) (concat cs) (pkt_bytes ?q)\<rparr>), ?ep\<lparr>ep_in := rest\<rparr>)"
    using Cons.prems c le by (intro Cons.IH) auto
  also have "\<dots> = (Inr (m, q\<lparr>pkt_bytes := overwrite n (concat (c # cs)) (pkt_bytes q)\<rparr>), ep\<lparr>ep_in := rest\<rparr>)"
    using c(2) Cons.prems(3) by (simp add: overwrite_behind)
  finally show ?case .
qed

lemma tcp_received_frame:
  assumes "wf_packet p" "pkt_size p = 0" "length m + 2 \<le> length (pkt_bytes p)" "take (length m + 2) (pkt_bytes q) = frame m"
    "length (pkt_bytes q) = length (pkt_bytes p)"
  shows "tcp_received p (length m + 2) (length m + 2) q = Inr (packet_append_bytes p m)"
proof -
  have l: "length m + 2 < 65536" using assms(1,3) by (simp add: wf_packet_def)
  have "slice 2 (length m) (pkt_bytes q) = drop 2 (take (length m + 2) (pkt_bytes q))"
    by (simp add: slice_def take_drop add.commute)
  also have "\<dots> = drop 2 (frame m)" by (simp only: assms(4))
  also have "\<dots> = m" by (simp add: frame_def)
  finally show ?thesis using l assms(3,5) by (simp add: tcp_received_def read_block_def)
qed

text \<open>The buffer after the first \<^verbatim>\<open>recv\<close>, and what is left in the stream.\<close>

definition first_segment :: "packet \<Rightarrow> byte list \<Rightarrow> packet" where
  "first_segment p c =
     (let q = reserve (length (pkt_bytes p)) empty_packet in q\<lparr>pkt_bytes := overwrite 0 c (pkt_bytes q)\<rparr>)"

lemma first_segment_simps:
  assumes "length c \<le> length (pkt_bytes p)"
  shows "length (pkt_bytes (first_segment p c)) = length (pkt_bytes p)"
    "reserved_size (first_segment p c) = reserved_size p"
    "k < length c \<Longrightarrow> pkt_bytes (first_segment p c) ! k = c ! k"
  using assms by (simp_all add: first_segment_def Let_def reserved_size_def nth_overwrite)

lemma tcp_receive_first:
  assumes p: "wf_packet p" "2 \<le> length (pkt_bytes p)" and c: "2 \<le> length c" "ep_in ep = Bytes c # rest"
  defines "c' \<equiv> take (length (pkt_bytes p)) c"
  shows "tcp_receive p ep = tcp_receive_rest p (first_segment p c') (length c')
    (ep\<lparr>ep_in := if length c \<le> length (pkt_bytes p) then rest else Bytes (drop (length (pkt_bytes p)) c) # rest\<rparr>)"
proof -
  let ?q = "reserve (length (pkt_bytes p)) empty_packet"
  have q: "reserved_size p = length (pkt_bytes p)" "reserved_size ?q = length (pkt_bytes p)"
    using p(1) by (simp_all add: reserved_size_eq reserved_size_def wf_packet_def)
  have c': "2 \<le> length c'" "length c' \<le> length (pkt_bytes p)" using p(2) c(1) by (simp_all add: c'_def)
  then have n: "\<not> int (length c') < 0" "int (length c') \<noteq> 0" "\<not> int (length c') < 2" by auto
  have rcv: "tcp_receive_socket (length (pkt_bytes p)) ep = (int (length c'), c',
      ep\<lparr>ep_in := if length c \<le> length (pkt_bytes p) then rest else Bytes (drop (length (pkt_bytes p)) c) # rest\<rparr>)"
    using c(2) by (simp add: tcp_receive_socket_def c'_def)
  have w: "write_block (pkt_bytes ?q) 0 c' = Inr (overwrite 0 c' (pkt_bytes ?q))"
    using c'(2) by (simp add: write_block_def)
  show ?thesis
    unfolding tcp_receive_def Let_def q rcv prod.case w if_not_P [OF n(1)] if_not_P [OF n(2)] if_not_P [OF n(3)]
      sum.case nat_int first_segment_def ..
qed

lemma first_segment_size:
  assumes "take 2 c = take 2 (frame m)" "length m < 65536" "length c \<le> length (pkt_bytes p)" "2 \<le> length c"
  shows "unat (htons (load_u16 (pkt_bytes (first_segment p c) ! 0) (pkt_bytes (first_segment p c) ! 1))) = length m"
proof -
  have "c ! k = frame m ! k" if "k < 2" for k
    using arg_cong [OF assms(1), of "\<lambda>l. l ! k"] that by simp
  then have "pkt_bytes (first_segment p c) ! k = frame m ! k" if "k < 2" for k
    using first_segment_simps(3) [OF assms(3), of k] that assms(4) by simp
  then show ?thesis using frame_size [OF assms(2)] by (simp del: One_nat_def)
qed

text \<open>
  A framed message arrives in any segments, of which the first has the whole length field, and
  whatever follows it in the stream is left there as long as it comes in a segment of its own.
\<close>

lemma tcp_receive_segments:
  assumes p: "wf_packet p" "pkt_size p = 0" and m: "m \<noteq> []" "length m + 2 \<le> length (pkt_bytes p)"
    and ep: "ep_in ep = map Bytes (c # cs) @ rest" "segments (frame m) (c # cs)" "2 \<le> length c"
  shows "tcp_receive p ep = (Inr (), packet_append_bytes p m, ep\<lparr>ep_in := rest\<rparr>)"
proof -
  let ?ep1 = "ep\<lparr>ep_in := map Bytes cs @ rest\<rparr>" and ?q1 = "first_segment p c"
  have lm: "length m + 2 < 65536" using p(1) m(2) by (simp add: wf_packet_def)
  have fr: "frame m = c @ concat cs" and ne: "[] \<notin> set cs" using ep(2) by (auto simp: segments_def)
  have lc: "length c + length (concat cs) = length m + 2" using arg_cong [OF fr, of length] by simp
  then have c: "length c \<le> length (pkt_bytes p)" using m(2) by linarith
  note q1 = first_segment_simps(1,2) [OF c]
  have res: "reserved_size p = length (pkt_bytes p)" using p(1) by (rule reserved_size_eq)
  have sz: "unat (htons (load_u16 (pkt_bytes ?q1 ! 0) (pkt_bytes ?q1 ! 1))) = length m"
    by (rule first_segment_size [OF _ _ c ep(3)]) (use fr lm ep(3) in simp_all)
  let ?q2 = "?q1\<lparr>pkt_bytes := overwrite (length c) (concat cs) (pkt_bytes ?q1)\<rparr>"
  have b2: "take (length m + 2) (pkt_bytes ?q2) = frame m"
    using overwrite_behind [of 0 c "concat cs" "replicate (length (pkt_bytes p)) 0"] lc m(2)
    by (simp add: first_segment_def reserve_def empty_packet_def fr overwrite_def)
  have "tcp_receive_loop ?q1 (length c) (length m + 2) ?ep1 = (Inr (length m + 2, ?q2), ?ep1\<lparr>ep_in := rest\<rparr>)"
    by (rule tcp_receive_loop_segments [OF ne lc]) (use m(2) q1 lm p(1) in \<open>simp_all add: wf_packet_def\<close>)
  moreover have "tcp_received p (length m + 2) (length m + 2) ?q2 = Inr (packet_append_bytes p m)"
    by (rule tcp_received_frame [OF p m(2) b2]) (use q1 lc m(2) in simp)
  ultimately have "tcp_receive_rest p ?q1 (length c) ?ep1 = (Inr (), packet_append_bytes p m, ep\<lparr>ep_in := rest\<rparr>)"
    using sz lm m q1(2) res by (simp add: tcp_receive_rest_def Let_def del: One_nat_def)
  then show ?thesis
    using tcp_receive_first [OF p(1) _ ep(3), of ep "map Bytes cs @ rest"] ep(1,3) c by simp
qed

lemma next_send_simps:
  "next_send ep = (r, ep') \<Longrightarrow> ep_out ep' = ep_out ep \<and> ep_in ep' = ep_in ep \<and> ep_handle ep' = ep_handle ep
     \<and> ep_error ep' = ep_error ep \<and> ep_close ep' = ep_close ep"
  by (auto simp: next_send_def split: list.splits)

text \<open>What the sender of a stream has put into it when \<^verbatim>\<open>tcp_send\<close> returns.\<close>

lemma tcp_send_packet:
  assumes "wf_packet msg" "pkt_size msg + 2 < 65536"
  defines "q \<equiv> packet_append (packet_append_bytes empty_packet (store_u16 (htons (word_of_nat (pkt_size msg))))) msg"
  shows "content q = frame (content msg)" "pkt_size q = pkt_size msg + 2"
proof -
  let ?h = "packet_append_bytes empty_packet (store_u16 (htons (word_of_nat (pkt_size msg))))"
  have h: "?h = packet_of (store_u16 (htons (word_of_nat (pkt_size msg))))"
    by (simp add: packet_append_bytes_def packet_append_def empty_packet_def packet_of_def)
  show "content q = frame (content msg)" "pkt_size q = pkt_size msg + 2"
    using packet_append_content [of ?h msg] assms(1,2)
    by (simp_all add: q_def h frame_def) (simp_all add: packet_of_def)
qed

lemma tcp_send_sent:
  assumes "wf_packet msg" "pkt_size msg + 2 < 65536" "tcp_send msg ep = (Inr (), ep')"
  shows "ep_out ep' = ep_out ep @ [frame (content msg)]"
proof -
  obtain r ep1 where n: "next_send ep = (r, ep1)" by fastforce
  have l: "length (frame (content msg)) = pkt_size msg + 2" using assms(1) by simp
  show ?thesis
    using assms(3) next_send_simps [OF n] l
    by (cases r) (auto simp: tcp_send_def tcp_send_socket_def Let_def n tcp_send_packet [OF assms(1,2)] split: if_splits)
qed

lemma tcp_send_accepted:
  assumes "wf_packet msg" "pkt_size msg + 2 < 65536" "ep_sends ep = []"
  shows "tcp_send msg ep = (Inr (), ep\<lparr>ep_out := ep_out ep @ [frame (content msg)]\<rparr>)"
  using assms by (simp add: tcp_send_def tcp_send_socket_def next_send_def Let_def tcp_send_packet [OF assms(1,2)])

lemma udp_send_to_sent:
  assumes "udp_send_to msg a ep = (Inr (), ep')"
  shows "ep_out ep' = ep_out ep @ [(a, 128, content msg)]"
proof -
  obtain r ep1 where n: "next_send ep = (r, ep1)" by fastforce
  show ?thesis
    using assms next_send_simps [OF n]
    by (cases r) (auto simp: udp_send_to_def udp_send_to_socket_def Let_def n split: if_splits)
qed

lemma udp_receive_datagram:
  assumes p: "wf_packet p" and m: "m \<noteq> []" "length m \<le> length (pkt_bytes p)" and ep: "ep_in ep = Bytes (a, clen, m) # rest"
  shows "udp_receive lib p ep = (Inr (), set_size (length m) (p\<lparr>pkt_bytes := overwrite 0 m (pkt_bytes p)\<rparr>), ep\<lparr>ep_in := rest\<rparr>)"
  using assms
  by (simp add: udp_receive_def udp_receive_into_def udp_receive_from_socket_def reserved_size_eq write_block_def
      wf_packet_def)

section \<open>The interface of a connection\<close>

text \<open>
  The virtual functions \<^verbatim>\<open>send\<close> and \<^verbatim>\<open>receive\<close> of \<^verbatim>\<open>abs_connection\<close> and what their callers rely on.
  \<open>carried a a' b\<close>: what the endpoint has sent between the states \<open>a\<close> and \<open>a'\<close> is what the endpoint
  \<open>b\<close> of the peer receives next.  \<open>room p\<close>: the length of the messages that the packet \<open>p\<close> can
  receive.
\<close>

locale message_channel =
  fixes snd_msg :: "packet \<Rightarrow> 'e \<Rightarrow> unit res \<times> 'e"
    and rcv_msg :: "packet \<Rightarrow> 'e \<Rightarrow> unit res \<times> packet \<times> 'e"
    and carried :: "'e \<Rightarrow> 'e \<Rightarrow> 'e \<Rightarrow> bool"
    and room :: "packet \<Rightarrow> nat"
  assumes delivery: "wf_packet msg \<Longrightarrow> 0 < pkt_size msg \<Longrightarrow> pkt_size msg \<le> room p \<Longrightarrow> wf_packet p \<Longrightarrow> pkt_size p = 0
      \<Longrightarrow> snd_msg msg a = (Inr (), a') \<Longrightarrow> carried a a' b
      \<Longrightarrow> \<exists>p' b'. rcv_msg p b = (Inr (), p', b') \<and> wf_packet p' \<and> content p' = content msg"
    and receives_safely: "wf_packet p \<Longrightarrow> pkt_size p = 0 \<Longrightarrow> rcv_msg p b = (r, p', b')
      \<Longrightarrow> safe r \<and> wf_packet p' \<and> length (pkt_bytes p') = length (pkt_bytes p)"
begin

text \<open>
  A question and its answer: the client sends, the server answers what it has received, and the
  client receives the answer of the server to its own question.
\<close>

lemma question_and_answer:
  assumes q: "wf_packet q" "0 < pkt_size q" "pkt_size q \<le> room ps" and ps: "wf_packet ps" "pkt_size ps = 0"
    and ask: "snd_msg q a = (Inr (), a1)" "carried a a1 b"
    and handler: "\<And>p. content p = content q \<Longrightarrow> wf_packet p
      \<Longrightarrow> content (answer p) = ans \<and> wf_packet (answer p) \<and> 0 < pkt_size (answer p) \<and> pkt_size (answer p) \<le> room pc"
    and reply: "\<And>p b1. rcv_msg ps b = (Inr (), p, b1) \<Longrightarrow> \<exists>b2 a2. snd_msg (answer p) b1 = (Inr (), b2) \<and> carried b1 b2 a2"
    and pc: "wf_packet pc" "pkt_size pc = 0"
  shows "\<exists>p b1 b2 a2 pc' a3. rcv_msg ps b = (Inr (), p, b1) \<and> snd_msg (answer p) b1 = (Inr (), b2)
    \<and> carried b1 b2 a2 \<and> rcv_msg pc a2 = (Inr (), pc', a3) \<and> content pc' = ans"
proof -
  obtain p b1 where p: "rcv_msg ps b = (Inr (), p, b1)" "wf_packet p" "content p = content q"
    using delivery [OF q ps ask] by blast
  obtain b2 a2 where r: "snd_msg (answer p) b1 = (Inr (), b2)" "carried b1 b2 a2"
    using reply [OF p(1)] by blast
  have an: "content (answer p) = ans" "wf_packet (answer p)" "0 < pkt_size (answer p)" "pkt_size (answer p) \<le> room pc"
    using handler [OF p(3,2)] by blast+
  show ?thesis using delivery [OF an(2-4) pc r] an(1) p(1) r by blast
qed

end

definition udp_carried :: "udp_end \<Rightarrow> udp_end \<Rightarrow> udp_end \<Rightarrow> bool" where
  "udp_carried a a' b \<longleftrightarrow> (\<exists>dst len m src clen rest.
     ep_out a' = ep_out a @ [(dst, len, m)] \<and> ep_in b = Bytes (src, clen, m) # rest)"

definition tcp_carried :: "tcp_end \<Rightarrow> tcp_end \<Rightarrow> tcp_end \<Rightarrow> bool" where
  "tcp_carried a a' b \<longleftrightarrow> (\<exists>new c cs rest. ep_out a' = ep_out a @ new \<and> segments (concat new) (c # cs)
     \<and> 2 \<le> length c \<and> ep_in b = map Bytes (c # cs) @ rest)"

interpretation udp: message_channel "\<lambda>m. udp_send_to m dst" "udp_receive lib" udp_carried "\<lambda>p. length (pkt_bytes p)"
proof
  fix msg p a a' b
  assume msg: "wf_packet msg" "0 < pkt_size msg" "pkt_size msg \<le> length (pkt_bytes p)" and p: "wf_packet p" "pkt_size p = 0"
    and s: "udp_send_to msg dst a = (Inr (), a')" and c: "udp_carried a a' b"
  obtain src clen rest where b: "ep_in b = Bytes (src, clen, content msg) # rest"
    using c udp_send_to_sent [OF s] by (auto simp: udp_carried_def)
  have len: "length (content msg) = pkt_size msg" "content msg \<noteq> []" using msg by (auto simp flip: length_greater_0_conv)
  show "\<exists>p' b'. udp_receive lib p b = (Inr (), p', b') \<and> wf_packet p' \<and> content p' = content msg"
    using udp_receive_datagram [OF p(1) len(2) _ b, of lib] len(1) msg(3) p(1)
    by (auto simp: wf_packet_def content_def overwrite_def)
next
  show "wf_packet p \<Longrightarrow> pkt_size p = 0 \<Longrightarrow> udp_receive lib p b = (r, p', b')
    \<Longrightarrow> safe r \<and> wf_packet p' \<and> length (pkt_bytes p') = length (pkt_bytes p)" for p b r p' b'
    using udp_receive_keeps [of p lib b r p' b'] by blast
qed

interpretation tcp: message_channel tcp_send tcp_receive tcp_carried "\<lambda>p. length (pkt_bytes p) - 2"
proof
  fix msg p a a' b
  assume msg: "wf_packet msg" "0 < pkt_size msg" "pkt_size msg \<le> length (pkt_bytes p) - 2" and p: "wf_packet p" "pkt_size p = 0"
    and s: "tcp_send msg a = (Inr (), a')" and c: "tcp_carried a a' b"
  have fits: "length (content msg) + 2 \<le> length (pkt_bytes p)" "pkt_size msg + 2 < 65536" "content msg \<noteq> []"
    using msg p(1) by (auto simp: wf_packet_def simp flip: length_greater_0_conv)
  obtain ch cs rest where b: "ep_in b = map Bytes (ch # cs) @ rest" "segments (frame (content msg)) (ch # cs)" "2 \<le> length ch"
    using c tcp_send_sent [OF msg(1) fits(2) s] by (auto simp: tcp_carried_def)
  show "\<exists>p' b'. tcp_receive p b = (Inr (), p', b') \<and> wf_packet p' \<and> content p' = content msg"
    using tcp_receive_segments [OF p fits(3,1) b] packet_append_fits [OF p, of "content msg"] fits(1) by simp
next
  show "wf_packet p \<Longrightarrow> pkt_size p = 0 \<Longrightarrow> tcp_receive p b = (r, p', b')
    \<Longrightarrow> safe r \<and> wf_packet p' \<and> length (pkt_bytes p') = length (pkt_bytes p)" for p b r p' b'
    using tcp_receive_keeps [of p b r p' b'] by blast
qed

section \<open>Properties\<close>

text \<open>
  C12. A message sent on a stream arrives, however the network cuts it into segments.  When \<^verbatim>\<open>tcp_send\<close>
  returns and the bytes it has put into the stream reach the peer in any non-empty segments, of which
  the first has at least the two bytes of the length, \<^verbatim>\<open>tcp_receive\<close> waits for all of them and
  returns the message, byte for byte; what comes behind them stays in the stream.
\<close>

theorem tcp_message_round_trip:
  assumes "wf_packet msg" "0 < pkt_size msg" "wf_packet p" "pkt_size p = 0" "pkt_size msg + 2 \<le> length (pkt_bytes p)"
    and "tcp_send msg a = (Inr (), a')"
    and "ep_out a' = ep_out a @ new" "segments (concat new) (c # cs)" "2 \<le> length c" "ep_in b = map Bytes (c # cs) @ rest"
  shows "\<exists>p'. tcp_receive p b = (Inr (), p', b\<lparr>ep_in := rest\<rparr>) \<and> wf_packet p' \<and> content p' = content msg"
proof -
  have fits: "length (content msg) + 2 \<le> length (pkt_bytes p)" "pkt_size msg + 2 < 65536" "content msg \<noteq> []"
    using assms(1-3,5) by (auto simp: wf_packet_def simp flip: length_greater_0_conv)
  have "segments (frame (content msg)) (c # cs)"
    using tcp_send_sent [OF assms(1) fits(2) assms(6)] assms(7,8) by simp
  from tcp_receive_segments [OF assms(3,4) fits(3,1) assms(10) this assms(9)] show ?thesis
    using packet_append_fits [OF assms(3,4), of "content msg"] fits(1) by simp
qed

definition sample_tcp :: "byte list arrival list \<Rightarrow> tcp_end" where
  "sample_tcp arrivals = \<lparr>ep_handle = 5, ep_error = Some 0, ep_in = arrivals, ep_sends = [], ep_out = [], ep_close = 0\<rparr>"

lemma frame_3: "frame [a, b, c] = [0, 3, a, b, c]"
proof -
  have "length [a, b, c] = 3" by simp
  moreover have "store_u16 (htons (word_of_nat 3)) = [0, 3]"
    by (simp add: store_u16_def htons_def unat_of_nat_u16)
  ultimately show ?thesis unfolding frame_def by (simp only: append.simps)
qed

theorem tcp_message_round_trip_witness:
  "let msg = packet_of [10, 20, 30]; p = reserve 12 empty_packet;
       b = sample_tcp [Bytes [0, 3, 10], Bytes [20], Bytes [30], End_of_stream]
   in tcp_send msg (sample_tcp []) = (Inr (), (sample_tcp [])\<lparr>ep_out := [[0, 3, 10, 20, 30]]\<rparr>)
    \<and> (\<exists>p'. tcp_receive p b = (Inr (), p', b\<lparr>ep_in := [End_of_stream]\<rparr>) \<and> wf_packet p' \<and> content p' = content msg)"
proof -
  have s: "tcp_send (packet_of [10, 20, 30]) (sample_tcp []) = (Inr (), (sample_tcp [])\<lparr>ep_out := [[0, 3, 10, 20, 30]]\<rparr>)"
    using tcp_send_accepted [of "packet_of [10, 20, 30]" "sample_tcp []"]
    by (simp add: frame_3) (simp add: sample_tcp_def packet_of_def)
  have "wf_packet (packet_of [10, 20, 30])" "wf_packet (reserve 12 empty_packet)"
    by (simp_all add: wf_reserve empty_packet_def wf_packet_def reserve_def packet_of_def)
  from tcp_message_round_trip [OF this(1) _ this(2) _ _ s, of "[[0, 3, 10, 20, 30]]" "[0, 3, 10]" "[[20], [30]]"
      "sample_tcp [Bytes [0, 3, 10], Bytes [20], Bytes [30], End_of_stream]" "[End_of_stream]"] s
  show ?thesis
    by (simp add: packet_of_def empty_packet_def segments_def sample_tcp_def)
qed



text \<open>
  C25. Packets stay packets: whatever arrives at a datagram socket or a stream, in whatever pieces and
  with whatever errors, receiving into an empty packet gives a packet again, with the same storage and
  a size within it, also when it throws, and never writes outside of the storage.
\<close>

theorem receiving_keeps_packets:
  assumes "wf_packet p" "pkt_size p = 0"
  shows "(case udp_receive lib p ep of (r, p', _) \<Rightarrow> safe r \<and> wf_packet p' \<and> length (pkt_bytes p') = length (pkt_bytes p))
    \<and> (case tcp_receive p st of (r, p', _) \<Rightarrow> safe r \<and> wf_packet p' \<and> length (pkt_bytes p') = length (pkt_bytes p))"
  using udp_receive_keeps [OF assms(1), of lib ep] tcp_receive_keeps [OF assms, of st] by (auto split: prod.split)

theorem receiving_keeps_packets_witness:
  "\<forall>lib ep st. wf_packet (fst (snd (udp_receive lib (reserve 12 empty_packet) ep)))
     \<and> wf_packet (fst (snd (tcp_receive (reserve 12 empty_packet) st)))"
proof (intro allI)
  fix lib ep st
  have "wf_packet (reserve 12 empty_packet)" "pkt_size (reserve 12 empty_packet) = 0"
    by (simp_all add: wf_packet_def empty_packet_def reserve_def)
  from receiving_keeps_packets [OF this, of lib ep st]
  show "wf_packet (fst (snd (udp_receive lib (reserve 12 empty_packet) ep)))
     \<and> wf_packet (fst (snd (tcp_receive (reserve 12 empty_packet) st)))"
    by (auto split: prod.splits)
qed

end
