(* ===== verification/Upstream.thy ===== *)
theory Upstream
  imports Connection Complex_Main
begin

text \<open>
  Requests to providers (\<^verbatim>\<open>network/upstream.hxx\<close>, \<^verbatim>\<open>network/srcz/upstream.cpp\<close>,
  \<^verbatim>\<open>network/timeout.hxx\<close>, \<^verbatim>\<open>network/srcz/timeout.cpp\<close>).

  A request is an object with three watchers of the event loop: for the socket becoming writable, for
  the socket becoming readable and for the timeout.  The loop calls a handler only while its watcher is
  started.  The handlers catch \<^verbatim>\<open>net_error\<close> at two levels; any other exception leaves the loop, which
  is the result \<open>Inl\<close> of a handler.

  What differs between plain and encrypting providers, and the class that a request belongs to, are
  the parameters \<open>provider_ops\<close>: \<^verbatim>\<open>fold\<close>, \<^verbatim>\<open>unfold\<close>, \<^verbatim>\<open>mark_servfail\<close>, and whether the virtual
  \<^verbatim>\<open>pass_answer_downstream\<close> returns for a message.  The messages given to it are kept in
  \<open>us_passed\<close>.
\<close>

section \<open>Definitions\<close>

subsection \<open>Stateful code that may throw\<close>

definition andthen :: "'a res \<times> 's \<Rightarrow> ('a \<Rightarrow> 's \<Rightarrow> 'b res \<times> 's) \<Rightarrow> 'b res \<times> 's" where
  "andthen m f = (case m of (Inl e, s) \<Rightarrow> (Inl e, s) | (Inr x, s) \<Rightarrow> f x s)"

fun is_net_error :: "exn \<Rightarrow> bool" where
  "is_net_error (Net_error m) = True"
| "is_net_error e = False"

definition catch_net :: "'a res \<times> 's \<Rightarrow> ('s \<Rightarrow> 'a res \<times> 's) \<Rightarrow> 'a res \<times> 's" where
  "catch_net m handler =
     (case m of (Inl e, s) \<Rightarrow> if is_net_error e then handler s else (Inl e, s) | (Inr x, s) \<Rightarrow> (Inr x, s))"

subsection \<open>The request\<close>

datatype connection = Udp_conn address udp_end | Tcp_conn tcp_end

record provider_ops =
  po_lib :: inet_lib
  po_fold :: "packet \<Rightarrow> packet res"
  po_unfold :: "packet \<Rightarrow> packet res"
  po_servfail :: "packet \<Rightarrow> packet res"
  po_pass :: "packet \<Rightarrow> unit res"

record upstream =
  us_conn :: connection
  us_question :: packet
  us_send :: bool
  us_receive :: bool
  us_timeout :: bool
  us_failures :: nat
  us_passed :: "packet list"

fun conn_handle :: "connection \<Rightarrow> int" where
  "conn_handle (Udp_conn a ep) = ep_handle ep"
| "conn_handle (Tcp_conn ep) = ep_handle ep"

text \<open>The virtual functions of the connection.\<close>

fun conn_send :: "packet \<Rightarrow> connection \<Rightarrow> unit res \<times> connection" where
  "conn_send msg (Udp_conn a ep) = apsnd (Udp_conn a) (udp_send_to msg a ep)"
| "conn_send msg (Tcp_conn ep) = apsnd Tcp_conn (tcp_send msg ep)"

fun conn_receive :: "inet_lib \<Rightarrow> packet \<Rightarrow> connection \<Rightarrow> unit res \<times> packet \<times> connection" where
  "conn_receive lib p (Udp_conn a ep) = apsnd (apsnd (Udp_conn a)) (udp_receive lib p ep)"
| "conn_receive lib p (Tcp_conn ep) = apsnd (apsnd Tcp_conn) (tcp_receive p ep)"

fun conn_close :: "connection \<Rightarrow> unit res \<times> connection" where
  "conn_close (Udp_conn a ep) = apsnd (Udp_conn a) (close_connection ep)"
| "conn_close (Tcp_conn ep) = apsnd Tcp_conn (close_connection ep)"

fun conn_descriptor :: "connection \<Rightarrow> int res" where
  "conn_descriptor (Udp_conn a ep) = connection_descriptor ep"
| "conn_descriptor (Tcp_conn ep) = connection_descriptor ep"

text \<open>The test of the handlers: a datagram socket counts as connected.\<close>

fun conn_ready :: "connection \<Rightarrow> bool res" where
  "conn_ready (Udp_conn a ep) = Inr True"
| "conn_ready (Tcp_conn ep) = is_connected (ep_handle ep) (ep_error ep)"

definition upstream_close :: "upstream \<Rightarrow> upstream" where
  "upstream_close u = u\<lparr>us_receive := False, us_send := False, us_timeout := False\<rparr>"

text \<open>The overriding \<^verbatim>\<open>close\<close> of \<^verbatim>\<open>udp::out\<close> and \<^verbatim>\<open>tcp::upstream\<close>.\<close>

definition request_close :: "upstream \<Rightarrow> unit res \<times> upstream" where
  "request_close u =
     (let u' = upstream_close u; (r, c) = conn_close (us_conn u') in (r, u'\<lparr>us_conn := c\<rparr>))"

definition pass_answer :: "provider_ops \<Rightarrow> upstream \<Rightarrow> unit res \<times> upstream" where
  "pass_answer ops u = (po_pass ops (us_question u), u\<lparr>us_passed := us_passed u @ [us_question u]\<rparr>)"

definition pass_failure_downstream :: "provider_ops \<Rightarrow> upstream \<Rightarrow> unit res \<times> upstream" where
  "pass_failure_downstream ops u =
     andthen (request_close u) (\<lambda>_ u.
       if pkt_size (us_question u) > 0 \<and> is_dns (us_question u) then
         case po_servfail ops (us_question u) of
           Inl e \<Rightarrow> (Inl e, u)
         | Inr q \<Rightarrow> pass_answer ops (u\<lparr>us_question := q, us_failures := us_failures u + 1\<rparr>)
       else (Inr (), u))"

definition upstream_start :: "upstream \<Rightarrow> upstream" where
  "upstream_start u = u\<lparr>us_receive := True\<rparr>"

definition fold_and_send :: "provider_ops \<Rightarrow> upstream \<Rightarrow> unit res \<times> upstream" where
  "fold_and_send ops u =
     (case po_fold ops (us_question u) of
        Inl e \<Rightarrow> (Inl e, u)
      | Inr q \<Rightarrow>
          let u = u\<lparr>us_question := q\<rparr>; (r, c) = conn_send q (us_conn u) in
          andthen (r, u\<lparr>us_conn := c\<rparr>) (\<lambda>_ u. (Inr (), u\<lparr>us_question := set_size 0 (us_question u)\<rparr>)))"

definition begin_receiving :: "upstream \<Rightarrow> unit res \<times> upstream" where
  "begin_receiving u =
     (if pkt_size (us_question u) \<le> 0 then
        andthen (conn_descriptor (us_conn u), u) (\<lambda>_ u. (Inr (), (upstream_start u)\<lparr>us_send := False\<rparr>))
      else (Inr (), u))"

definition send_question :: "provider_ops \<Rightarrow> upstream \<Rightarrow> unit res \<times> upstream" where
  "send_question ops u =
     (if pkt_size (us_question u) > 0 then
        andthen (catch_net (fold_and_send ops u) (pass_failure_downstream ops)) (\<lambda>_. begin_receiving)
      else (Inr (), u\<lparr>us_send := False\<rparr>))"

definition on_send :: "provider_ops \<Rightarrow> upstream \<Rightarrow> unit res \<times> upstream" where
  "on_send ops u =
     catch_net
       (andthen (conn_ready (us_conn u), u) (\<lambda>connected u.
          if connected then send_question ops u else (Inr (), u)))
       (pass_failure_downstream ops)"

definition receive_answer :: "provider_ops \<Rightarrow> upstream \<Rightarrow> unit res \<times> upstream" where
  "receive_answer ops u =
     (let u = u\<lparr>us_question := set_size 0 (us_question u)\<rparr>;
          (r, q, c) = conn_receive (po_lib ops) (us_question u) (us_conn u)
      in andthen (r, u\<lparr>us_question := q, us_conn := c\<rparr>) (\<lambda>_ u.
           andthen (request_close u) (\<lambda>_ u.
             case po_unfold ops (us_question u) of
               Inl e \<Rightarrow> (Inl e, u)
             | Inr q \<Rightarrow> pass_answer ops (u\<lparr>us_question := q\<rparr>))))"

definition on_receive :: "provider_ops \<Rightarrow> upstream \<Rightarrow> unit res \<times> upstream" where
  "on_receive ops u =
     catch_net
       (andthen (conn_ready (us_conn u), u) (\<lambda>connected u.
          if connected then catch_net (receive_answer ops u) (pass_failure_downstream ops)
          else (Inr (), u)))
       (pass_failure_downstream ops)"

definition timeout_callback :: "upstream \<Rightarrow> unit res \<times> upstream" where
  "timeout_callback u = andthen (request_close u) (\<lambda>_ u. (Inr (), u\<lparr>us_timeout := False\<rparr>))"

subsection \<open>Construction\<close>

definition new_timeout :: "real \<Rightarrow> bool res" where
  "new_timeout secs = (if 1 / 1000000 > secs then Inl (Logic_error ''Too low timeout: '') else Inr True)"

definition new_upstream :: "connection \<Rightarrow> packet \<Rightarrow> real \<Rightarrow> upstream res" where
  "new_upstream c q secs =
     ebind (new_timeout secs) (\<lambda>t. Inr
       \<lparr>us_conn = c, us_question = q, us_send = False, us_receive = False, us_timeout = t, us_failures = 0,
        us_passed = []\<rparr>)"

text \<open>
  What the system answers while a request is constructed: to \<^verbatim>\<open>isfdtype\<close> and \<^verbatim>\<open>fcntl\<close> in \<^verbatim>\<open>unblock\<close>,
  and to \<^verbatim>\<open>connect\<close>.  The descriptor is that of the endpoint.
\<close>

record setup_results =
  su_issock :: int
  su_getfl :: int
  su_setfl :: int
  su_connect :: int
  su_errno :: int

definition open_socket :: "connection \<Rightarrow> unit res" where
  "open_socket c =
     (if is_valid (conn_handle c) then Inr () else Inl (Net_error ''Failed to create network socket''))"

definition start_sending :: "setup_results \<Rightarrow> upstream \<Rightarrow> upstream res" where
  "start_sending su u =
     ebind (unblock (su_issock su) (su_getfl su) (su_setfl su)) (\<lambda>_.
     ebind (conn_descriptor (us_conn u)) (\<lambda>_. Inr (u\<lparr>us_send := True\<rparr>)))"

definition udp_out :: "setup_results \<Rightarrow> address \<Rightarrow> udp_end \<Rightarrow> packet \<Rightarrow> real \<Rightarrow> upstream res" where
  "udp_out su a ep q secs =
     ebind (new_upstream (Udp_conn a ep) q secs) (\<lambda>u.
     ebind (open_socket (us_conn u)) (\<lambda>_. start_sending su u))"

definition tcp_upstream :: "setup_results \<Rightarrow> tcp_end \<Rightarrow> packet \<Rightarrow> real \<Rightarrow> upstream res" where
  "tcp_upstream su ep q secs =
     ebind (new_upstream (Tcp_conn ep) q secs) (\<lambda>u.
     ebind (open_socket (us_conn u)) (\<lambda>_.
     ebind (start_sending su u) (\<lambda>u.
     ebind (tcp_connect (su_connect su) (su_errno su)) (\<lambda>_. Inr u))))"

subsection \<open>The event loop\<close>

text \<open>
  The events of a request: its watchers, and a change of what the operating system has for its
  socket.  The second component is the exception that has left a handler; nothing runs after that.
\<close>

datatype up_event = Writable | Readable | Expired | Outside connection

definition leave :: "unit res \<times> upstream \<Rightarrow> upstream \<times> exn option" where
  "leave ru = (case ru of (Inl e, u) \<Rightarrow> (u, Some e) | (Inr _, u) \<Rightarrow> (u, None))"

fun up_step :: "provider_ops \<Rightarrow> up_event \<Rightarrow> upstream \<times> exn option \<Rightarrow> upstream \<times> exn option" where
  "up_step ops Writable (u, x) = leave (on_send ops u)"
| "up_step ops Readable (u, x) = leave (on_receive ops u)"
| "up_step ops Expired (u, x) = leave (timeout_callback u)"
| "up_step ops (Outside c) (u, x) = (u\<lparr>us_conn := c\<rparr>, x)"

fun same_socket :: "connection \<Rightarrow> connection \<Rightarrow> bool" where
  "same_socket (Udp_conn a e) (Udp_conn b f) \<longleftrightarrow> a = b \<and> ep_handle e = ep_handle f"
| "same_socket (Tcp_conn e) (Tcp_conn f) \<longleftrightarrow> ep_handle e = ep_handle f"
| "same_socket c d \<longleftrightarrow> False"

fun up_enabled :: "up_event \<Rightarrow> upstream \<times> exn option \<Rightarrow> bool" where
  "up_enabled Writable (u, x) \<longleftrightarrow> x = None \<and> us_send u"
| "up_enabled Readable (u, x) \<longleftrightarrow> x = None \<and> us_receive u"
| "up_enabled Expired (u, x) \<longleftrightarrow> x = None \<and> us_timeout u"
| "up_enabled (Outside c) (u, x) \<longleftrightarrow> same_socket (us_conn u) c"

section \<open>The invariant of a request\<close>

definition stopped :: "upstream \<Rightarrow> bool" where
  "stopped u \<longleftrightarrow> \<not> us_send u \<and> \<not> us_receive u \<and> \<not> us_timeout u \<and> \<not> is_valid (conn_handle (us_conn u))"

text \<open>
  An active request has its timeout running and its socket open, and has given nothing downstream; it
  either sends or waits for its answer, and then it has forgotten the question.  A request that is
  not active is stopped for good and has given at most one message downstream.
\<close>

definition active :: "upstream \<Rightarrow> bool" where
  "active u \<longleftrightarrow> us_timeout u \<and> is_valid (conn_handle (us_conn u)) \<and> us_passed u = []
     \<and> \<not> (us_send u \<and> us_receive u) \<and> (us_receive u \<longrightarrow> pkt_size (us_question u) = 0)"

definition wf_upstream :: "upstream \<times> exn option \<Rightarrow> bool" where
  "wf_upstream ux \<longleftrightarrow> active (fst ux) \<or> stopped (fst ux) \<and> length (us_passed (fst ux)) \<le> 1"

text \<open>The class of the request does not report a failure to respond as a network error.\<close>

definition passes_quietly :: "provider_ops \<Rightarrow> bool" where
  "passes_quietly ops \<longleftrightarrow> (\<forall>m e. po_pass ops m = Inl e \<longrightarrow> \<not> is_net_error e)"

lemma close_handle [simp]: "\<not> is_valid (ep_handle (snd (close_connection ep)))"
  by (simp add: close_connection_def)

lemma conn_close_handle [simp]: "\<not> is_valid (conn_handle (snd (conn_close c)))"
  by (cases c) simp_all

lemma request_close_result:
  assumes "request_close u = (r, u')"
  shows "stopped u'" "us_passed u' = us_passed u" "us_question u' = us_question u"
  using assms by (auto simp: request_close_def upstream_close_def stopped_def Let_def split: prod.splits)
    (metis conn_close_handle snd_conv)

lemma request_close_again:
  assumes "stopped u"
  shows "request_close u = (Inr (), u)"
proof -
  have "conn_close (us_conn u) = (Inr (), us_conn u)"
    using assms by (cases "us_conn u") (auto simp: stopped_def close_connection_def)
  then show ?thesis using assms by (simp add: request_close_def upstream_close_def stopped_def)
qed

lemma catch_net_cases:
  assumes "catch_net m h = (r, s)"
  obtains (returned) "m = (r, s)" "\<And>e. r = Inl e \<Longrightarrow> \<not> is_net_error e"
    | (caught) e s0 where "m = (Inl e, s0)" "is_net_error e" "h s0 = (r, s)"
  using assms by (auto simp: catch_net_def split: prod.splits sum.splits if_splits)

lemma andthen_cases:
  assumes "andthen m f = (r, s)"
  obtains (thrown) e where "m = (Inl e, s)" "r = Inl e"
    | (went_on) x s0 where "m = (Inr x, s0)" "f x s0 = (r, s)"
  using assms by (auto simp: andthen_def split: prod.splits sum.splits)

lemma stopped_update [simp]:
  "stopped (u\<lparr>us_question := q\<rparr>) = stopped u" "stopped (u\<lparr>us_failures := n\<rparr>) = stopped u"
  "stopped (u\<lparr>us_passed := l\<rparr>) = stopped u"
  by (simp_all add: stopped_def)

text \<open>
  A failure that is passed down stops the request and gives at most one message downstream; an
  exception of the network leaves it only before the message is given.
\<close>

lemma pass_failure_result:
  assumes "passes_quietly ops" "pass_failure_downstream ops u = (r, u')"
  shows "stopped u'" "\<exists>l. us_passed u' = us_passed u @ l \<and> length l \<le> 1"
    "\<And>e. r = Inl e \<Longrightarrow> is_net_error e \<Longrightarrow> us_passed u' = us_passed u"
proof -
  have "stopped u' \<and> (\<exists>l. us_passed u' = us_passed u @ l \<and> length l \<le> 1)
    \<and> (\<forall>e. r = Inl e \<longrightarrow> is_net_error e \<longrightarrow> us_passed u' = us_passed u)"
    using assms(2) unfolding pass_failure_downstream_def
  proof (cases rule: andthen_cases)
    case (thrown e)
    then show ?thesis using request_close_result [OF thrown(1)] by simp
  next
    case (went_on x u1)
    then show ?thesis
      using request_close_result [OF went_on(1)] assms(1)
      by (auto simp: pass_answer_def passes_quietly_def split: if_splits sum.splits)
  qed
  then show "stopped u'" "\<exists>l. us_passed u' = us_passed u @ l \<and> length l \<le> 1"
    "\<And>e. r = Inl e \<Longrightarrow> is_net_error e \<Longrightarrow> us_passed u' = us_passed u"
    by blast+
qed

lemma fst_leave [simp]: "fst (leave (r, u)) = u"
  by (cases r) (simp_all add: leave_def)

lemma wf_stopped: "stopped u \<Longrightarrow> length (us_passed u) \<le> 1 \<Longrightarrow> wf_upstream (leave (r, u))"
  by (simp add: wf_upstream_def)

lemma wf_active: "active u \<Longrightarrow> wf_upstream (leave (r, u))"
  by (simp add: wf_upstream_def)

lemma wf_pass_failure:
  assumes "passes_quietly ops" "us_passed u = []" "pass_failure_downstream ops u = (r, u')"
  shows "wf_upstream (leave (r, u'))"
  using pass_failure_result [OF assms(1,3)] assms(2) by (auto intro: wf_stopped)

lemma conn_send_handle: "conn_send q c = (r, c') \<Longrightarrow> conn_handle c' = conn_handle c"
  by (cases c) (auto simp: udp_send_to_def udp_send_to_socket_def tcp_send_def tcp_send_socket_def Let_def next_send_def
      split: list.splits send_result.splits if_splits)

lemma fold_and_send_result:
  assumes "active u" "us_send u" "fold_and_send ops u = (r, u')"
  shows "active u' \<and> \<not> us_receive u' \<and> (r = Inr () \<longrightarrow> pkt_size (us_question u') = 0)"
  using assms conn_send_handle
  by (auto simp: fold_and_send_def andthen_def active_def Let_def split: sum.splits prod.splits)

lemma conn_descriptor_quiet: "conn_descriptor c = Inl e \<Longrightarrow> \<not> is_net_error e"
  by (cases c) (auto simp: connection_descriptor_def split: if_splits)

text \<open>
  The two levels of handlers: whatever the guarded code does, if it leaves the request active or
  passes nothing before a network error, the whole handler keeps the invariant.
\<close>

lemma wf_catch_net:
  assumes "passes_quietly ops" "catch_net m (pass_failure_downstream ops) = (r, u')"
    and "\<And>r u1. m = (r, u1) \<Longrightarrow> wf_upstream (leave (r, u1))"
    and "\<And>e u1. m = (Inl e, u1) \<Longrightarrow> is_net_error e \<Longrightarrow> us_passed u1 = []"
  shows "wf_upstream (leave (r, u'))"
  using assms(2)
proof (cases rule: catch_net_cases)
  case returned
  then show ?thesis using assms(3) by simp
next
  case (caught e s0)
  then show ?thesis using wf_pass_failure [OF assms(1) assms(4)] by blast
qed

lemma pass_failure_net_error:
  assumes "passes_quietly ops" "catch_net m (pass_failure_downstream ops) = (Inl e, u')" "is_net_error e"
    and "\<And>e u1. m = (Inl e, u1) \<Longrightarrow> is_net_error e \<Longrightarrow> us_passed u1 = []"
  shows "us_passed u' = []"
  using assms(2)
proof (cases rule: catch_net_cases)
  case returned
  then show ?thesis using assms(3) by simp
next
  case (caught e' s0)
  then show ?thesis using pass_failure_result(3) [OF assms(1) caught(3) refl assms(3)] assms(4) by simp
qed

lemma begin_receiving_result:
  assumes "wf_upstream (u, x)" "begin_receiving u = (r, u')"
  shows "wf_upstream (leave (r, u'))" "r = Inl e \<Longrightarrow> \<not> is_net_error e"
  using assms conn_descriptor_quiet
  by (cases "us_conn u"; auto simp: begin_receiving_def andthen_def upstream_start_def wf_upstream_def active_def stopped_def
      connection_descriptor_def is_valid_def split: if_splits sum.splits)+

lemma send_question_result:
  assumes ops: "passes_quietly ops" and u: "active u" "us_send u" and r: "send_question ops u = (r, u')"
  shows "wf_upstream (leave (r, u'))" "r = Inl e \<Longrightarrow> is_net_error e \<Longrightarrow> us_passed u' = []"
proof -
  let ?inner = "catch_net (fold_and_send ops u) (pass_failure_downstream ops)"
  have passed: "us_passed u1 = []" if "fold_and_send ops u = (r, u1)" for r u1
    using fold_and_send_result [OF u that] by (simp add: active_def)
  have inner: "wf_upstream (leave (r, u1))" if "?inner = (r, u1)" for r u1
    by (rule wf_catch_net [OF ops that]) (use fold_and_send_result [OF u] passed in \<open>auto intro: wf_active\<close>)
  have "wf_upstream (leave (r, u')) \<and> (\<forall>e. r = Inl e \<longrightarrow> is_net_error e \<longrightarrow> us_passed u' = [])"
  proof (cases "pkt_size (us_question u) > 0")
    case True
    then have "andthen ?inner (\<lambda>_. begin_receiving) = (r, u')" using r by (simp add: send_question_def)
    then show ?thesis
    proof (cases rule: andthen_cases)
      case (thrown e)
      then show ?thesis
        using inner [OF thrown(1)] pass_failure_net_error [OF ops thrown(1)] passed by blast
    next
      case (went_on y u1)
      have "wf_upstream (u1, None)" using inner [OF went_on(1)] by (simp add: wf_upstream_def)
      from begin_receiving_result [OF this went_on(2)] show ?thesis by blast
    qed
  next
    case False
    then show ?thesis using r u by (auto simp: send_question_def active_def wf_upstream_def)
  qed
  then show "wf_upstream (leave (r, u'))" "r = Inl e \<Longrightarrow> is_net_error e \<Longrightarrow> us_passed u' = []" by blast+
qed

lemma wf_on_send:
  assumes ops: "passes_quietly ops" and u: "active u" "us_send u" and r: "on_send ops u = (r, u')"
  shows "wf_upstream (leave (r, u'))"
proof (rule wf_catch_net [OF ops r [unfolded on_send_def]])
  fix r1 u1
  assume "andthen (conn_ready (us_conn u), u) (\<lambda>c u. if c then send_question ops u else (Inr (), u)) = (r1, u1)"
  then show "wf_upstream (leave (r1, u1))"
    by (cases rule: andthen_cases) (use send_question_result(1) [OF ops u] u in \<open>auto intro: wf_active split: if_splits\<close>)
next
  fix e u1
  assume "andthen (conn_ready (us_conn u), u) (\<lambda>c u. if c then send_question ops u else (Inr (), u)) = (Inl e, u1)"
    and "is_net_error e"
  then show "us_passed u1 = []"
    by (cases rule: andthen_cases)
      (use send_question_result(2) [OF ops u] u in \<open>auto simp: active_def split: if_splits\<close>)
qed

text \<open>Receiving does not touch the descriptor.\<close>

definition kept :: "'m endpoint \<Rightarrow> 'm endpoint \<Rightarrow> bool" where
  "kept ep ep' \<longleftrightarrow> ep_handle ep' = ep_handle ep \<and> ep_close ep' = ep_close ep"

fun conn_kept :: "connection \<Rightarrow> connection \<Rightarrow> bool" where
  "conn_kept (Udp_conn a ep) c \<longleftrightarrow> (\<exists>ep'. c = Udp_conn a ep' \<and> kept ep ep')"
| "conn_kept (Tcp_conn ep) c \<longleftrightarrow> (\<exists>ep'. c = Tcp_conn ep' \<and> kept ep ep')"

lemma conn_kept_handle: "conn_kept c c' \<Longrightarrow> conn_handle c' = conn_handle c"
  by (cases c) (auto simp: kept_def)

lemma tcp_receive_socket_handle: "tcp_receive_socket k ep = (n, b, ep') \<Longrightarrow> kept ep ep'"
  by (auto simp: tcp_receive_socket_def kept_def split: list.splits arrival.splits)

lemma tcp_receive_loop_handle: "tcp_receive_loop q n m ep = (r, ep') \<Longrightarrow> kept ep ep'"
proof (induction q n m ep arbitrary: r ep' rule: tcp_receive_loop.induct)
  case (1 q n m ep)
  obtain n2 got ep1 where rcv: "tcp_receive_socket (cast_u16 (reserved_size q - n)) ep = (n2, got, ep1)"
    by (metis prod_cases3)
  note h = tcp_receive_socket_handle [OF rcv]
  note eq = 1(2) [unfolded tcp_receive_loop.simps [of q n] Let_def rcv prod.case]
  show ?case
  proof (cases "n < m \<and> \<not> n2 \<le> 0 \<and> safe (write_block (pkt_bytes q) n got)")
    case True
    then obtain b where b: "write_block (pkt_bytes q) n got = Inr b" by (auto simp: write_block_def split: if_splits)
    have "tcp_receive_loop (q\<lparr>pkt_bytes := b\<rparr>) (n + nat n2) m ep1 = (r, ep')" using eq True b by simp
    from 1(1) [OF _ rcv [symmetric] refl refl _ b this] show ?thesis using True h by (simp add: kept_def)
  next
    case False
    then show ?thesis using eq h by (auto simp: write_block_def kept_def split: if_splits)
  qed
qed

lemma tcp_receive_rest_handle:
  "tcp_receive_rest p q n ep = (r, p', ep') \<Longrightarrow> kept ep ep' \<and> (\<forall>e. r = Inl e \<longrightarrow> p' = p)"
  using tcp_receive_loop_handle [of q n]
  by (auto simp: tcp_receive_rest_def Let_def kept_def split: if_splits sum.splits prod.splits)

lemma tcp_receive_handle:
  assumes "tcp_receive p ep = (r, p', ep')"
  shows "kept ep ep' \<and> (\<forall>e. r = Inl e \<longrightarrow> p' = p)"
proof -
  let ?q = "reserve (reserved_size p) empty_packet"
  obtain n got ep1 where rcv: "tcp_receive_socket (reserved_size ?q) ep = (n, got, ep1)"
    by (metis prod_cases3)
  show ?thesis
    using assms [unfolded tcp_receive_def Let_def rcv prod.case] tcp_receive_socket_handle [OF rcv]
      tcp_receive_rest_handle [of p _ "nat n" ep1 r p' ep']
    by (auto simp: kept_def split: if_splits sum.splits)
qed

lemma udp_receive_handle:
  "udp_receive lib p ep = (r, p', ep') \<Longrightarrow> kept ep ep' \<and> (\<forall>e. r = Inl e \<longrightarrow> p' = p)"
  by (auto simp: udp_receive_def udp_receive_into_def udp_receive_from_socket_def Let_def ebind_def kept_def
      split: prod.splits sum.splits list.splits arrival.splits if_splits)

lemma conn_receive_handle:
  assumes "conn_receive lib q c = (r, q', c')"
  shows "conn_kept c c'" "r = Inl e \<Longrightarrow> q' = q"
proof -
  have "conn_kept c c' \<and> (\<forall>e. r = Inl e \<longrightarrow> q' = q)"
    using assms
    by (cases c) (auto simp: apsnd_def map_prod_def dest!: udp_receive_handle tcp_receive_handle split: prod.splits)
  then show "conn_kept c c'" "r = Inl e \<Longrightarrow> q' = q" by blast+
qed

lemma receive_answer_result:
  assumes ops: "passes_quietly ops" and u: "active u" "us_receive u" and r: "receive_answer ops u = (r, u')"
  shows "wf_upstream (leave (r, u'))" "r = Inl e \<Longrightarrow> is_net_error e \<Longrightarrow> us_passed u' = []"
proof -
  let ?u = "u\<lparr>us_question := set_size 0 (us_question u)\<rparr>"
  obtain r0 q c where rcv: "conn_receive (po_lib ops) (set_size 0 (us_question u)) (us_conn u) = (r0, q, c)"
    by (metis prod_cases3)
  let ?u1 = "u\<lparr>us_question := q, us_conn := c\<rparr>"
  note * = r [unfolded receive_answer_def Let_def, simplified, unfolded rcv, simplified]
  have "wf_upstream (leave (r, u')) \<and> (\<forall>e. r = Inl e \<longrightarrow> is_net_error e \<longrightarrow> us_passed u' = [])"
    using *
  proof (cases rule: andthen_cases)
    case (thrown e)
    then show ?thesis
      using conn_receive_handle [OF rcv] conn_kept_handle u by (auto simp: wf_upstream_def active_def)
  next
    case (went_on x u1)
    then have u1: "us_passed u1 = []" using u by (auto simp: active_def)
    show ?thesis using went_on(2)
    proof (cases rule: andthen_cases)
      case (thrown e)
      then show ?thesis using request_close_result [OF thrown(1)] u1 by (auto intro: wf_stopped)
    next
      case (went_on y u2)
      then show ?thesis
        using request_close_result [OF went_on(1)] u1 ops
        by (auto simp: pass_answer_def passes_quietly_def wf_upstream_def split: sum.splits)
    qed
  qed
  then show "wf_upstream (leave (r, u'))" "r = Inl e \<Longrightarrow> is_net_error e \<Longrightarrow> us_passed u' = []" by blast+
qed

lemma wf_on_receive:
  assumes ops: "passes_quietly ops" and u: "active u" "us_receive u" and r: "on_receive ops u = (r, u')"
  shows "wf_upstream (leave (r, u'))"
proof -
  let ?inner = "catch_net (receive_answer ops u) (pass_failure_downstream ops)"
  let ?outer = "andthen (conn_ready (us_conn u), u)
    (\<lambda>c u. if c then catch_net (receive_answer ops u) (pass_failure_downstream ops) else (Inr (), u))"
  have passed: "us_passed u1 = []" if "receive_answer ops u = (Inl e, u1)" "is_net_error e" for e u1
    using receive_answer_result(2) [OF ops u that(1) refl that(2)] .
  have outer: "u1 = u \<or> ?inner = (r1, u1)" if "?outer = (r1, u1)" for r1 u1
    using that by (cases rule: andthen_cases) (auto split: if_splits)
  have 1: "wf_upstream (leave (r1, u1))" if "?outer = (r1, u1)" for r1 u1
    using outer [OF that]
  proof
    assume "u1 = u" then show ?thesis using u(1) by (simp add: wf_active)
  next
    assume "?inner = (r1, u1)"
    from wf_catch_net [OF ops this receive_answer_result(1) [OF ops u] passed] show ?thesis .
  qed
  have 2: "us_passed u1 = []" if "?outer = (Inl e, u1)" "is_net_error e" for e u1
    using outer [OF that(1)]
  proof
    assume "u1 = u" then show ?thesis using u(1) by (simp add: active_def)
  next
    assume "?inner = (Inl e, u1)"
    from pass_failure_net_error [OF ops this that(2) passed] show ?thesis .
  qed
  show ?thesis by (rule wf_catch_net [OF ops r [unfolded on_receive_def] 1 2])
qed

lemma wf_timeout_callback:
  assumes "wf_upstream (u, x)" "timeout_callback u = (r, u')"
  shows "wf_upstream (leave (r, u'))"
  using assms(2) unfolding timeout_callback_def
proof (cases rule: andthen_cases)
  case (thrown e)
  then show ?thesis
    using request_close_result [OF thrown(1)] assms(1) by (auto simp: wf_upstream_def active_def)
next
  case (went_on y u1)
  then show ?thesis
    using request_close_result [OF went_on(1)] assms(1) by (auto simp: wf_upstream_def active_def stopped_def)
qed

lemma same_socket_handle: "same_socket c d \<Longrightarrow> conn_handle d = conn_handle c"
  by (cases "(c, d)" rule: same_socket.cases) auto

lemma up_step_preserves:
  assumes ops: "passes_quietly ops" and en: "up_enabled e ux" and wf: "wf_upstream ux"
  shows "wf_upstream (up_step ops e ux)"
proof -
  obtain u x where ux: "ux = (u, x)" by fastforce
  have act: "active u" if "us_send u \<or> us_receive u \<or> us_timeout u"
    using wf that by (auto simp: wf_upstream_def ux stopped_def)
  show ?thesis
  proof (cases e)
    case Writable
    obtain r u' where r: "on_send ops u = (r, u')" by fastforce
    then show ?thesis using wf_on_send [OF ops act _ r] en Writable by (simp add: ux)
  next
    case Readable
    obtain r u' where r: "on_receive ops u = (r, u')" by fastforce
    then show ?thesis using wf_on_receive [OF ops act _ r] en Readable by (simp add: ux)
  next
    case Expired
    obtain r u' where r: "timeout_callback u = (r, u')" by fastforce
    then show ?thesis using wf_timeout_callback [OF wf [unfolded ux] r] Expired by (simp add: ux)
  next
    case (Outside c)
    then show ?thesis
      using wf en same_socket_handle by (auto simp: ux wf_upstream_def active_def stopped_def)
  qed
qed

interpretation request: machine up_enabled "up_step ops" "\<lambda>ux. passes_quietly ops \<and> wf_upstream ux" for ops
  by unfold_locales (auto intro: up_step_preserves)

lemma new_requests:
  assumes "udp_out su a ep q secs = Inr u \<or> tcp_upstream su ep' q secs = Inr u"
  shows "active u" "us_send u" "us_question u = q"
  using assms
  by (auto simp: udp_out_def tcp_upstream_def new_upstream_def new_timeout_def open_socket_def start_sending_def active_def
      split: if_splits)

section \<open>A successful exchange\<close>

text \<open>The system reports no error when the socket is closed.\<close>

fun closes_well :: "connection \<Rightarrow> bool" where
  "closes_well (Udp_conn a ep) \<longleftrightarrow> ep_close ep = 0"
| "closes_well (Tcp_conn ep) \<longleftrightarrow> ep_close ep = 0"

lemma conn_close_well: "closes_well c \<Longrightarrow> fst (conn_close c) = Inr ()"
  by (cases c) (simp_all add: close_connection_def)

lemma closes_well_kept: "conn_kept c c' \<Longrightarrow> closes_well c' = closes_well c"
  by (cases c) (auto simp: kept_def)

text \<open>The provider receives a message on its endpoint in the way of the protocol.\<close>

fun conn_arrives :: "byte list \<Rightarrow> connection \<Rightarrow> bool" where
  "conn_arrives m (Udp_conn a ep) \<longleftrightarrow> (\<exists>src clen rest. ep_in ep = Bytes (src, clen, m) # rest)"
| "conn_arrives m (Tcp_conn ep) \<longleftrightarrow> (\<exists>c cs rest. ep_in ep = map Bytes (c # cs) @ rest \<and> segments (frame m) (c # cs) \<and> 2 \<le> length c)"

fun conn_room :: "connection \<Rightarrow> packet \<Rightarrow> nat" where
  "conn_room (Udp_conn a ep) p = length (pkt_bytes p)"
| "conn_room (Tcp_conn ep) p = length (pkt_bytes p) - 2"

lemma conn_receive_arrived:
  assumes "wf_packet p" "pkt_size p = 0" "m \<noteq> []" "length m \<le> conn_room c p" "conn_arrives m c"
  obtains p' c' where "conn_receive lib p c = (Inr (), p', c')" "wf_packet p'" "content p' = m"
    "conn_kept c c'"
proof (cases c)
  case (Udp_conn a ep)
  then obtain src clen rest where ep: "ep_in ep = Bytes (src, clen, m) # rest" using assms(5) by auto
  have len: "length m \<le> length (pkt_bytes p)" using assms(4) Udp_conn by simp
  show ?thesis
    using that udp_receive_datagram [OF assms(1,3) len ep, of lib] Udp_conn assms(1) len
    by (auto simp: wf_packet_def content_def overwrite_def kept_def)
next
  case (Tcp_conn ep)
  then obtain ch cs rest where ep: "ep_in ep = map Bytes (ch # cs) @ rest" "segments (frame m) (ch # cs)" "2 \<le> length ch"
    using assms(5) by auto
  have len: "length m + 2 \<le> length (pkt_bytes p)" using assms(3,4) Tcp_conn by (cases m) auto
  show ?thesis
    using that tcp_receive_segments [OF assms(1-3) len ep] packet_append_fits [OF assms(1,2), of m] len Tcp_conn by (auto simp: kept_def)
qed

lemma on_receive_answer:
  assumes u: "active u" "us_receive u" "wf_packet (us_question u)" and m: "m \<noteq> []" "length m \<le> conn_room (us_conn u) (us_question u)"
    "conn_arrives m (us_conn u)" and ready: "conn_ready (us_conn u) = Inr True"
    and close: "closes_well (us_conn u)"
    and unfold: "\<And>p. wf_packet p \<Longrightarrow> content p = m \<Longrightarrow> \<exists>p'. po_unfold ops p = Inr p' \<and> content p' = m' \<and> po_pass ops p' = Inr ()"
  shows "\<exists>u' a. on_receive ops u = (Inr (), u') \<and> stopped u' \<and> us_passed u' = [a] \<and> us_question u' = a \<and> content a = m'
    \<and> (\<exists>p. wf_packet p \<and> content p = m \<and> po_unfold ops p = Inr a)"
proof -
  let ?q = "set_size 0 (us_question u)"
  have q: "wf_packet ?q" "pkt_size ?q = 0" using u(3) by (simp_all add: wf_packet_def)
  have room: "length m \<le> conn_room (us_conn u) ?q" using m(2) by (cases "us_conn u") simp_all
  obtain p c where rcv: "conn_receive (po_lib ops) ?q (us_conn u) = (Inr (), p, c)" and p: "wf_packet p" "content p = m"
    and c: "conn_kept (us_conn u) c"
    using conn_receive_arrived [OF q m(1) room m(3)] by blast
  obtain p' where p': "po_unfold ops p = Inr p'" "content p' = m'" "po_pass ops p' = Inr ()" using unfold [OF p] by blast
  obtain c' where c': "conn_close c = (Inr (), c')" using close closes_well_kept [OF c] conn_close_well [of c] by (cases "conn_close c") auto
  then have "\<not> is_valid (conn_handle c')" using conn_close_handle [of c] by simp
  then show ?thesis
    using u(1,2) ready rcv c' p' p
    by (auto simp: on_receive_def receive_answer_def catch_net_def andthen_def request_close_def upstream_close_def
        pass_answer_def stopped_def active_def)
qed

section \<open>Properties\<close>

text \<open>
  C7. Every request ends properly.  In whatever order the event loop runs the handlers of a request and
  the network behaves: at most one message is ever passed downstream; while none has been, the timeout
  of the request is running and its socket is open, so the request cannot hang; and as soon as an
  answer or a failure was passed or the time is up, all watchers are stopped and the socket is closed,
  also when closing it fails.  The only assumption is that answering the client is not itself reported
  as a network error, which the responders do not do.
\<close>

theorem upstream_run_invariant:
  assumes "passes_quietly ops" "udp_out su a ep q secs = Inr u0 \<or> tcp_upstream su ep' q secs = Inr u0"
    and "run_events up_enabled (up_step ops) events (u0, None) = Some (u, x)"
  shows "length (us_passed u) \<le> 1
    \<and> (us_send u \<or> us_receive u \<longrightarrow> us_timeout u)
    \<and> (us_timeout u \<longrightarrow> us_passed u = [] \<and> is_valid (conn_handle (us_conn u)))
    \<and> (\<not> us_timeout u \<longrightarrow> stopped u)"
proof -
  have "wf_upstream (u0, None)" using new_requests(1) [OF assms(2)] by (simp add: wf_upstream_def)
  then have "wf_upstream (u, x)" using request.run_invariant [OF assms(3)] assms(1) by blast
  then show ?thesis by (auto simp: wf_upstream_def active_def stopped_def)
qed

text \<open>
  C37. After the question has been sent, no failure reaches the client.  A request that waits for its
  answer has cleared its question, so when the provider does not answer in time, or receiving fails, the
  request is stopped and nothing at all is passed downstream: there is no message to mark as a server
  failure, and the failure of the provider is not counted.
\<close>

theorem lost_answers_are_silent:
  assumes u: "active u" "us_receive u" "closes_well (us_conn u)"
  shows "(\<exists>u'. timeout_callback u = (Inr (), u') \<and> stopped u' \<and> us_passed u' = [] \<and> us_failures u' = us_failures u)
    \<and> (conn_ready (us_conn u) = Inr True \<and> fst (conn_receive (po_lib ops) (us_question u) (us_conn u)) = Inl (Net_error e) \<longrightarrow>
      (\<exists>u'. on_receive ops u = (Inr (), u') \<and> stopped u' \<and> us_passed u' = [] \<and> us_failures u' = us_failures u))"
proof (intro conjI impI)
  have cl: "\<exists>u'. request_close v = (Inr (), u') \<and> stopped u' \<and> us_passed u' = us_passed v \<and> us_failures u' = us_failures v
      \<and> us_question u' = us_question v" if "closes_well (us_conn v)" for v
    using conn_close_well [OF that] request_close_result [of v]
    by (cases "conn_close (us_conn v)") (auto simp: request_close_def upstream_close_def)
  have p: "us_passed u = []" "pkt_size (us_question u) = 0" using u(1,2) by (simp_all add: active_def)
  obtain u1 where u1: "request_close u = (Inr (), u1)" "stopped u1" "us_passed u1 = []" "us_failures u1 = us_failures u"
    using cl [OF u(3)] p(1) by auto
  show "\<exists>u'. timeout_callback u = (Inr (), u') \<and> stopped u' \<and> us_passed u' = [] \<and> us_failures u' = us_failures u"
    using u1 by (auto simp: timeout_callback_def andthen_def stopped_def)
  assume r: "conn_ready (us_conn u) = Inr True \<and> fst (conn_receive (po_lib ops) (us_question u) (us_conn u)) = Inl (Net_error e)"
  have q: "set_size 0 (us_question u) = us_question u" using p(2) by (simp add: set_size_def)
  obtain c where rcv: "conn_receive (po_lib ops) (us_question u) (us_conn u) = (Inl (Net_error e), us_question u, c)"
    and c: "conn_kept (us_conn u) c"
    using r conn_receive_handle [of "po_lib ops" "us_question u" "us_conn u"]
    by (cases "conn_receive (po_lib ops) (us_question u) (us_conn u)") auto
  obtain u2 where u2: "request_close (u\<lparr>us_conn := c\<rparr>) = (Inr (), u2)" "stopped u2" "us_passed u2 = []"
      "us_failures u2 = us_failures u" "pkt_size (us_question u2) = 0"
    using cl [of "u\<lparr>us_conn := c\<rparr>"] closes_well_kept [OF c] u(3) p by auto
  have "receive_answer ops u = (Inl (Net_error e), u\<lparr>us_conn := c\<rparr>)"
    by (simp add: receive_answer_def q rcv andthen_def)
  then show "\<exists>u'. on_receive ops u = (Inr (), u') \<and> stopped u' \<and> us_passed u' = [] \<and> us_failures u' = us_failures u"
    using r u2 by (simp add: on_receive_def catch_net_def andthen_def pass_failure_downstream_def)
qed

section \<open>Examples\<close>

text \<open>A plain provider, and requests to it over both protocols.\<close>

definition plain_ops :: provider_ops where
  "plain_ops = \<lparr>po_lib = sample_inet, po_fold = Inr, po_unfold = Inr, po_servfail = Inr, po_pass = (\<lambda>_. Inr ())\<rparr>"

definition sample_setup :: setup_results where
  "sample_setup = \<lparr>su_issock = 1, su_getfl = 2, su_setfl = 0, su_connect = -1, su_errno = einprogress\<rparr>"

definition waiting_request :: "connection \<Rightarrow> upstream" where
  "waiting_request c = \<lparr>us_conn = c, us_question = reserve 12 empty_packet, us_send = False, us_receive = True,
     us_timeout = True, us_failures = 0, us_passed = []\<rparr>"

definition sample_udp :: "byte list list \<Rightarrow> udp_end" where
  "sample_udp arrivals = \<lparr>ep_handle = 5, ep_error = Some 0, ep_in = map (\<lambda>b. Bytes (sample_address, 16, b)) arrivals,
     ep_sends = [], ep_out = [], ep_close = 0\<rparr>"

lemma waiting_request_active:
  "is_valid (conn_handle c) \<Longrightarrow> active (waiting_request c)" "wf_packet (us_question (waiting_request c))"
  by (simp_all add: active_def waiting_request_def empty_packet_def wf_packet_def reserve_def)

theorem upstream_run_invariant_witness:
  "let q = packet_of [1, 2, 3]; sent = \<lparr>us_conn = Udp_conn sample_address ((sample_udp [])\<lparr>ep_out := [(sample_address, 128, [1, 2, 3])]\<rparr>),
       us_question = set_size 0 q, us_send = False, us_receive = True, us_timeout = True, us_failures = 0, us_passed = []\<rparr>
   in run_events up_enabled (up_step plain_ops) [Writable] (sent\<lparr>us_conn := Udp_conn sample_address (sample_udp []), us_question := q,
         us_send := True, us_receive := False\<rparr>, None) = Some (sent, None)
    \<and> length (us_passed sent) \<le> 1 \<and> (\<not> us_timeout sent \<longrightarrow> stopped sent)"
proof -
  let ?q = "packet_of [1, 2, 3]"
  let ?u0 = "\<lparr>us_conn = Udp_conn sample_address (sample_udp []), us_question = ?q, us_send = True, us_receive = False,
    us_timeout = True, us_failures = 0, us_passed = []\<rparr>"
  let ?sent = "?u0\<lparr>us_conn := Udp_conn sample_address ((sample_udp [])\<lparr>ep_out := [(sample_address, 128, [1, 2, 3])]\<rparr>),
    us_question := set_size 0 ?q, us_send := False, us_receive := True\<rparr>"
  have ops: "passes_quietly plain_ops" by (simp add: passes_quietly_def plain_ops_def)
  have new: "udp_out sample_setup sample_address (sample_udp []) ?q 5 = Inr ?u0"
    by (simp add: udp_out_def new_upstream_def new_timeout_def open_socket_def start_sending_def unblock_def sample_setup_def
        sample_udp_def is_valid_def connection_descriptor_def)
  have run: "run_events up_enabled (up_step plain_ops) [Writable] (?u0, None) = Some (?sent, None)"
    by (simp add: on_send_def send_question_def fold_and_send_def plain_ops_def udp_send_to_def udp_send_to_socket_def
        next_send_def sample_udp_def andthen_def catch_net_def begin_receiving_def connection_descriptor_def upstream_start_def
        leave_def packet_of_def content_def apsnd_def numeral_3_eq_3 set_size_def)
  show ?thesis
    using upstream_run_invariant [OF ops disjI1 [OF new] run] run by (simp add: Let_def)
qed

theorem lost_answers_are_silent_witness:
  "let u = waiting_request (Udp_conn sample_address (sample_udp [])) in
   (\<exists>u'. timeout_callback u = (Inr (), u') \<and> stopped u' \<and> us_passed u' = [])
   \<and> (\<exists>u'. on_receive plain_ops u = (Inr (), u') \<and> stopped u' \<and> us_passed u' = [])"
proof -
  let ?u = "waiting_request (Udp_conn sample_address (sample_udp []))"
  have u: "active ?u" "us_receive ?u" "closes_well (us_conn ?u)"
    using waiting_request_active(1) by (simp_all add: waiting_request_def sample_udp_def is_valid_def)
  have r: "conn_ready (us_conn ?u) = Inr True
    \<and> fst (conn_receive (po_lib plain_ops) (us_question ?u) (us_conn ?u)) = Inl (Net_error ''Failed to receive[UDP]'')"
    by (simp add: waiting_request_def sample_udp_def udp_receive_def udp_receive_into_def udp_receive_from_socket_def)
  show ?thesis
    using lost_answers_are_silent [OF u, of plain_ops "''Failed to receive[UDP]''"] r by auto
qed

end
