(* ===== verification/Listener.thy ===== *)
theory Listener
  imports Responder_Run Upstream
begin

text \<open>
  Listeners and the requests of clients (\<^verbatim>\<open>network/listener.hxx\<close>, \<^verbatim>\<open>network/srcz/listener.cpp\<close>,
  \<^verbatim>\<open>network/incoming.hxx\<close>, \<^verbatim>\<open>network/srcz/incoming.cpp\<close>).

  A request object is shared: the listener has it in its vector of requests, and an upstream request
  that was made for it has it too; it is destroyed when nobody has it.  The model has an explicit
  store of the objects, the vector of their identities (\<open>ls_requests\<close>) and the identities that
  upstream requests refer to (\<open>ls_held\<close>).  The identity of a new request is the count of messages.

  The responder is a parameter: the operation \<^verbatim>\<open>process\<close> of the interface \<^verbatim>\<open>network::responder\<close> and
  what happens when an answer comes back from upstream.
\<close>

section \<open>Definitions\<close>

record incoming =
  in_message :: packet
  in_active :: bool
  in_sender :: address
  in_conn :: "tcp_end option"
  in_event :: bool

record 'r listener =
  ls_count :: nat
  ls_requests :: "nat list"
  ls_store :: "nat \<rightharpoonup> incoming"
  ls_held :: "nat list"
  ls_end :: udp_end
  ls_responder :: 'r

definition new_listener :: "udp_end \<Rightarrow> 'r \<Rightarrow> 'r listener" where
  "new_listener ep r =
     \<lparr>ls_count = 0, ls_requests = [], ls_store = Map.empty, ls_held = [], ls_end = ep, ls_responder = r\<rparr>"

text \<open>\<^verbatim>\<open>incoming::incoming\<close>, with the sender and the connection of the derived class.\<close>

definition new_incoming :: "real \<Rightarrow> packet \<Rightarrow> address \<Rightarrow> tcp_end option \<Rightarrow> incoming res" where
  "new_incoming secs msg a conn =
     ebind (new_timeout secs) (\<lambda>t. Inr
       \<lparr>in_message = msg, in_active = t, in_sender = a, in_conn = conn, in_event = False\<rparr>)"

definition is_closed :: "incoming \<Rightarrow> bool" where
  "is_closed req \<longleftrightarrow> \<not> in_active req"

definition update_request :: "nat \<Rightarrow> (incoming \<Rightarrow> incoming) \<Rightarrow> 'r listener \<Rightarrow> 'r listener" where
  "update_request i f l = l\<lparr>ls_store := (ls_store l)(i := map_option f (ls_store l i))\<rparr>"

definition close_incoming :: "nat \<Rightarrow> 'r listener \<Rightarrow> 'r listener" where
  "close_incoming i = update_request i (\<lambda>req. req\<lparr>in_event := False, in_active := False\<rparr>)"

subsection \<open>Responding\<close>

definition udp_respond :: "nat \<Rightarrow> address \<Rightarrow> packet \<Rightarrow> 'r listener \<Rightarrow> unit res \<times> 'r listener" where
  "udp_respond i a msg l =
     (let (r, ep) = udp_send_to msg a (ls_end l) in
      catch_net (andthen (r, l\<lparr>ls_end := ep\<rparr>) (\<lambda>_ l. (Inr (), close_incoming i l)))
        (\<lambda>l. (Inr (), close_incoming i l)))"

definition tcp_respond :: "nat \<Rightarrow> tcp_end \<Rightarrow> packet \<Rightarrow> 'r listener \<Rightarrow> unit res \<times> 'r listener" where
  "tcp_respond i conn msg l =
     (let (r, ep) = tcp_send msg conn in
      catch_net (andthen (r, update_request i (\<lambda>req. req\<lparr>in_conn := Some ep\<rparr>) l) (\<lambda>_ l. (Inr (), close_incoming i l)))
        (\<lambda>l. (Inr (), close_incoming i l)))"

definition respond :: "nat \<Rightarrow> packet \<Rightarrow> 'r listener \<Rightarrow> unit res \<times> 'r listener" where
  "respond i msg l =
     (case ls_store l i of
        None \<Rightarrow> (Inl Undefined_behaviour, l)
      | Some req \<Rightarrow>
          let l = update_request i (\<lambda>req. req\<lparr>in_message := msg\<rparr>) l in
          case in_conn req of
            None \<Rightarrow> udp_respond i (in_sender req) msg l
          | Some conn \<Rightarrow> tcp_respond i conn msg l)"

text \<open>What the responder decides: the request is closed, answered, or kept by an upstream request.\<close>

datatype reply = Close_request | Send_reply packet | Keep_request

definition deliver :: "nat \<Rightarrow> reply \<Rightarrow> 'r listener \<Rightarrow> unit res \<times> 'r listener" where
  "deliver i out l =
     (case out of
        Close_request \<Rightarrow> (Inr (), close_incoming i l)
      | Send_reply msg \<Rightarrow> respond i msg l
      | Keep_request \<Rightarrow> (Inr (), l\<lparr>ls_held := i # ls_held l\<rparr>))"

definition create_response :: "(packet \<Rightarrow> 'r \<Rightarrow> (reply \<times> 'r) res) \<Rightarrow> nat \<Rightarrow> 'r listener \<Rightarrow> unit res \<times> 'r listener" where
  "create_response proc i l =
     (if i \<notin> set (ls_requests l)
      then (Inl (Logic_error ''Creating response for non-queued incoming request''), l)
      else case ls_store l i of
          None \<Rightarrow> (Inl Undefined_behaviour, l)
        | Some req \<Rightarrow>
            case proc (in_message req) (ls_responder l) of
              Inl e \<Rightarrow> (Inl e, l)
            | Inr (out, r) \<Rightarrow> deliver i out (l\<lparr>ls_responder := r\<rparr>))"

text \<open>\<^verbatim>\<open>pass_answer_downstream\<close> of the upstream request that has the request.\<close>

definition answer_request :: "(packet \<Rightarrow> 'r \<Rightarrow> (reply \<times> 'r) res) \<Rightarrow> nat \<Rightarrow> packet \<Rightarrow> 'r listener \<Rightarrow> unit res \<times> 'r listener" where
  "answer_request pass i msg l =
     (case pass msg (ls_responder l) of
        Inl e \<Rightarrow> (Inl e, l)
      | Inr (out, r) \<Rightarrow> deliver i out (l\<lparr>ls_responder := r\<rparr>))"

subsection \<open>Accepting\<close>

text \<open>Objects that neither the listener nor an upstream request has are destroyed.\<close>

definition release :: "'r listener \<Rightarrow> 'r listener" where
  "release l = l\<lparr>ls_store := ls_store l |` (set (ls_requests l) \<union> set (ls_held l))\<rparr>"

definition request_open :: "'r listener \<Rightarrow> nat \<Rightarrow> bool" where
  "request_open l i = (case ls_store l i of Some req \<Rightarrow> \<not> is_closed req | None \<Rightarrow> False)"

definition clean_requests :: "'r listener \<Rightarrow> 'r listener" where
  "clean_requests l =
     (if ls_requests l \<noteq> [] then release (l\<lparr>ls_requests := garbage_loop (request_open l) (ls_requests l) 0 0\<rparr>) else l)"

definition add_request :: "incoming \<Rightarrow> 'r listener \<Rightarrow> 'r listener" where
  "add_request req l =
     l\<lparr>ls_requests := ls_requests l @ [ls_count l], ls_store := (ls_store l)(ls_count l \<mapsto> req)\<rparr>"

definition udp_make_incoming :: "inet_lib \<Rightarrow> (packet \<Rightarrow> 'r \<Rightarrow> (reply \<times> 'r) res) \<Rightarrow> real \<Rightarrow> 'r listener \<Rightarrow> unit res \<times> 'r listener" where
  "udp_make_incoming lib proc secs l =
     andthen (new_timeout secs, l) (\<lambda>_ l.
       let (r, msg, ep) = udp_receive_from lib new_query (ls_end l) in
       andthen (r, l\<lparr>ls_end := ep\<rparr>) (\<lambda>sender l.
         case sender of
           None \<Rightarrow> (Inl Undefined_behaviour, l)
         | Some a \<Rightarrow> andthen (new_incoming secs msg a None, l) (\<lambda>req l.
             if \<not> is_closed req then create_response proc (ls_count l) (add_request req l) else (Inr (), l))))"

text \<open>What the system answers when a connection is accepted.\<close>

record accept_results =
  ac_conn :: "tcp_end option"
  ac_stat :: int
  ac_from :: address
  ac_len :: nat
  ac_setup :: setup_results

definition accept_connection :: "inet_lib \<Rightarrow> accept_results \<Rightarrow> (tcp_end \<times> address) res" where
  "accept_connection lib ac =
     (case ac_conn ac of
        None \<Rightarrow> Inl (Net_error ''Failed to accept[TCP] on '')
      | Some ep \<Rightarrow>
          if ac_stat ac \<noteq> 0 then Inl (Runtime_error ''Bad file descriptor'')
          else ebind (address_of_sockaddr lib (ac_from ac) (cast_u16 (ac_len ac))) (\<lambda>a. Inr (ep, a)))"

definition new_tcp_incoming :: "inet_lib \<Rightarrow> real \<Rightarrow> accept_results \<Rightarrow> incoming res" where
  "new_tcp_incoming lib secs ac =
     ebind (new_timeout secs) (\<lambda>_.
     ebind (accept_connection lib ac) (\<lambda>(ep, a).
     ebind (new_incoming secs new_query a (Some ep)) (\<lambda>req.
     ebind (unblock (su_issock (ac_setup ac)) (su_getfl (ac_setup ac)) (su_setfl (ac_setup ac))) (\<lambda>_.
     ebind (connection_descriptor ep) (\<lambda>_. Inr (req\<lparr>in_event := True\<rparr>))))))"

definition tcp_make_incoming :: "inet_lib \<Rightarrow> real \<Rightarrow> accept_results \<Rightarrow> 'r listener \<Rightarrow> unit res \<times> 'r listener" where
  "tcp_make_incoming lib secs ac l =
     andthen (new_tcp_incoming lib secs ac, l) (\<lambda>req l.
       if \<not> is_closed req then (Inr (), add_request req l) else (Inr (), l))"

definition on_message :: "('r listener \<Rightarrow> unit res \<times> 'r listener) \<Rightarrow> 'r listener \<Rightarrow> unit res \<times> 'r listener" where
  "on_message make_incoming l = make_incoming (clean_requests (l\<lparr>ls_count := ls_count l + 1\<rparr>))"

definition tcp_on_receive :: "(packet \<Rightarrow> 'r \<Rightarrow> (reply \<times> 'r) res) \<Rightarrow> nat \<Rightarrow> 'r listener \<Rightarrow> unit res \<times> 'r listener" where
  "tcp_on_receive proc i l =
     (case ls_store l i of
        Some req \<Rightarrow>
          (case in_conn req of
             Some conn \<Rightarrow>
               let (r, msg, ep) = tcp_receive (in_message req) conn in
               catch_net
                 (andthen (r, update_request i (\<lambda>req. req\<lparr>in_message := msg, in_conn := Some ep\<rparr>) l) (\<lambda>_ l.
                    create_response proc i (update_request i (\<lambda>req. req\<lparr>in_event := False\<rparr>) l)))
                 (\<lambda>l. (Inr (), close_incoming i l))
           | None \<Rightarrow> (Inl Undefined_behaviour, l))
      | None \<Rightarrow> (Inl Undefined_behaviour, l))"

subsection \<open>The event loop\<close>

text \<open>
  The events of a listener: a datagram or a connection waits at its socket, a client's stream has
  data, the time of a request is up, an answer comes from upstream or the upstream request is
  destroyed, the network changes.  A handler runs only while its watcher is started.  Answers on which
  the code of the responder is undefined are excluded here; they are the subject of the theory of the
  responder.
\<close>

datatype ls_event =
    Datagram
  | Accepted accept_results
  | Stream nat
  | Time_up nat
  | Answer nat packet
  | Forget nat
  | Outside_udp udp_end
  | Outside_tcp nat tcp_end

definition leave_loop :: "unit res \<times> 's \<Rightarrow> 's \<times> exn option" where
  "leave_loop rs = (case rs of (Inl e, s) \<Rightarrow> (s, Some e) | (Inr _, s) \<Rightarrow> (s, None))"

fun ls_step :: "inet_lib \<Rightarrow> (packet \<Rightarrow> 'r \<Rightarrow> (reply \<times> 'r) res) \<Rightarrow> (packet \<Rightarrow> 'r \<Rightarrow> (reply \<times> 'r) res) \<Rightarrow> real \<Rightarrow> ls_event
    \<Rightarrow> 'r listener \<times> exn option \<Rightarrow> 'r listener \<times> exn option" where
  "ls_step lib proc pass secs Datagram (l, x) = leave_loop (on_message (udp_make_incoming lib proc secs) l)"
| "ls_step lib proc pass secs (Accepted ac) (l, x) = leave_loop (on_message (tcp_make_incoming lib secs ac) l)"
| "ls_step lib proc pass secs (Stream i) (l, x) = leave_loop (tcp_on_receive proc i l)"
| "ls_step lib proc pass secs (Time_up i) (l, x) = (close_incoming i l, x)"
| "ls_step lib proc pass secs (Answer i msg) (l, x) = leave_loop (answer_request pass i msg (l\<lparr>ls_held := removeAll i (ls_held l)\<rparr>))"
| "ls_step lib proc pass secs (Forget i) (l, x) = (release (l\<lparr>ls_held := removeAll i (ls_held l)\<rparr>), x)"
| "ls_step lib proc pass secs (Outside_udp ep) (l, x) = (l\<lparr>ls_end := ep\<rparr>, x)"
| "ls_step lib proc pass secs (Outside_tcp i ep) (l, x) = (update_request i (\<lambda>req. req\<lparr>in_conn := Some ep\<rparr>) l, x)"

fun ls_enabled :: "(packet \<Rightarrow> 'r \<Rightarrow> (reply \<times> 'r) res) \<Rightarrow> ls_event \<Rightarrow> 'r listener \<times> exn option \<Rightarrow> bool" where
  "ls_enabled pass (Stream i) (l, x) \<longleftrightarrow> x = None \<and> (case ls_store l i of Some req \<Rightarrow> in_event req | None \<Rightarrow> False)"
| "ls_enabled pass (Time_up i) (l, x) \<longleftrightarrow> x = None \<and> request_open l i"
| "ls_enabled pass (Answer i msg) (l, x) \<longleftrightarrow> x = None \<and> i \<in> set (ls_held l) \<and> safe (pass msg (ls_responder l))"
| "ls_enabled pass (Outside_tcp i ep) (l, x) \<longleftrightarrow> x = None \<and> (case ls_store l i of Some req \<Rightarrow> in_conn req \<noteq> None | None \<Rightarrow> False)"
| "ls_enabled pass e (l, x) \<longleftrightarrow> x = None"

section \<open>The invariant of a listener\<close>

text \<open>
  The request of a client that has not sent its question yet is in the vector, is not referred to by
  an upstream request, and has an empty message.
\<close>

definition wf_waiting :: "'r listener \<Rightarrow> nat \<Rightarrow> incoming \<Rightarrow> bool" where
  "wf_waiting l i req \<longleftrightarrow> in_active req \<and> i \<in> set (ls_requests l) \<and> i \<notin> set (ls_held l) \<and> in_conn req \<noteq> None
     \<and> wf_packet (in_message req) \<and> pkt_size (in_message req) = 0"

definition wf_listener :: "('r \<Rightarrow> bool) \<Rightarrow> 'r listener \<Rightarrow> bool" where
  "wf_listener ok l \<longleftrightarrow> ok (ls_responder l) \<and> distinct (ls_requests l)
     \<and> set (ls_requests l) \<union> set (ls_held l) \<subseteq> dom (ls_store l)
     \<and> (\<forall>i\<in>dom (ls_store l). i \<le> ls_count l)
     \<and> (\<forall>i req. ls_store l i = Some req \<longrightarrow> in_event req \<longrightarrow> wf_waiting l i req)"

lemmas wf_listener_simps = wf_listener_def wf_waiting_def

lemma wf_new_query: "wf_packet new_query" "pkt_size new_query = 0" "length (pkt_bytes new_query) = max_size"
  by (simp_all add: new_query_def wf_packet_def max_size_def empty_packet_def reserve_def)

lemma update_request_simps [simp]:
  "ls_count (update_request i f l) = ls_count l" "ls_requests (update_request i f l) = ls_requests l"
  "ls_held (update_request i f l) = ls_held l" "ls_end (update_request i f l) = ls_end l"
  "ls_responder (update_request i f l) = ls_responder l" "dom (ls_store (update_request i f l)) = dom (ls_store l)"
  "ls_store (update_request i f l) j = (if j = i then map_option f (ls_store l j) else ls_store l j)"
  by (auto simp: update_request_def)

lemma close_incoming_simps [simp]:
  "ls_count (close_incoming i l) = ls_count l" "ls_requests (close_incoming i l) = ls_requests l"
  "ls_held (close_incoming i l) = ls_held l" "ls_end (close_incoming i l) = ls_end l"
  "ls_responder (close_incoming i l) = ls_responder l" "dom (ls_store (close_incoming i l)) = dom (ls_store l)"
  by (simp_all add: close_incoming_def)

lemma wf_update_request:
  assumes "wf_listener ok l"
    and "\<And>req. ls_store l i = Some req \<Longrightarrow> in_event (f req) \<Longrightarrow> in_event req \<and> (wf_waiting l i req \<longrightarrow> wf_waiting l i (f req))"
  shows "wf_listener ok (update_request i f l)"
  using assms by (auto simp: wf_listener_simps split: if_splits)

lemma wf_close_incoming: "wf_listener ok l \<Longrightarrow> wf_listener ok (close_incoming i l)"
  unfolding close_incoming_def by (rule wf_update_request) simp_all

lemma wf_end: "wf_listener ok l \<Longrightarrow> wf_listener ok (l\<lparr>ls_end := ep\<rparr>)"
  by (simp add: wf_listener_simps)

text \<open>A handler of the listener keeps its invariant and does nothing undefined.\<close>

definition handles :: "('r \<Rightarrow> bool) \<Rightarrow> unit res \<times> 'r listener \<Rightarrow> bool" where
  "handles ok rl \<longleftrightarrow> safe (fst rl) \<and> wf_listener ok (snd rl)"

lemma handlesI [intro]: "safe r \<Longrightarrow> wf_listener ok l \<Longrightarrow> handles ok (r, l)"
  by (simp add: handles_def)

lemma handles_andthen:
  assumes "safe r" "wf_listener ok l" "\<And>x. r = Inr x \<Longrightarrow> handles ok (f x l)"
  shows "handles ok (andthen (r, l) f)"
  using assms by (cases r) (simp_all add: andthen_def handles_def safe_def)

lemma handles_catch_net:
  assumes "handles ok m" "\<And>l. wf_listener ok l \<Longrightarrow> handles ok (h l)"
  shows "handles ok (catch_net m h)"
  using assms by (cases m; cases "fst m") (auto simp: catch_net_def handles_def)

lemma safe_sends: "safe (fst (udp_send_to msg a ep))" "safe (fst (tcp_send msg ep'))"
  by (simp_all add: udp_send_to_def tcp_send_def Let_def split: prod.splits)

lemma handles_udp_respond: "wf_listener ok l \<Longrightarrow> handles ok (udp_respond i a msg l)"
  using safe_sends(1) [of msg a "ls_end l"]
  by (auto simp: udp_respond_def split: prod.split intro!: handles_catch_net handles_andthen wf_close_incoming wf_end)

lemma handles_tcp_respond:
  assumes "wf_listener ok l"
  shows "handles ok (tcp_respond i conn msg l)"
proof -
  have "wf_listener ok (update_request i (\<lambda>req. req\<lparr>in_conn := Some ep\<rparr>) l)" for ep
    by (rule wf_update_request [OF assms]) (simp add: wf_waiting_def)
  then show ?thesis
    using safe_sends(2) [of msg conn]
    by (auto simp: tcp_respond_def split: prod.split intro!: handles_catch_net handles_andthen wf_close_incoming)
qed

text \<open>An answer is given only to requests whose question has been received.\<close>

lemma handles_respond:
  assumes l: "wf_listener ok l" and i: "ls_store l i = Some req" "\<not> in_event req"
  shows "handles ok (respond i msg l)"
proof -
  have "wf_listener ok (update_request i (\<lambda>req. req\<lparr>in_message := msg\<rparr>) l)"
    by (rule wf_update_request [OF l]) (use i in simp)
  then show ?thesis
    using i by (auto simp: respond_def Let_def split: option.split intro!: handles_udp_respond handles_tcp_respond)
qed

lemma handles_deliver:
  assumes l: "wf_listener ok l" and i: "ls_store l i = Some req" "\<not> in_event req"
  shows "handles ok (deliver i out l)"
proof (cases out)
  case Keep_request
  have "wf_listener ok (l\<lparr>ls_held := i # ls_held l\<rparr>)"
    using l i by (auto simp: wf_listener_simps)
  then show ?thesis by (simp add: deliver_def Keep_request handles_def)
qed (use handles_respond [OF l i] wf_close_incoming [OF l] in \<open>auto simp: deliver_def\<close>)

lemma subseq_set: "subseq xs ys \<Longrightarrow> set xs \<subseteq> set ys"
  by (auto dest: list_emb_set)

lemma subseq_distinct: "subseq xs ys \<Longrightarrow> distinct ys \<Longrightarrow> distinct xs"
  by (induction rule: list_emb.induct) (auto dest: subseq_set)

lemma wf_release:
  assumes l: "wf_listener ok l" and s: "subseq reqs (ls_requests l)" "set held \<subseteq> set (ls_held l)"
  shows "wf_listener ok (release (l\<lparr>ls_requests := reqs, ls_held := held\<rparr>))"
proof -
  let ?l = "release (l\<lparr>ls_requests := reqs, ls_held := held\<rparr>)"
  have st: "ls_store ?l i = Some req \<longleftrightarrow> ls_store l i = Some req \<and> (i \<in> set reqs \<or> i \<in> set held)" for i req
    by (auto simp: release_def restrict_map_def)
  have w: "wf_waiting l i req" if "ls_store l i = Some req" "in_event req" for i req
    using l that by (simp add: wf_listener_def)
  have "wf_waiting ?l i req" if "ls_store ?l i = Some req" "in_event req" for i req
    using w [of i req] that s(2) unfolding st by (auto simp: wf_waiting_def release_def)
  moreover have "set reqs \<union> set held \<subseteq> dom (ls_store ?l)"
    using l subseq_set [OF s(1)] s(2) by (auto simp: wf_listener_def release_def)
  moreover have "\<forall>i\<in>dom (ls_store ?l). i \<le> ls_count l"
    using l by (simp add: wf_listener_def release_def)
  ultimately show ?thesis
    using l subseq_distinct [OF s(1)] unfolding wf_listener_def by (simp add: release_def)
qed

lemma clean_requests_simps [simp]:
  "ls_count (clean_requests l) = ls_count l" "ls_end (clean_requests l) = ls_end l"
  "ls_responder (clean_requests l) = ls_responder l"
  by (simp_all add: clean_requests_def release_def)

lemma wf_clean: "wf_listener ok l \<Longrightarrow> wf_listener ok (clean_requests l)"
  using wf_release [OF _ garbage_loop_subseq, of ok l "ls_held l"] by (simp add: clean_requests_def)

text \<open>The next message: its identity is new.\<close>

lemma wf_next_message:
  assumes "wf_listener ok l"
  defines "l' \<equiv> clean_requests (l\<lparr>ls_count := ls_count l + 1\<rparr>)"
  shows "wf_listener ok l'" "ls_count l' \<notin> dom (ls_store l')"
proof -
  let ?l = "l\<lparr>ls_count := ls_count l + 1\<rparr>"
  have "wf_listener ok ?l"
    using assms(1) by (auto simp: wf_listener_simps) (metis domI le_Suc_eq)
  then show "wf_listener ok l'" unfolding l'_def by (rule wf_clean)
  have "dom (ls_store l') \<subseteq> dom (ls_store l)"
    by (auto simp: l'_def clean_requests_def release_def restrict_map_def split: if_splits)
  moreover have "\<forall>i\<in>dom (ls_store l). i \<le> ls_count l" "ls_count l' = Suc (ls_count l)"
    using assms(1) by (simp_all add: wf_listener_def l'_def)
  then have "ls_count l' \<notin> dom (ls_store l)" by (metis Suc_n_not_le_n)
  ultimately show "ls_count l' \<notin> dom (ls_store l')" by blast
qed

lemma wf_add_request:
  assumes "wf_listener ok l" "ls_count l \<notin> dom (ls_store l)"
    and "in_event req \<Longrightarrow> in_active req \<and> in_conn req \<noteq> None \<and> wf_packet (in_message req) \<and> pkt_size (in_message req) = 0"
  shows "wf_listener ok (add_request req l)"
  using assms by (auto simp: wf_listener_simps add_request_def)

lemma udp_receive_from_sender:
  assumes "udp_receive_from lib p ep = (Inr a, p', ep')"
  shows "a \<noteq> None"
  using assms
  by (auto simp: udp_receive_from_def udp_receive_into_def udp_receive_from_socket_def Let_def ebind_def
      split: prod.splits sum.splits list.splits arrival.splits if_splits)

section \<open>The interface of the responder\<close>

text \<open>
  What a listener relies on: \<^verbatim>\<open>process\<close> does nothing undefined on any message, and both operations keep
  the invariant of the responder.
\<close>

locale query_service =
  fixes proc :: "packet \<Rightarrow> 'r \<Rightarrow> (reply \<times> 'r) res"
    and pass :: "packet \<Rightarrow> 'r \<Rightarrow> (reply \<times> 'r) res"
    and ok :: "'r \<Rightarrow> bool"
  assumes proc_safe: "wf_packet m \<Longrightarrow> ok r \<Longrightarrow> safe (proc m r)"
    and proc_ok: "proc m r = Inr (out, r') \<Longrightarrow> ok r \<Longrightarrow> ok r'"
    and pass_ok: "pass m r = Inr (out, r') \<Longrightarrow> ok r \<Longrightarrow> ok r'"
begin

lemma handles_create_response:
  assumes l: "wf_listener ok l" and i: "i \<in> set (ls_requests l)" "ls_store l i = Some req" "\<not> in_event req"
    and m: "wf_packet (in_message req)"
  shows "handles ok (create_response proc i l)"
proof (cases "proc (in_message req) (ls_responder l)")
  case (Inl e)
  moreover have "ok (ls_responder l)" using l by (simp add: wf_listener_def)
  ultimately show ?thesis using proc_safe [OF m, of "ls_responder l"] l i by (simp add: create_response_def handles_def safe_def)
next
  case (Inr a)
  obtain out r where a: "a = (out, r)" by fastforce
  have "wf_listener ok (l\<lparr>ls_responder := r\<rparr>)"
    using l proc_ok [OF Inr [unfolded a]] by (simp add: wf_listener_simps)
  from handles_deliver [OF this _ i(3), of i out] show ?thesis using Inr i by (simp add: create_response_def a)
qed

lemma handles_answer_request:
  assumes l: "wf_listener ok l" and i: "ls_store l i = Some req" "\<not> in_event req" and m: "safe (pass msg (ls_responder l))"
  shows "handles ok (answer_request pass i msg l)"
proof (cases "pass msg (ls_responder l)")
  case (Inl e)
  then show ?thesis using m l by (simp add: answer_request_def handles_def safe_def)
next
  case (Inr a)
  obtain out r where a: "a = (out, r)" by fastforce
  have "wf_listener ok (l\<lparr>ls_responder := r\<rparr>)"
    using l pass_ok [OF Inr [unfolded a]] by (simp add: wf_listener_simps)
  from handles_deliver [OF this _ i(2), of i out] show ?thesis using Inr i by (simp add: answer_request_def a)
qed

lemma handles_datagram:
  assumes "wf_listener ok l"
  shows "handles ok (on_message (udp_make_incoming lib proc secs) l)"
proof -
  define l' where "l' = clean_requests (l\<lparr>ls_count := ls_count l + 1\<rparr>)"
  have l': "wf_listener ok l'" "ls_count l' \<notin> dom (ls_store l')"
    unfolding l'_def by (rule wf_next_message [OF assms])+
  obtain r msg ep where rcv: "udp_receive_from lib new_query (ls_end l') = (r, msg, ep)" by (metis prod_cases3)
  have m: "safe r" "wf_packet msg"
    using udp_receive_into_safe [OF wf_new_query(1) rcv [unfolded udp_receive_from_def] udp_receive_from_socket_safe] by simp_all
  have snd: "a \<noteq> None" if "r = Inr a" for a
    using udp_receive_from_sender rcv that by blast
  have l2: "wf_listener ok (l'\<lparr>ls_end := ep\<rparr>)" using l'(1) by (rule wf_end)
  have fin: "handles ok (create_response proc (ls_count l') (add_request req (l'\<lparr>ls_end := ep\<rparr>)))"
    if "new_incoming secs msg a None = Inr req" for req a
  proof -
    have req: "\<not> in_event req" "in_message req = msg" using that by (auto simp: new_incoming_def)
    have "wf_listener ok (add_request req (l'\<lparr>ls_end := ep\<rparr>))"
      by (rule wf_add_request [OF l2]) (use l'(2) req in simp_all)
    then show ?thesis
      by (rule handles_create_response [where req = req]) (use req m in \<open>simp_all add: add_request_def\<close>)
  qed
  have "safe (new_timeout secs)" "safe (new_incoming secs msg a None)" for a
    by (simp_all add: new_timeout_def new_incoming_def)
  then have "handles ok (udp_make_incoming lib proc secs l')"
    using snd rcv m l' l2 fin
    by (auto simp: udp_make_incoming_def Let_def split: option.split intro!: handles_andthen handlesI)
  then show ?thesis by (simp add: on_message_def l'_def)
qed

lemma handles_accepted:
  assumes "wf_listener ok l"
  shows "handles ok (on_message (tcp_make_incoming lib secs ac) l)"
proof -
  define l' where "l' = clean_requests (l\<lparr>ls_count := ls_count l + 1\<rparr>)"
  have l': "wf_listener ok l'" "ls_count l' \<notin> dom (ls_store l')"
    unfolding l'_def by (rule wf_next_message [OF assms])+
  have "safe (new_tcp_incoming lib secs ac)"
    using address_of_sockaddr_safe [of lib "ac_from ac"]
    by (auto simp: new_tcp_incoming_def new_timeout_def accept_connection_def new_incoming_def unblock_def
        connection_descriptor_def split: option.split)
  moreover have "wf_listener ok (add_request req l')" if "new_tcp_incoming lib secs ac = Inr req" for req
  proof (rule wf_add_request [OF l'])
    show "in_active req \<and> in_conn req \<noteq> None \<and> wf_packet (in_message req) \<and> pkt_size (in_message req) = 0"
      using that wf_new_query by (auto simp: new_tcp_incoming_def new_incoming_def new_timeout_def split: if_splits)
  qed
  ultimately have "handles ok (tcp_make_incoming lib secs ac l')"
    unfolding tcp_make_incoming_def using l' by (intro handles_andthen) auto
  then show ?thesis by (simp add: on_message_def l'_def)
qed

lemma handles_stream:
  assumes l: "wf_listener ok l" and i: "ls_store l i = Some req" "in_event req"
  shows "handles ok (tcp_on_receive proc i l)"
proof -
  have w: "wf_waiting l i req" using l i by (simp add: wf_listener_def)
  then obtain conn where conn: "in_conn req = Some conn" by (auto simp: wf_waiting_def)
  obtain r msg ep where rcv: "tcp_receive (in_message req) conn = (r, msg, ep)" by (metis prod_cases3)
  have m: "safe r" "wf_packet msg"
    using tcp_receive_keeps [OF _ _ rcv] w by (simp_all add: wf_waiting_def)
  let ?l1 = "update_request i (\<lambda>req. req\<lparr>in_message := msg, in_conn := Some ep\<rparr>) l"
  let ?l2 = "update_request i (\<lambda>req. req\<lparr>in_event := False\<rparr>) ?l1"
  have l2: "wf_listener ok ?l2" using l by (auto simp: wf_listener_simps split: if_splits)
  have res: "handles ok (create_response proc i ?l2)"
    by (rule handles_create_response [OF l2]) (use i w m in \<open>auto simp: wf_waiting_def\<close>)
  have ?thesis if "r = Inr ()"
    using i conn rcv that res
    by (auto simp: tcp_on_receive_def andthen_def intro!: handles_catch_net wf_close_incoming)
  moreover have ?thesis if "r = Inl e" for e
  proof -
    have "msg = in_message req" using tcp_receive_handle [OF rcv] that by simp
    then have "wf_listener ok ?l1"
      using wf_update_request [OF l, of i "\<lambda>req. req\<lparr>in_message := msg, in_conn := Some ep\<rparr>"] i w
      by (simp add: wf_waiting_def)
    then show ?thesis
      using i conn rcv that m(1)
      by (auto simp: tcp_on_receive_def andthen_def safe_def intro!: handles_catch_net wf_close_incoming)
  qed
  ultimately show ?thesis by (cases r) auto
qed

lemma fst_leave_loop: "handles ok rl \<Longrightarrow> wf_listener ok (fst (leave_loop rl)) \<and> snd (leave_loop rl) \<noteq> Some Undefined_behaviour"
  by (cases rl; cases "fst rl") (auto simp: handles_def leave_loop_def safe_def)

lemma ls_step_preserves:
  assumes "ls_enabled pass e (l, x)" "wf_listener ok l" "x \<noteq> Some Undefined_behaviour"
  shows "wf_listener ok (fst (ls_step lib proc pass secs e (l, x)))
    \<and> snd (ls_step lib proc pass secs e (l, x)) \<noteq> Some Undefined_behaviour"
proof (cases e)
  case Datagram
  then show ?thesis using fst_leave_loop [OF handles_datagram [OF assms(2)]] by simp
next
  case (Accepted ac)
  then show ?thesis using fst_leave_loop [OF handles_accepted [OF assms(2)]] by simp
next
  case (Stream i)
  then show ?thesis using fst_leave_loop [OF handles_stream [OF assms(2)]] assms(1) by (auto split: option.splits)
next
  case (Time_up i)
  then show ?thesis using assms(2,3) wf_close_incoming by simp
next
  case (Answer i msg)
  let ?l = "l\<lparr>ls_held := removeAll i (ls_held l)\<rparr>"
  have i: "i \<in> set (ls_held l)" "safe (pass msg (ls_responder l))" using assms(1) Answer by simp_all
  have "i \<in> dom (ls_store l)" using i(1) assms(2) by (auto simp: wf_listener_def)
  then obtain req where req: "ls_store l i = Some req" by blast
  have ev: "\<not> in_event req" using assms(2) i(1) req by (auto simp: wf_listener_simps)
  have "wf_listener ok ?l" using assms(2) by (auto simp: wf_listener_simps)
  from handles_answer_request [OF this, of i req msg] req ev i show ?thesis
    using Answer fst_leave_loop by simp
next
  case (Forget i)
  have "wf_listener ok (release (l\<lparr>ls_requests := ls_requests l, ls_held := removeAll i (ls_held l)\<rparr>))"
    by (rule wf_release [OF assms(2)]) auto
  then show ?thesis using Forget assms(3) by simp
next
  case (Outside_udp ep)
  then show ?thesis using assms(2,3) wf_end by simp
next
  case (Outside_tcp i ep)
  have "wf_listener ok (update_request i (\<lambda>req. req\<lparr>in_conn := Some ep\<rparr>) l)"
    by (rule wf_update_request [OF assms(2)]) (simp add: wf_waiting_def)
  then show ?thesis using Outside_tcp assms(3) by simp
qed

end

end
