(* ===== verification/Client_Service.thy ===== *)
theory Client_Service
  imports Listener
begin

text \<open>
  The service of clients: listeners with the \<^verbatim>\<open>dns::responder\<close> behind them.  This theory instantiates
  the interface of the listener with the operations of the responder, and states what clients get.
\<close>

section \<open>The responder as the service of a listener\<close>

fun dns_reply :: "outcome \<Rightarrow> reply" where
  "dns_reply Dropped = Close_request"
| "dns_reply (Responded msg) = Send_reply msg"
| "dns_reply (Forwarded p msg) = Keep_request"

definition dns_process :: "env \<Rightarrow> (provider_ref \<Rightarrow> bool) \<Rightarrow> packet \<Rightarrow> responder \<Rightarrow> (reply \<times> responder) res" where
  "dns_process env connect msg r = ebind (process env connect msg r) (\<lambda>(out, r). Inr (dns_reply out, r))"

definition dns_pass :: "env \<Rightarrow> packet \<Rightarrow> responder \<Rightarrow> (reply \<times> responder) res" where
  "dns_pass env msg r = ebind (pass_answer_downstream env msg r) (\<lambda>(out, r). Inr (dns_reply out, r))"

lemma dns_replies:
  "process env connect msg r = Inr (out, r') \<Longrightarrow> dns_process env connect msg r = Inr (dns_reply out, r')"
  "process env connect msg r = Inl e \<Longrightarrow> dns_process env connect msg r = Inl e"
  "pass_answer_downstream env msg r = Inr (out, r') \<Longrightarrow> dns_pass env msg r = Inr (dns_reply out, r')"
  by (simp_all add: dns_process_def dns_pass_def)

interpretation dns_service: query_service "dns_process env connect" "dns_pass env" wf_responder
  for env connect
  by unfold_locales (auto simp: dns_process_def dns_pass_def intro: process_safe wf_process wf_pass_answer)

text \<open>
  A run: for every event the time, the random numbers, the log level and the reachability of the
  providers may be different.
\<close>

fun service_step :: "real \<Rightarrow> env \<times> (provider_ref \<Rightarrow> bool) \<times> ls_event \<Rightarrow> responder listener \<times> exn option
    \<Rightarrow> responder listener \<times> exn option" where
  "service_step secs (env, connect, e) = ls_step (e_lib env) (dns_process env connect) (dns_pass env) secs e"

fun service_enabled :: "env \<times> (provider_ref \<Rightarrow> bool) \<times> ls_event \<Rightarrow> responder listener \<times> exn option \<Rightarrow> bool" where
  "service_enabled (env, connect, e) = ls_enabled (dns_pass env) e"

interpretation service: machine service_enabled "service_step secs"
    "\<lambda>(l, x). wf_listener wf_responder l \<and> x \<noteq> Some Undefined_behaviour" for secs
proof
  fix ev :: "env \<times> (provider_ref \<Rightarrow> bool) \<times> ls_event" and s :: "responder listener \<times> exn option"
  obtain env connect e l x where *: "ev = (env, connect, e)" "s = (l, x)" by (metis prod_cases3 surj_pair)
  assume "service_enabled ev s" "case s of (l, x) \<Rightarrow> wf_listener wf_responder l \<and> x \<noteq> Some Undefined_behaviour"
  then show "case service_step secs ev s of (l, x) \<Rightarrow> wf_listener wf_responder l \<and> x \<noteq> Some Undefined_behaviour"
    using dns_service.ls_step_preserves [of env e l x "e_lib env" connect secs]
    by (auto simp: * split: prod.splits)
qed

section \<open>One datagram\<close>

definition received_query :: "byte list \<Rightarrow> packet" where
  "received_query m = \<lparr>pkt_size = length m, pkt_bytes = m @ replicate (max_size - length m) 0\<rparr>"

lemma received_query_wf:
  assumes "length m \<le> max_size"
  shows "wf_packet (received_query m)" "content (received_query m) = m"
  using assms by (simp_all add: received_query_def wf_packet_def max_size_def content_def)

lemma udp_receive_query:
  assumes "ep_in ep = Bytes (a, clen, m) # rest" "m \<noteq> []" "length m \<le> max_size" "0 < clen"
    "address_of_sockaddr lib a (cast_u16 clen) = Inr a'"
  shows "udp_receive_from lib new_query ep = (Inr (Some a'), received_query m, ep\<lparr>ep_in := rest\<rparr>)"
proof -
  have r: "reserved_size new_query = max_size" by (simp add: max_size_def)
  have o: "overwrite 0 m (pkt_bytes new_query) = m @ replicate (max_size - length m) 0"
    using assms(3) by (simp add: overwrite_def new_query_def Let_def)
  have len: "length (pkt_bytes new_query) = max_size" by (rule wf_new_query)
  have c: "cast_u16 (length m) = length m" using assms(3) by (simp add: max_size_def)
  show ?thesis
    using assms r o len c
    by (simp add: udp_receive_from_def udp_receive_into_def udp_receive_from_socket_def write_block_def set_size_def
        received_query_def)
qed

text \<open>What the listener does with a datagram, in terms of what the responder decides.\<close>

lemma on_datagram:
  assumes ep: "ep_in (ls_end l) = Bytes (a, clen, m) # rest" "m \<noteq> []" "length m \<le> max_size" "0 < clen"
    "address_of_sockaddr lib a (cast_u16 clen) = Inr a'" and secs: "1 / 1000000 \<le> secs"
  defines "l' \<equiv> add_request \<lparr>in_message = received_query m, in_active = True, in_sender = a', in_conn = None, in_event = False\<rparr>
    ((clean_requests (l\<lparr>ls_count := ls_count l + 1\<rparr>))\<lparr>ls_end := (ls_end l)\<lparr>ep_in := rest\<rparr>\<rparr>)"
  shows "on_message (udp_make_incoming lib proc secs) l =
    (case proc (received_query m) (ls_responder l) of
       Inl e \<Rightarrow> (Inl e, l')
     | Inr (out, r) \<Rightarrow> deliver (ls_count l + 1) out (l'\<lparr>ls_responder := r\<rparr>))"
proof -
  have t: "new_timeout secs = Inr True" using secs by (simp add: new_timeout_def)
  show ?thesis
    using udp_receive_query [OF ep]
    by (simp add: on_message_def udp_make_incoming_def t andthen_def new_incoming_def is_closed_def create_response_def
        add_request_def l'_def split: sum.split)
qed

lemma deliver_datagram:
  assumes "ls_store l i = Some req" "in_conn req = None" "content ans \<noteq> []" "ep_sends (ls_end l) = []"
  shows "\<exists>l'. deliver i (Send_reply ans) l = (Inr (), l') \<and> ls_responder l' = ls_responder l
    \<and> ep_out (ls_end l') = ep_out (ls_end l) @ [(in_sender req, 128, content ans)] \<and> ep_in (ls_end l') = ep_in (ls_end l)
    \<and> \<not> request_open l' i"
  using assms
  by (simp add: deliver_def respond_def udp_respond_def udp_send_to_def udp_send_to_socket_def next_send_def andthen_def
      catch_net_def close_incoming_def request_open_def is_closed_def Let_def)

lemma datagram_answered:
  assumes ep: "ep_in (ls_end l) = Bytes (a, clen, m) # rest" "m \<noteq> []" "length m \<le> max_size" "0 < clen"
    "address_of_sockaddr lib a (cast_u16 clen) = Inr a'" and secs: "1 / 1000000 \<le> secs" and out: "ep_sends (ls_end l) = []"
    and proc: "proc (received_query m) (ls_responder l) = Inr (Send_reply ans, r)" "content ans \<noteq> []"
  shows "\<exists>l'. on_message (udp_make_incoming lib proc secs) l = (Inr (), l') \<and> ls_responder l' = r
    \<and> ep_out (ls_end l') = ep_out (ls_end l) @ [(a', 128, content ans)] \<and> ep_in (ls_end l') = rest
    \<and> \<not> request_open l' (ls_count l + 1)"
proof -
  let ?req = "\<lparr>in_message = received_query m, in_active = True, in_sender = a', in_conn = None, in_event = False\<rparr>"
  let ?l = "(add_request ?req ((clean_requests (l\<lparr>ls_count := ls_count l + 1\<rparr>))\<lparr>ls_end := (ls_end l)\<lparr>ep_in := rest\<rparr>\<rparr>))\<lparr>ls_responder := r\<rparr>"
  have "on_message (udp_make_incoming lib proc secs) l = deliver (ls_count l + 1) (Send_reply ans) ?l"
    unfolding on_datagram [OF ep secs] using proc(1) by simp
  then show ?thesis
    using deliver_datagram [of ?l "ls_count l + 1" ?req ans] proc(2) out by (simp add: add_request_def)
qed

section \<open>Properties\<close>


text \<open>
  C10. A blocked name is refused over the network.  When a datagram with a regular query for a blocked
  name arrives at the listener, exactly one datagram is sent, to the address the query came from: the
  query itself with the flag of a response and the code REFUSED, all bytes behind the header unchanged;
  the request is closed, the listener is ready for the next message, and of the responder only the
  counters change.
\<close>

theorem blocked_datagram_is_refused:
  assumes ep: "ep_in (ls_end l) = Bytes (a, clen, m) # rest" "m \<noteq> []" "length m \<le> max_size" "0 < clen"
    "address_of_sockaddr (e_lib env) a (cast_u16 clen) = Inr a'" "1 / 1000000 \<le> secs" "ep_sends (ls_end l) = []"
    and q: "regular env (ls_responder l) (received_query m) owner qtype" "header (received_query m) = Inr h"
      "blocked (ls_responder l) (strip_dot owner) qtype"
  shows "\<exists>l' resp. on_message (udp_make_incoming (e_lib env) (dns_process env connect) secs) l = (Inr (), l')
    \<and> ep_out (ls_end l') = ep_out (ls_end l) @ [(a', 128, content resp)]
    \<and> drop 12 (content resp) = drop 12 m \<and> length (content resp) = length m
    \<and> header resp = Inr (h\<lparr>h_rcode := rcode_word refused, h_qr := True\<rparr>)
    \<and> \<not> request_open l' (ls_count l + 1) \<and> ep_in (ls_end l') = rest
    \<and> ls_responder l' = (ls_responder l)\<lparr>processed_count := processed_count (ls_responder l) + 1,
        blacklisted_count := blacklisted_count (ls_responder l) + 1\<rparr>"
proof -
  obtain resp where resp: "process env connect (received_query m) (ls_responder l) = Inr (Responded resp,
      (ls_responder l)\<lparr>processed_count := processed_count (ls_responder l) + 1, blacklisted_count := blacklisted_count (ls_responder l) + 1\<rparr>)"
    and u: "updates_header (received_query m) (Inr resp) (h\<lparr>h_rcode := rcode_word refused, h_qr := True\<rparr>)"
    using blocked_query_is_refused [OF q] by blast
  have c: "length (content resp) = length m" "drop 12 (content resp) = drop 12 m"
    using u ep(3) by (simp_all add: updates_header_def received_query_def content_def drop_take)
  have "content resp \<noteq> []" using c(1) ep(2) by (metis length_0_conv)
  from datagram_answered [OF ep, of "dns_process env connect", OF dns_replies(1) [OF resp, simplified] this] show ?thesis
    using c u by (auto simp: updates_header_def)
qed

text \<open>
  C34. Some datagrams end the service.  The handlers of the UDP listener catch nothing, and neither does
  the event loop: an empty datagram (a network error when it is received) and a query for the root name
  (a \<^verbatim>\<open>std::runtime_error\<close> of the filters) make the callback of the listener throw.
\<close>

theorem datagrams_that_end_the_service:
  assumes "ep_in (ls_end l) = Bytes (a, clen, m) # rest" "1 / 1000000 \<le> secs"
  shows "(m = [] \<longrightarrow> fst (on_message (udp_make_incoming lib proc secs) l) = Inl (Net_error ''Connection reset by peer? [UDP recv]''))
    \<and> (m \<noteq> [] \<and> length m \<le> max_size \<and> 0 < clen \<and> address_of_sockaddr lib a (cast_u16 clen) = Inr a'
        \<and> is_dns (received_query m) \<and> get_question (received_query m) = Inr ([], cls, qtype) \<longrightarrow>
      fst (on_message (udp_make_incoming lib (dns_process env connect) secs) l) = Inl (Runtime_error ''too short host name''))"
proof (intro conjI impI)
  have t: "new_timeout secs = Inr True" using assms(2) by (simp add: new_timeout_def)
  show "fst (on_message (udp_make_incoming lib proc secs) l) = Inl (Net_error ''Connection reset by peer? [UDP recv]'')" if "m = []"
    using assms(1) that
    by (simp add: on_message_def udp_make_incoming_def t andthen_def udp_receive_from_def udp_receive_into_def
        udp_receive_from_socket_def)
  show "fst (on_message (udp_make_incoming lib (dns_process env connect) secs) l) = Inl (Runtime_error ''too short host name'')"
    if "m \<noteq> [] \<and> length m \<le> max_size \<and> 0 < clen \<and> address_of_sockaddr lib a (cast_u16 clen) = Inr a'
        \<and> is_dns (received_query m) \<and> get_question (received_query m) = Inr ([], cls, qtype)"
    using on_datagram [OF assms(1) _ _ _ _ assms(2), of lib a' "dns_process env connect"] that
      dns_replies(2) [OF root_query_throws [of "received_query m" cls qtype env connect "ls_responder l"]] by simp
qed

text \<open>
  C39. A new connection can cost another client its connection.  When the last but one request in the
  vector is the only closed one, the clean-up of \<^verbatim>\<open>on_message\<close> drops the last request together with it; if
  that is a client that has connected and not yet sent its question, nothing else refers to it, so its
  connection is destroyed, whether or not the new connection is accepted.
\<close>

theorem waiting_client_is_dropped:
  assumes "ls_requests l = reqs @ [done_id, waiting]" "distinct (ls_requests l)"
    and "list_all (request_open l) reqs" "\<not> request_open l done_id"
    and "ls_store l waiting = Some req" "in_event req" "waiting \<notin> set (ls_held l)" "waiting \<le> ls_count l"
  shows "waiting \<notin> dom (ls_store (snd (on_message (tcp_make_incoming lib secs ac) l)))"
proof -
  let ?l = "l\<lparr>ls_count := ls_count l + 1\<rparr>"
  have "request_open ?l = request_open l" by (simp add: fun_eq_iff request_open_def)
  then have "garbage_loop (request_open ?l) (ls_requests l) 0 0 = reqs"
    using garbage_loop_loses [OF assms(3,4)] assms(1) by simp
  then have c: "ls_store (clean_requests ?l) waiting = None"
    using assms(1,2,7) by (simp add: clean_requests_def release_def)
  show ?thesis
    using c assms(8)
    by (auto simp: on_message_def tcp_make_incoming_def andthen_def add_request_def dom_def split: sum.splits)
qed

section \<open>Examples\<close>

definition sample_datagrams :: "byte list list \<Rightarrow> responder \<Rightarrow> responder listener" where
  "sample_datagrams ms r = new_listener (sample_udp ms) r"

lemma sample_sender: "address_of_sockaddr sample_inet sample_address (cast_u16 16) = Inr sample_address"
  by (simp add: address_of_sockaddr_def sample_address_def sample_inet_def ip_port_def address_ip_def show_nat.simps
      cast_u16_def)

definition service_env :: env where
  "service_env = sample_env\<lparr>e_lib := sample_inet\<rparr>"

lemma sample_received:
  "wf_packet (received_query [0, 7, 1, 0, 0, 1, 0, 0, 0, 0, 0, 0, 1, 97, 0, 0, 1, 0, 1])"
  "is_dns (received_query [0, 7, 1, 0, 0, 1, 0, 0, 0, 0, 0, 0, 1, 97, 0, 0, 1, 0, 1])"
  "get_question (received_query [0, 7, 1, 0, 0, 1, 0, 0, 0, 0, 0, 0, 1, 97, 0, 0, 1, 0, 1]) = Inr (''a.'', 1, 1)"
  by (simp_all add: received_query_def max_size_def parse_eval is_dns_def wf_packet_def cong: ebind_weak_cong)

lemma root_received:
  "is_dns (received_query [0, 7, 1, 0, 0, 1, 0, 0, 0, 0, 0, 0, 0, 0, 2, 0, 1])"
  "get_question (received_query [0, 7, 1, 0, 0, 1, 0, 0, 0, 0, 0, 0, 0, 0, 2, 0, 1]) = Inr ([], 1, 2)"
  by (simp_all add: received_query_def max_size_def parse_eval is_dns_def cong: ebind_weak_cong)

definition blocking_responder :: responder where
  "blocking_responder = sample_responder\<lparr>blacklist := empty_filter\<lparr>f_exact := [''a'']\<rparr>\<rparr>"

theorem blocked_datagram_is_refused_witness:
  "let l = sample_datagrams [[0, 7, 1, 0, 0, 1, 0, 0, 0, 0, 0, 0, 1, 97, 0, 0, 1, 0, 1]] blocking_responder in
   \<exists>l' resp. on_message (udp_make_incoming sample_inet (dns_process service_env (\<lambda>_. True)) 5) l = (Inr (), l')
     \<and> ep_out (ls_end l') = [(sample_address, 128, content resp)]
     \<and> drop 12 (content resp) = [1, 97, 0, 0, 1, 0, 1]"
proof -
  let ?m = "[0, 7, 1, 0, 0, 1, 0, 0, 0, 0, 0, 0, 1, 97, 0, 0, 1, 0, 1]"
  let ?l = "sample_datagrams [?m] blocking_responder"
  have ep: "ep_in (ls_end ?l) = Bytes (sample_address, 16, ?m) # []" "ep_sends (ls_end ?l) = []" "ep_out (ls_end ?l) = []"
    "ls_responder ?l = blocking_responder" "e_lib service_env = sample_inet"
    by (simp_all add: sample_datagrams_def new_listener_def sample_udp_def service_env_def)
  have reg: "regular service_env blocking_responder (received_query ?m) ''a.'' 1"
    using sample_received sample_regular
    by (simp add: regular_def blocking_responder_def wf_filter_def empty_filter_def wf_words_def sample_query_facts
        log_class_def service_env_def)
  obtain h where h: "header (received_query ?m) = Inr h"
    by (simp add: received_query_def header_eq max_size_def)
  have "blocked blocking_responder (strip_dot ''a.'') 1"
    by (simp add: blocking_responder_def blocked_def responder_eval strip_dot_def scan_def rule_matches_def
        ascii_tolower_def to_lower_def)
  then have "\<exists>l' resp. on_message (udp_make_incoming (e_lib service_env) (dns_process service_env (\<lambda>_. True)) 5) ?l = (Inr (), l')
    \<and> ep_out (ls_end l') = ep_out (ls_end ?l) @ [(sample_address, 128, content resp)] \<and> drop 12 (content resp) = drop 12 ?m"
    using blocked_datagram_is_refused [OF ep(1) _ _ _ _ _ ep(2), of service_env sample_address 5 "''a.''" 1 h "\<lambda>_. True"]
      reg h sample_sender ep by (auto simp: max_size_def)
  then show ?thesis by (simp add: ep)
qed

theorem datagrams_that_end_the_service_witness:
  "fst (on_message (udp_make_incoming sample_inet (dns_process service_env (\<lambda>_. True)) 5) (sample_datagrams [[]] sample_responder))
     = Inl (Net_error ''Connection reset by peer? [UDP recv]'')
   \<and> fst (on_message (udp_make_incoming sample_inet (dns_process service_env (\<lambda>_. True)) 5)
       (sample_datagrams [[0, 7, 1, 0, 0, 1, 0, 0, 0, 0, 0, 0, 0, 0, 2, 0, 1]] sample_responder))
     = Inl (Runtime_error ''too short host name'')"
proof -
  have ep: "ep_in (ls_end (sample_datagrams [m] sample_responder)) = Bytes (sample_address, 16, m) # []" for m
    by (simp add: sample_datagrams_def new_listener_def sample_udp_def)
  show ?thesis
    using datagrams_that_end_the_service [OF ep, of 5 "[]" sample_inet "dns_process service_env (\<lambda>_. True)"]
      datagrams_that_end_the_service [OF ep, of 5 "[0, 7, 1, 0, 0, 1, 0, 0, 0, 0, 0, 0, 0, 0, 2, 0, 1]" sample_inet
        "dns_process service_env (\<lambda>_. True)" sample_address 1 2 service_env "\<lambda>_. True"]
      root_received sample_sender by (simp add: max_size_def)
qed

definition finished_and_waiting :: "responder listener" where
  "finished_and_waiting = (new_listener (sample_udp []) sample_responder)\<lparr>ls_count := 2, ls_requests := [1, 2],
     ls_store := [1 \<mapsto> \<lparr>in_message = new_query, in_active = False, in_sender = sample_address, in_conn = Some (sample_tcp []), in_event = False\<rparr>,
       2 \<mapsto> \<lparr>in_message = new_query, in_active = True, in_sender = sample_address, in_conn = Some (sample_tcp []), in_event = True\<rparr>]\<rparr>"

theorem waiting_client_is_dropped_witness:
  "let ac = \<lparr>ac_conn = Some (sample_tcp []), ac_stat = 0, ac_from = sample_address, ac_len = 16, ac_setup = sample_setup\<rparr> in
   2 \<in> dom (ls_store finished_and_waiting) \<and> 2 \<notin> dom (ls_store (snd (on_message (tcp_make_incoming sample_inet 5 ac) finished_and_waiting)))"
  using waiting_client_is_dropped [of finished_and_waiting "[]" 1 2]
  by (simp add: finished_and_waiting_def new_listener_def request_open_def is_closed_def)


end
