(* ===== verification/Crypt_Keys.thy ===== *)
theory Crypt_Keys
  imports Str
begin

unbundle bit_operations_syntax

text \<open>
  \<^verbatim>\<open>crypt/crypt.hxx\<close>, \<^verbatim>\<open>crypt/crypt.cpp\<close>: keys and nonces, arrays of a fixed number of bytes; here
  lists of bytes.  The functions of libsodium that the program calls are the fields of the record
  \<open>sodium\<close>; what the program relies on is \<open>sodium_laws\<close>, the documented behaviour of these
  functions.  A function that returns an error code returns an option here.
\<close>

section \<open>Definitions\<close>

subsection \<open>The library\<close>

datatype cipher = cipher_undefined | xsalsa20poly1305 | xchacha20poly1305

record sodium =
  box_beforenm :: "cipher \<Rightarrow> byte list \<Rightarrow> byte list \<Rightarrow> byte list option"
  box_easy_afternm :: "cipher \<Rightarrow> byte list \<Rightarrow> byte list \<Rightarrow> byte list \<Rightarrow> byte list option"
  box_open_easy_afternm :: "cipher \<Rightarrow> byte list \<Rightarrow> byte list \<Rightarrow> byte list \<Rightarrow> byte list option"
  box_easy :: "cipher \<Rightarrow> byte list \<Rightarrow> byte list \<Rightarrow> byte list \<Rightarrow> byte list \<Rightarrow> byte list option"
  box_open_easy :: "cipher \<Rightarrow> byte list \<Rightarrow> byte list \<Rightarrow> byte list \<Rightarrow> byte list \<Rightarrow> byte list option"
  scalarmult_base :: "byte list \<Rightarrow> byte list"
  crypto_stream :: "nat \<Rightarrow> byte list \<Rightarrow> byte list \<Rightarrow> byte list"
  sign_open :: "byte list \<Rightarrow> byte list \<Rightarrow> byte list option"
  sodium_hex2bin :: "nat \<Rightarrow> string \<Rightarrow> string \<Rightarrow> byte list option"

definition crypto_box_MACBYTES :: nat where [simp]: "crypto_box_MACBYTES = 16"
definition crypto_box_PUBLICKEYBYTES :: nat where [simp]: "crypto_box_PUBLICKEYBYTES = 32"
definition crypto_box_SECRETKEYBYTES :: nat where [simp]: "crypto_box_SECRETKEYBYTES = 32"
definition crypto_box_NONCEBYTES :: nat where [simp]: "crypto_box_NONCEBYTES = 24"

definition crypto_box_HALF_NONCEBYTES :: nat where
  [simp]: "crypto_box_HALF_NONCEBYTES = 12"

subsection \<open>Keys as text\<close>

definition hex_char :: "nat \<Rightarrow> char" where
  "hex_char d = char_of (if d < 10 then 48 + d else 55 + d)"

text \<open>\<^verbatim>\<open>std::setw (2)\<close> with fill \<^verbatim>\<open>'0'\<close>, \<^verbatim>\<open>std::hex\<close> and \<^verbatim>\<open>std::uppercase\<close>.\<close>

definition hex_byte :: "byte \<Rightarrow> string" where
  "hex_byte b = [hex_char (unat b div 16), hex_char (unat b mod 16)]"

function bin2hex :: "byte list \<Rightarrow> nat \<Rightarrow> nat \<Rightarrow> string res" where
  "bin2hex key n key_pos =
     ebind (read_at key key_pos) (\<lambda>b0.
     ebind (read_at key (key_pos + 1)) (\<lambda>b1.
       if key_pos + 2 \<ge> n then Inr (hex_byte b0 @ hex_byte b1)
       else ebind (bin2hex key n (key_pos + 2)) (\<lambda>rest. Inr (hex_byte b0 @ hex_byte b1 @ '':'' @ rest))))"
  by pat_completeness auto
termination
  by (relation "measure (\<lambda>(key, n, key_pos). n - key_pos)") auto

declare bin2hex.simps [simp del]

definition bytes_to_hex :: "byte list \<Rightarrow> nat \<Rightarrow> string res" where
  "bytes_to_hex key n = bin2hex key n 0"

definition fingerprint :: "byte list \<Rightarrow> string res" where
  "fingerprint key = bytes_to_hex key (length key)"

definition hex2bin :: "sodium \<Rightarrow> string \<Rightarrow> nat \<Rightarrow> byte list res" where
  "hex2bin lib hex len =
     (if 8 > len then Inl (Runtime_error ''Invalid crypto key'')
      else case sodium_hex2bin lib crypto_box_PUBLICKEYBYTES (take len hex)
             [CHR '':'', CHR '' '', CHR 0x09, CHR 0x0D, CHR 0x0A] of
        None \<Rightarrow> Inl (Runtime_error ''Invalid crypto key'')
      | Some key \<Rightarrow>
          if length key \<noteq> crypto_box_PUBLICKEYBYTES then Inl (Runtime_error ''Invalid crypto key'')
          else Inr key)"

definition pubkey_of_cstr :: "sodium \<Rightarrow> string \<Rightarrow> byte list res" where
  "pubkey_of_cstr lib hex = hex2bin lib (c_str hex) (length (c_str hex))"

definition pubkey_of_string :: "sodium \<Rightarrow> string \<Rightarrow> byte list res" where
  "pubkey_of_string lib hex = hex2bin lib hex (length hex)"

definition secretkey_of_string :: "sodium \<Rightarrow> string \<Rightarrow> byte list res" where
  "secretkey_of_string lib hex = hex2bin lib hex (length hex)"

text \<open>\<^verbatim>\<open>key::load_binary_file\<close>, where the file is the list of its bytes.\<close>

definition load_key :: "nat \<Rightarrow> byte list \<Rightarrow> byte list res" where
  "load_key sz file =
     (if length (take sz file) \<noteq> sz then Inl (Runtime_error ''invalid encryption in key'')
      else Inr (take sz file))"

subsection \<open>Nonces\<close>

definition nonce_eq :: "byte list \<Rightarrow> byte list \<Rightarrow> bool" where
  "nonce_eq a b \<longleftrightarrow> take crypto_box_HALF_NONCEBYTES a = take crypto_box_HALF_NONCEBYTES b"

text \<open>\<^verbatim>\<open>nonce::make_random\<close>: \<open>ts\<close> is the time in microseconds, \<open>r1\<close> and \<open>r2\<close> are random numbers.\<close>

definition make_random :: "64 word \<Rightarrow> u32 \<Rightarrow> u32 \<Rightarrow> byte list" where
  "make_random ts r1 r2 =
     le_bytes 8 (unat ((push_bit 10 ts :: 64 word) OR (ucast (r1 AND 0x3ff)))) @ le_bytes 4 (unat r2)"

definition full_nonce_2 :: "byte list \<Rightarrow> byte list \<Rightarrow> byte list" where
  "full_nonce_2 first second = first @ second"

definition full_nonce_1 :: "byte list \<Rightarrow> byte list" where
  "full_nonce_1 first = first @ replicate (crypto_box_NONCEBYTES - length first) 0"

definition first_half :: "byte list \<Rightarrow> byte list" where
  "first_half n = take crypto_box_HALF_NONCEBYTES n"

definition second_half :: "byte list \<Rightarrow> byte list" where
  "second_half n = drop crypto_box_HALF_NONCEBYTES n"

section \<open>What the program relies on\<close>

text \<open>
  The documented behaviour of the library.  Boxes: opening what was sealed with the same key and
  nonce gives the message, a sealed message is longer by the authenticator; the combined functions
  are the ones with a precomputed key; and both sides of a key exchange compute the same key.
  \<^verbatim>\<open>sodium_hex2bin\<close>: pairs of digits with characters to ignore, which are not digits, between them.
\<close>

definition sodium_laws :: "sodium \<Rightarrow> bool" where
  "sodium_laws lib \<longleftrightarrow>
     (\<forall>c m n k. length n = 24 \<longrightarrow> length k = 32 \<longrightarrow>
        (\<exists>ct. box_easy_afternm lib c m n k = Some ct \<and> length ct = length m + 16
           \<and> box_open_easy_afternm lib c ct n k = Some m))
     \<and> (\<forall>c ct n k m. box_open_easy_afternm lib c ct n k = Some m \<longrightarrow> length ct = length m + 16)
     \<and> (\<forall>c ct n pk sk m. box_open_easy lib c ct n pk sk = Some m \<longrightarrow> length ct = length m + 16)
     \<and> (\<forall>c m n pk sk ct. box_easy lib c m n pk sk = Some ct \<longrightarrow> length ct = length m + 16)
     \<and> (\<forall>c m n k ct. box_easy_afternm lib c m n k = Some ct \<longrightarrow> length ct = length m + 16)
     \<and> (\<forall>c pk sk k. box_beforenm lib c pk sk = Some k \<longrightarrow> length k = 32
         \<and> (\<forall>m n. box_easy lib c m n pk sk = box_easy_afternm lib c m n k
             \<and> box_open_easy lib c m n pk sk = box_open_easy_afternm lib c m n k))
     \<and> (\<forall>c a b. box_beforenm lib c (scalarmult_base lib a) b = box_beforenm lib c (scalarmult_base lib b) a)
     \<and> (\<forall>a. length (scalarmult_base lib a) = 32)
     \<and> (\<forall>n nonce k. length (crypto_stream lib n nonce k) = n)"

definition hex_law :: "sodium \<Rightarrow> bool" where
  "hex_law lib \<longleftrightarrow>
     (\<forall>n ignore ps. length ps \<le> n \<longrightarrow> set ignore \<inter> hex_char ` {0..<16} = {} \<longrightarrow>
        list_all (\<lambda>(sep, b). set sep \<subseteq> set ignore) ps \<longrightarrow>
        sodium_hex2bin lib n (concat (map (\<lambda>(sep, b). sep @ hex_byte b) ps)) ignore = Some (map snd ps))"

lemma sodium_lawsD:
  assumes "sodium_laws lib"
  shows "length n = 24 \<Longrightarrow> length k = 32 \<Longrightarrow>
      \<exists>ct. box_easy_afternm lib c m n k = Some ct \<and> length ct = length m + 16
         \<and> box_open_easy_afternm lib c ct n k = Some m"
    and "box_open_easy_afternm lib c ct n k = Some m \<Longrightarrow> length ct = length m + 16"
    and "box_open_easy lib c ct n pk sk = Some m \<Longrightarrow> length ct = length m + 16"
    and "box_easy lib c m n pk sk = Some ct \<Longrightarrow> length ct = length m + 16"
    and "box_easy_afternm lib c m n k = Some ct \<Longrightarrow> length ct = length m + 16"
    and "box_beforenm lib c pk sk = Some k \<Longrightarrow> length k = 32"
    and "box_beforenm lib c pk sk = Some k \<Longrightarrow> box_easy lib c m n pk sk = box_easy_afternm lib c m n k"
    and "box_beforenm lib c pk sk = Some k \<Longrightarrow>
      box_open_easy lib c m n pk sk = box_open_easy_afternm lib c m n k"
    and "box_beforenm lib c (scalarmult_base lib a) b = box_beforenm lib c (scalarmult_base lib b) a"
    and "length (scalarmult_base lib a) = 32"
    and "length (crypto_stream lib l nonce k) = l"
  using assms by (simp_all add: sodium_laws_def)

section \<open>Lemmas\<close>

lemma length_make_random [simp]: "length (make_random ts r1 r2) = 12"
  by (simp add: make_random_def)

lemma full_nonce_1_first [simp]: "length n = 12 \<Longrightarrow> first_half (full_nonce_1 n) = n"
  by (simp add: first_half_def full_nonce_1_def)

lemma length_full_nonce_1 [simp]: "length n = 12 \<Longrightarrow> length (full_nonce_1 n) = 24"
  by (simp add: full_nonce_1_def)

lemma full_nonce_2_halves [simp]:
  "length a = 12 \<Longrightarrow> first_half (full_nonce_2 a b) = a"
  "length a = 12 \<Longrightarrow> second_half (full_nonce_2 a b) = b"
  by (simp_all add: first_half_def second_half_def full_nonce_2_def)

lemma length_full_nonce_2 [simp]: "length (full_nonce_2 a b) = length a + length b"
  by (simp add: full_nonce_2_def)

text \<open>The text of a key: pairs of bytes with colons between them.\<close>

fun hex_pairs :: "byte list \<Rightarrow> string" where
  "hex_pairs [] = []"
| "hex_pairs [a] = hex_byte a"
| "hex_pairs [a, b] = hex_byte a @ hex_byte b"
| "hex_pairs (a # b # c # bs) = hex_byte a @ hex_byte b @ '':'' @ hex_pairs (c # bs)"

lemma bin2hex_pairs:
  assumes "even (length key)" "pos < length key" "even pos"
  shows "bin2hex key (length key) pos = Inr (hex_pairs (drop pos key))"
  using assms(2,3)
proof (induction "length key - pos" arbitrary: pos rule: less_induct)
  case less
  have l: "pos + 1 < length key" using less.prems assms(1) by presburger
  then have d: "drop pos key = key ! pos # key ! (pos + 1) # drop (pos + 2) key"
    using less.prems by (simp add: Cons_nth_drop_Suc)
  show ?case
  proof (cases "pos + 2 \<ge> length key")
    case True
    then show ?thesis
      using l d by (subst bin2hex.simps) (simp add: read_at_def del: drop_append)
  next
    case False
    then have "bin2hex key (length key) (pos + 2) = Inr (hex_pairs (drop (pos + 2) key))"
      using less by simp
    moreover obtain c bs where "drop (pos + 2) key = c # bs"
      using False by (cases "drop (pos + 2) key") auto
    ultimately show ?thesis
      using l d False by (subst bin2hex.simps) (simp add: read_at_def)
  qed
qed

lemma hex_pairs_separated:
  "\<exists>seps. length seps = length bs \<and> list_all (\<lambda>s. set s \<subseteq> {CHR '':''}) seps
     \<and> hex_pairs bs = concat (map (\<lambda>(sep, b). sep @ hex_byte b) (zip seps bs))
     \<and> (bs \<noteq> [] \<longrightarrow> hd seps = [])"
proof (induction bs rule: hex_pairs.induct)
  case (4 a b c bs)
  then obtain seps where s: "length seps = length (c # bs)" "list_all (\<lambda>s. set s \<subseteq> {CHR '':''}) seps"
    "hex_pairs (c # bs) = concat (map (\<lambda>(sep, b). sep @ hex_byte b) (zip seps (c # bs)))" "hd seps = []"
    by auto
  then obtain s0 where "seps = [] # s0" by (cases seps) auto
  with s show ?case by (intro exI [of _ "[] # [] # '':'' # s0"]) simp
next
  case (2 a)
  show ?case by (intro exI [of _ "[[]]"]) simp
next
  case (3 a b)
  show ?case by (intro exI [of _ "[[], []]"]) simp
qed simp

lemma length_hex_pairs: "2 * length bs \<le> length (hex_pairs bs)"
  by (induction bs rule: hex_pairs.induct) (simp_all add: hex_byte_def)

lemma hex_round_trip:
  assumes "hex_law lib" "length key = 32"
  shows "fingerprint key = Inr (hex_pairs key)" "pubkey_of_string lib (hex_pairs key) = Inr key"
proof -
  show "fingerprint key = Inr (hex_pairs key)"
    using bin2hex_pairs [of key 0] assms(2) by (simp add: fingerprint_def bytes_to_hex_def)
  obtain seps where s: "length seps = length key" "list_all (\<lambda>s. set s \<subseteq> {CHR '':''}) seps"
    "hex_pairs key = concat (map (\<lambda>(sep, b). sep @ hex_byte b) (zip seps key))"
    using hex_pairs_separated [of key] by blast
  have "list_all (\<lambda>(sep, b). set sep \<subseteq> set [CHR '':'', CHR '' '', CHR 0x09, CHR 0x0D, CHR 0x0A]) (zip seps key)"
    using s(2) by (fastforce simp: list_all_iff dest: set_zip_leftD)
  moreover have "length (zip seps key) \<le> 32" using s(1) assms(2) by simp
  moreover have "set [CHR '':'', CHR '' '', CHR 0x09, CHR 0x0D, CHR 0x0A] \<inter> hex_char ` {0..<16} = {}"
    by code_simp
  ultimately have "sodium_hex2bin lib 32 (hex_pairs key) [CHR '':'', CHR '' '', CHR 0x09, CHR 0x0D, CHR 0x0A]
      = Some (map snd (zip seps key))"
    using assms(1) s(3) unfolding hex_law_def by metis
  then show "pubkey_of_string lib (hex_pairs key) = Inr key"
    using s(1) assms(2) length_hex_pairs [of key] by (simp add: pubkey_of_string_def hex2bin_def)
qed

text \<open>
  A decoder with this behaviour: characters to ignore are skipped before a pair of digits.
\<close>

definition hex_digit :: "char \<Rightarrow> nat option" where
  "hex_digit c =
     (let n = char_code c in
      if 48 \<le> n \<and> n < 58 then Some (n - 48) else if 65 \<le> n \<and> n < 71 then Some (n - 55)
      else if 97 \<le> n \<and> n < 103 then Some (n - 87) else None)"

fun hex_decode :: "string \<Rightarrow> string \<Rightarrow> byte list option" where
  "hex_decode ignore [] = Some []"
| "hex_decode ignore [c] = (if c \<in> set ignore then Some [] else None)"
| "hex_decode ignore (c # d # s) =
     (if c \<in> set ignore then hex_decode ignore (d # s)
      else case (hex_digit c, hex_digit d) of
        (Some x, Some y) \<Rightarrow> map_option (Cons (word_of_nat (16 * x + y))) (hex_decode ignore s)
      | _ \<Rightarrow> None)"

definition hex_decoder :: "nat \<Rightarrow> string \<Rightarrow> string \<Rightarrow> byte list option" where
  "hex_decoder n s ignore =
     (case hex_decode ignore s of None \<Rightarrow> None | Some bs \<Rightarrow> if length bs \<le> n then Some bs else None)"

lemma hex_digit_hex_char: "d < 16 \<Longrightarrow> hex_digit (hex_char d) = Some d"
  by (simp add: hex_digit_def hex_char_def Let_def)

lemma hex_decode_skip: "set sep \<subseteq> set ignore \<Longrightarrow> s \<noteq> [] \<Longrightarrow> hex_decode ignore (sep @ s) = hex_decode ignore s"
proof (induction sep)
  case (Cons c sep)
  obtain d r where "sep @ s = d # r" using Cons.prems by (cases "sep @ s") auto
  with Cons show ?case by simp
qed simp

lemma hex_byte_not_Nil [simp]: "hex_byte b \<noteq> []"
  by (simp add: hex_byte_def)

lemma hex_decode_byte:
  assumes "set ignore \<inter> hex_char ` {0..<16} = {}"
  shows "hex_decode ignore (hex_byte b @ s) = map_option (Cons b) (hex_decode ignore s)"
proof -
  have u: "unat b div 16 < 16" using unat_byte_less [of b] by (simp add: less_mult_imp_div_less)
  then have "hex_char (unat b div 16) \<notin> set ignore" using assms by auto
  then show ?thesis using u by (simp add: hex_byte_def hex_digit_hex_char)
qed

lemma hex_decoder_law: "hex_law (lib\<lparr>sodium_hex2bin := hex_decoder\<rparr>)"
proof -
  have "hex_decode ignore (concat (map (\<lambda>(sep, b). sep @ hex_byte b) ps)) = Some (map snd ps)"
    if "set ignore \<inter> hex_char ` {0..<16} = {}" "list_all (\<lambda>(sep, b). set sep \<subseteq> set ignore) ps" for ignore ps
    using that(2)
  proof (induction ps)
    case (Cons p ps)
    obtain sep b where "p = (sep, b)" by (cases p)
    with Cons show ?case
      using hex_decode_skip [of sep ignore "hex_byte b @ concat (map (\<lambda>(sep, b). sep @ hex_byte b) ps)"]
      by (simp add: hex_decode_byte [OF that(1)] del: map_append)
  qed simp
  then show ?thesis by (simp add: hex_law_def hex_decoder_def)
qed

end
