(* ===== verification/Encryptor.thy ===== *)
theory Encryptor
  imports Query_Build Crypt_Keys
begin

text \<open>
  Encryption of DNS messages: \<^verbatim>\<open>dns/crypt/srcz/pad_buffer.cpp\<close>, \<^verbatim>\<open>dns/crypt/message_header.hxx\<close>, the
  client side \<^verbatim>\<open>dns::crypt::encryptor\<close> (\<^verbatim>\<open>dns/crypt/srcz/encryptor.cpp\<close>) and the server side
  \<^verbatim>\<open>dns::crypt::server::encryptor\<close> (\<^verbatim>\<open>dns/crypt/srcz/server_crypt.cpp\<close>).  Messages are changed in
  place in the buffer of the packet.  What the clock and the random number generators return is the
  record \<open>crypt_env\<close>.
\<close>

section \<open>Definitions\<close>

text \<open>The difference of two \<^verbatim>\<open>unsigned\<close> numbers.\<close>

definition u32_sub :: "nat \<Rightarrow> nat \<Rightarrow> nat" where
  "u32_sub a b = (a + (2 ^ 32 - b)) mod 2 ^ 32"

subsection \<open>Padding\<close>

text \<open>
  \<^verbatim>\<open>pad_buffer\<close> on the message of \<open>len\<close> bytes that starts at \<open>base\<close>; \<open>rndfunc n\<close> is a number below
  \<open>n\<close>.
\<close>

definition pad_buffer :: "byte list \<Rightarrow> nat \<Rightarrow> nat \<Rightarrow> nat \<Rightarrow> (nat \<Rightarrow> nat) \<Rightarrow> (byte list \<times> nat) res" where
  "pad_buffer b base len max_len rndfunc =
     (let block_size = 64; min_pad_len = 8 in
      if max_len < len + min_pad_len then Inr (b, len)
      else
        let p1 = len + min_pad_len + rndfunc (max_len - len - min_pad_len + 1);
            p2 = (p1 + (block_size - p1 mod block_size)) mod 2 ^ 32;
            padded_len = (if p2 > max_len then max_len else p2)
        in ebind (write_block b (base + len) (replicate (padded_len - len) 0)) (\<lambda>b.
           ebind (write_block b (base + len) [0x80]) (\<lambda>b. Inr (b, padded_len))))"

text \<open>The loop of \<^verbatim>\<open>find_end\<close>: the index at which it stops.\<close>

fun find_end_loop :: "byte list \<Rightarrow> nat \<Rightarrow> nat res" where
  "find_end_loop b 0 = Inr 0"
| "find_end_loop b (Suc n) =
     ebind (read_at b n) (\<lambda>x. if x = 0 then find_end_loop b n else Inr n)"

definition find_end :: "byte list \<Rightarrow> nat \<Rightarrow> nat res" where
  "find_end b n =
     ebind (find_end_loop b n) (\<lambda>i.
     ebind (read_at b i) (\<lambda>x. if x \<noteq> 0x80 then Inl (Runtime_error ''no end'') else Inr i))"

subsection \<open>Headers\<close>

definition magic_size :: nat where [simp]: "magic_size = 8"

definition magic_response :: "byte list" where
  "magic_response = str_bytes ''r6fnvWj8''"

record query_header =
  qh_magic :: "byte list"
  qh_pubkey :: "byte list"
  qh_nonce :: "byte list"

record response_header =
  rh_magic :: "byte list"
  rh_client_nonce :: "byte list"
  rh_server_nonce :: "byte list"

definition sizeof_query_header :: nat where [simp]: "sizeof_query_header = 52"
definition sizeof_response_header :: nat where [simp]: "sizeof_response_header = 32"
definition query_head_size :: nat where [simp]: "query_head_size = 68"
definition response_head_size :: nat where [simp]: "response_head_size = 48"

definition store_query_header :: "query_header \<Rightarrow> byte list" where
  "store_query_header h = qh_magic h @ qh_pubkey h @ qh_nonce h"

definition load_query_header :: "byte list \<Rightarrow> query_header" where
  "load_query_header b = \<lparr>qh_magic = slice 0 8 b, qh_pubkey = slice 8 32 b, qh_nonce = slice 40 12 b\<rparr>"

definition store_response_header :: "response_header \<Rightarrow> byte list" where
  "store_response_header h = rh_magic h @ rh_client_nonce h @ rh_server_nonce h"

definition load_response_header :: "byte list \<Rightarrow> response_header" where
  "load_response_header b =
     \<lparr>rh_magic = slice 0 8 b, rh_client_nonce = slice 8 12 b, rh_server_nonce = slice 20 12 b\<rparr>"

subsection \<open>The client\<close>

record encryptor_data =
  magic_query :: "byte list"
  publickey :: "byte list"
  secretkey :: "byte list"
  nmkey :: "byte list"
  nonce_pad :: "byte list"
  e_cipher :: cipher
  ephemeral_keys :: bool

record crypt_env =
  ce_time :: "64 word"
  ce_random1 :: u32
  ce_random2 :: u32
  ce_uniform :: "nat \<Rightarrow> nat"

definition env_nonce :: "crypt_env \<Rightarrow> byte list" where
  "env_nonce ce = make_random (ce_time ce) (ce_random1 ce) (ce_random2 ce)"

definition zero_data :: encryptor_data where
  "zero_data = \<lparr>magic_query = replicate 8 0, publickey = replicate 32 0, secretkey = replicate 32 0,
     nmkey = replicate 32 0, nonce_pad = replicate 12 0, e_cipher = cipher_undefined,
     ephemeral_keys = False\<rparr>"

text \<open>
  The constructors: with a flag, where \<open>pad\<close> and \<open>sk\<close> are random bytes and \<open>kp\<close> is the generated key
  pair; with a key pair; and with the file of a key, which is not read.
\<close>

definition encryptor_new :: "bool \<Rightarrow> byte list \<Rightarrow> byte list \<Rightarrow> byte list \<times> byte list \<Rightarrow> encryptor_data" where
  "encryptor_new ephemeral pad sk kp =
     (if ephemeral then zero_data\<lparr>ephemeral_keys := True, nonce_pad := pad, secretkey := sk\<rparr>
      else zero_data\<lparr>ephemeral_keys := False, publickey := fst kp, secretkey := snd kp\<rparr>)"

definition encryptor_of_keys :: "byte list \<Rightarrow> byte list \<Rightarrow> encryptor_data" where
  "encryptor_of_keys pk sk = zero_data\<lparr>ephemeral_keys := False, publickey := pk, secretkey := sk\<rparr>"

definition encryptor_of_file :: "sodium \<Rightarrow> encryptor_data" where
  "encryptor_of_file lib = zero_data\<lparr>publickey := scalarmult_base lib (secretkey zero_data)\<rparr>"

definition set_magic_query :: "byte list \<Rightarrow> cipher \<Rightarrow> encryptor_data \<Rightarrow> encryptor_data" where
  "set_magic_query m c enc = enc\<lparr>magic_query := m, e_cipher := c\<rparr>"

text \<open>\<^verbatim>\<open>set_resolver_publickey\<close>: whether it returns 0, and the new state.\<close>

definition set_resolver_publickey :: "sodium \<Rightarrow> byte list \<Rightarrow> encryptor_data \<Rightarrow> bool \<times> encryptor_data" where
  "set_resolver_publickey lib pk enc =
     (if \<not> ephemeral_keys enc then
        (if e_cipher enc = cipher_undefined then (False, enc)
         else case box_beforenm lib (e_cipher enc) pk (secretkey enc) of
             None \<Rightarrow> (False, enc)
           | Some k \<Rightarrow> (True, enc\<lparr>nmkey := k\<rparr>))
      else (True, enc\<lparr>publickey := pk\<rparr>))"

definition crypt_failure :: "string \<Rightarrow> exn" where
  "crypt_failure msg = Runtime_error (''Cryptography failure: '' @ msg)"

text \<open>\<^verbatim>\<open>curve_uncurve\<close>: the output and the public key of this message.\<close>

definition curve_uncurve ::
  "sodium \<Rightarrow> encryptor_data \<Rightarrow> byte list \<Rightarrow> byte list \<Rightarrow> bool \<Rightarrow> (byte list \<times> byte list) res" where
  "curve_uncurve lib keys fullnonce inp e =
     (if e_cipher keys = cipher_undefined then Inl (Logic_error ''unsupported cipher'')
      else
        let do_afternm = (if e then box_open_easy_afternm lib else box_easy_afternm lib) (e_cipher keys);
            do_easy = (if e then box_open_easy lib else box_easy lib) (e_cipher keys);
            (res, eph_publickey) =
              (if \<not> ephemeral_keys keys then (do_afternm inp fullnonce (nmkey keys), publickey keys)
               else
                 let eph_fullnonce = full_nonce_2 (first_half fullnonce) (nonce_pad keys);
                     eph_secretkey = crypto_stream lib crypto_box_SECRETKEYBYTES eph_fullnonce (secretkey keys)
                 in (do_easy inp fullnonce (publickey keys) eph_secretkey,
                     scalarmult_base lib eph_secretkey))
        in case res of
             None \<Rightarrow> Inl (crypt_failure ''-6'')
           | Some out \<Rightarrow> Inr (out, eph_publickey))"

definition curve :: "sodium \<Rightarrow> crypt_env \<Rightarrow> encryptor_data \<Rightarrow> packet \<Rightarrow> (byte list \<times> packet) res" where
  "curve lib ce enc msg =
     (let len = pkt_size msg; max_len = min (3 * (len + query_head_size)) max_size in
      if max_len < len \<or> max_len - len < query_head_size
      then Inl (crypt_failure ''not enough space allocated to encrypt DNS message'')
      else
        ebind (read_block (pkt_bytes msg) 0 len) (\<lambda>m.
        ebind (write_block (pkt_bytes msg) sizeof_query_header m) (\<lambda>b.
        ebind (pad_buffer b sizeof_query_header len (u32_sub max_len (query_head_size + 2)) (ce_uniform ce)) (\<lambda>(b, len).
          let session_nonce = env_nonce ce; fullnonce = full_nonce_1 session_nonce in
          ebind (read_block b sizeof_query_header len) (\<lambda>inp.
          ebind (curve_uncurve lib enc fullnonce inp False) (\<lambda>(out, eph_publickey).
          ebind (write_block b sizeof_query_header out) (\<lambda>b.
          ebind (write_block b 0 (store_query_header
              \<lparr>qh_magic = magic_query enc, qh_pubkey = eph_publickey, qh_nonce = session_nonce\<rparr>)) (\<lambda>b.
            let curved_size = len + query_head_size in
            if curved_size = 0 \<or> curved_size > 65534 then Inl (crypt_failure ''failed to encrypt'')
            else Inr (session_nonce, set_size (cast_u16 curved_size) (msg\<lparr>pkt_bytes := b\<rparr>))))))))))"

definition uncurve :: "sodium \<Rightarrow> encryptor_data \<Rightarrow> byte list \<Rightarrow> packet \<Rightarrow> packet res" where
  "uncurve lib enc session_nonce q =
     (let len = pkt_size q in
      if len \<le> response_head_size then Inl (crypt_failure ''too short encrypted message'')
      else
        ebind (read_block (pkt_bytes q) 0 sizeof_response_header) (\<lambda>hb.
          let head = load_response_header hb in
          if rh_magic head \<noteq> magic_response then Inl (crypt_failure ''message is not DNScrypt'')
          else if \<not> nonce_eq session_nonce (rh_client_nonce head) then Inl (crypt_failure ''wrong nonce'')
          else
            let fullnonce = full_nonce_2 (rh_client_nonce head) (rh_server_nonce head);
                ciphertext_len = len - sizeof_response_header
            in
            ebind (read_block (pkt_bytes q) sizeof_response_header ciphertext_len) (\<lambda>inp.
            ebind (curve_uncurve lib enc fullnonce inp True) (\<lambda>(out, _).
            ebind (write_block (pkt_bytes q) 0 out) (\<lambda>b.
            ebind (find_end b (ciphertext_len - crypto_box_MACBYTES)) (\<lambda>dec_size.
              if dec_size < header_size then Inl (crypt_failure ''decrypted message is not DNS'')
              else Inr (set_size (cast_u16 dec_size) (q\<lparr>pkt_bytes := b\<rparr>))))))))"

subsection \<open>The server\<close>

record server_encryptor_data =
  es_version :: "byte \<times> byte"
  crypt_publickey :: "byte list"
  crypt_secretkey :: "byte list"

definition server_encryptor :: "byte list \<Rightarrow> byte list \<Rightarrow> server_encryptor_data" where
  "server_encryptor pk sk = \<lparr>es_version = (0, 0), crypt_publickey = pk, crypt_secretkey = sk\<rparr>"

text \<open>The default constructor, where \<open>kp\<close> is what \<^verbatim>\<open>crypto_box_keypair\<close> generates, if it succeeds.\<close>

definition server_encryptor_new :: "(byte list \<times> byte list) option \<Rightarrow> server_encryptor_data res" where
  "server_encryptor_new kp =
     (case kp of None \<Rightarrow> Inl (Runtime_error ''Failed to generate key pair'')
      | Some (pk, sk) \<Rightarrow> Inr (server_encryptor pk sk))"

definition is_chacha :: "server_encryptor_data \<Rightarrow> bool" where
  "is_chacha cert \<longleftrightarrow> fst (es_version cert) = 0 \<and> snd (es_version cert) = 2"

definition server_cipher :: "server_encryptor_data \<Rightarrow> cipher" where
  "server_cipher keys = (if is_chacha keys then xchacha20poly1305 else xsalsa20poly1305)"

definition crypto_random :: "sodium \<Rightarrow> byte list \<Rightarrow> byte list \<Rightarrow> nat" where
  "crypto_random lib halfnonce sk = le_value (crypto_stream lib 4 (full_nonce_2 halfnonce halfnonce) sk)"

definition server_uncurve ::
  "sodium \<Rightarrow> server_encryptor_data \<Rightarrow> packet \<Rightarrow> (byte list \<times> byte list \<times> packet) res" where
  "server_uncurve lib keys q =
     (let msg_size = pkt_size q in
      if msg_size \<le> query_head_size then Inl (Runtime_error ''decryption failed: too short message'')
      else
        ebind (read_block (pkt_bytes q) 0 sizeof_query_header) (\<lambda>hb.
          let head = load_query_header hb in
          case box_beforenm lib (server_cipher keys) (qh_pubkey head) (crypt_secretkey keys) of
            None \<Rightarrow> Inl (Runtime_error ''decryption failed: beforenm'')
          | Some k \<Rightarrow>
              let fullnonce = full_nonce_1 (qh_nonce head) in
              ebind (read_block (pkt_bytes q) sizeof_query_header (msg_size - sizeof_query_header)) (\<lambda>encrypted.
                case box_open_easy_afternm lib (server_cipher keys) encrypted fullnonce k of
                  None \<Rightarrow> Inl (Runtime_error ''decryption failed: afternm'')
                | Some out \<Rightarrow>
                    ebind (write_block (pkt_bytes q) 0 out) (\<lambda>b.
                    ebind (find_end b (msg_size - query_head_size)) (\<lambda>dec_size.
                      if dec_size < header_size then Inl (Runtime_error ''too short decrypted DNS message'')
                      else Inr (k, first_half fullnonce,
                                set_size (cast_u16 dec_size) (q\<lparr>pkt_bytes := b\<rparr>)))))))"

definition server_curve ::
  "sodium \<Rightarrow> crypt_env \<Rightarrow> server_encryptor_data \<Rightarrow> byte list \<Rightarrow> byte list \<Rightarrow> packet \<Rightarrow> packet res" where
  "server_curve lib ce keys client_nonce k q =
     (let msg_size = pkt_size q in
      ebind (read_block (pkt_bytes q) 0 msg_size) (\<lambda>m.
      ebind (write_block (pkt_bytes q) response_head_size m) (\<lambda>b.
        let head = max response_head_size query_head_size;
            mxsz = min (reserved_size q) ((msg_size + head) * 3) in
        ebind (pad_buffer b response_head_size msg_size (u32_sub mxsz (head + 2))
            (\<lambda>ub. crypto_random lib client_nonce (crypt_secretkey keys) mod ub)) (\<lambda>(b, padded_msg_size).
          let fullnonce = full_nonce_2 client_nonce (env_nonce ce) in
          ebind (read_block b response_head_size padded_msg_size) (\<lambda>inp.
            case box_easy_afternm lib (server_cipher keys) inp fullnonce k of
              None \<Rightarrow> Inl (Runtime_error ''encryption failed'')
            | Some out \<Rightarrow>
                ebind (write_block b sizeof_response_header out) (\<lambda>b.
                ebind (write_block b 0 (store_response_header
                    \<lparr>rh_magic = magic_response, rh_client_nonce = first_half fullnonce,
                     rh_server_nonce = second_half fullnonce\<rparr>)) (\<lambda>b.
                  Inr (set_size (cast_u16 (padded_msg_size + response_head_size))
                    (q\<lparr>pkt_bytes := b\<rparr>)))))))))"

section \<open>Padding\<close>

lemma u32_sub_eq:
  assumes "b \<le> a" "a < 2 ^ 32"
  shows "u32_sub a b = a - b"
proof -
  have "a + (2 ^ 32 - b) = (a - b) + 2 ^ 32" using assms by simp
  then have "u32_sub a b = (a - b) mod 2 ^ 32" by (simp only: u32_sub_def mod_add_self2)
  then show ?thesis using assms by simp
qed

definition padding :: "nat \<Rightarrow> byte list" where
  "padding n = 0x80 # replicate (n - 1) 0"

lemma length_padding [simp]: "0 < n \<Longrightarrow> length (padding n) = n"
  by (simp add: padding_def)

lemma pad_buffer_result:
  assumes "base + max_len \<le> length b" "len + 8 \<le> max_len" "\<And>n. 0 < n \<Longrightarrow> rnd n < n" "max_len < 65536"
  obtains plen where "pad_buffer b base len max_len rnd = Inr (overwrite (base + len) (padding (plen - len)) b, plen)"
    "len + 8 \<le> plen" "plen \<le> max_len" "64 dvd plen \<or> plen = max_len"
proof -
  define p1 where "p1 = len + 8 + rnd (max_len - len - 8 + 1)"
  define p2 where "p2 = (p1 + (64 - p1 mod 64)) mod 2 ^ 32"
  define plen where "plen = (if p2 > max_len then max_len else p2)"
  have "rnd (max_len - len - 8 + 1) < max_len - len - 8 + 1" by (rule assms(3)) simp
  then have p1: "len + 8 \<le> p1" "p1 \<le> max_len" using assms(2) by (simp_all add: p1_def)
  then have p2: "p2 = p1 + (64 - p1 mod 64)" using assms(4) by (simp add: p2_def)
  have d: "64 dvd p2"
  proof -
    have "p1 mod 64 < 64" "p1 = p1 div 64 * 64 + p1 mod 64" by simp_all
    then have "p1 + (64 - p1 mod 64) = p1 div 64 * 64 + 64" by linarith
    then show ?thesis unfolding p2 by simp
  qed
  have p: "len + 8 \<le> plen" "plen \<le> max_len" "64 dvd plen \<or> plen = max_len"
    using p1 p2 d assms(2) by (auto simp: plen_def)
  have z: "replicate (plen - len) (0::byte) = 0 # replicate (plen - len - 1) 0"
    using p(1) by (cases "plen - len") simp_all
  have "overwrite (base + len) [0x80] (overwrite (base + len) (replicate (plen - len) 0) b)
      = overwrite (base + len) (padding (plen - len)) b"
    using p(1,2) assms(1) by (simp add: overwrite_def padding_def z)
  then have "pad_buffer b base len max_len rnd = Inr (overwrite (base + len) (padding (plen - len)) b, plen)"
    using p assms(1,2)
    unfolding pad_buffer_def Let_def p1_def [symmetric] p2_def [symmetric] plen_def [symmetric]
    by (simp add: write_block_def)
  then show thesis using p by (rule that)
qed

lemma find_end_loop_zeros:
  "n \<le> k \<Longrightarrow> find_end_loop (m @ x # replicate k 0 @ rest) (length m + 1 + n)
     = find_end_loop (m @ x # replicate k 0 @ rest) (length m + 1)"
proof (induction n)
  case (Suc n)
  then have "(m @ x # replicate k 0 @ rest) ! (length m + 1 + n) = 0"
    by (simp add: nth_append)
  then show ?case using Suc by (simp add: read_at_def)
qed simp

lemma find_end_padding:
  assumes "0 < n"
  shows "find_end (m @ padding n @ rest) (length m + n) = Inr (length m)"
proof -
  have "find_end_loop (m @ 0x80 # replicate (n - 1) 0 @ rest) (length m + 1 + (n - 1)) = Inr (length m)"
    by (subst find_end_loop_zeros) (simp_all add: read_at_def nth_append)
  then show ?thesis
    using assms by (simp add: find_end_def padding_def read_at_def nth_append)
qed

lemma find_end_loop_ensures: "n \<le> length b \<Longrightarrow> ensures (find_end_loop b n) (\<lambda>i. i < n \<or> i = 0)"
  by (induction n) (auto simp: read_at_def ensures_iff less_Suc_eq)

lemma find_end_ensures:
  assumes "n \<le> length b" "b \<noteq> []"
  shows "ensures (find_end b n) (\<lambda>i. i < n \<or> i = 0)"
  unfolding find_end_def
  by (rule ensures_ebind [OF find_end_loop_ensures [OF assms(1)]])
    (use assms in \<open>auto simp: read_at_def\<close>)

section \<open>Sealing and opening messages\<close>

lemma max_size_eq: "max_size = 55535"
  by (simp add: max_size_def)

lemma curve_result:
  assumes wf: "wf_packet msg" and room: "max_size \<le> length (pkt_bytes msg)"
    and size: "pkt_size msg + 78 \<le> max_size" and rnd: "\<And>n. 0 < n \<Longrightarrow> ce_uniform ce n < n"
    and magic: "length (magic_query enc) = 8"
    and seal: "\<And>m. \<exists>ct pk. curve_uncurve lib enc (full_nonce_1 (env_nonce ce)) m False = Inr (ct, pk)
      \<and> length ct = length m + 16 \<and> length pk = 32"
  obtains q n ct pk where "curve lib ce enc msg = Inr (env_nonce ce, q)" "wf_packet q" "8 \<le> n"
    "curve_uncurve lib enc (full_nonce_1 (env_nonce ce)) (content msg @ padding n) False = Inr (ct, pk)"
    "content q = magic_query enc @ pk @ env_nonce ce @ ct" "length (pkt_bytes q) = length (pkt_bytes msg)"
    "length pk = 32" "length ct = pkt_size msg + n + 16"
proof -
  let ?len = "pkt_size msg" and ?B = "pkt_bytes msg"
  define mx where "mx = min (3 * (?len + query_head_size)) max_size"
  have mx: "?len + 78 \<le> mx" "mx \<le> 55535" using size by (simp_all add: mx_def max_size_eq)
  then have sub: "u32_sub mx (query_head_size + 2) = mx - 70" by (simp add: u32_sub_eq)
  have B: "55535 \<le> length ?B" "length ?B < 65536" using room wf_packetD [OF wf] by (simp_all add: max_size_eq)
  define m where "m = take ?len ?B"
  have lm: "length m = ?len" using wf_packetD [OF wf] by (simp add: m_def)
  define b1 where "b1 = overwrite 52 m ?B"
  have lb1: "length b1 = length ?B" using B mx lm by (simp add: b1_def)
  obtain plen where plen: "pad_buffer b1 52 ?len (mx - 70) (ce_uniform ce)
      = Inr (overwrite (52 + ?len) (padding (plen - ?len)) b1, plen)" "?len + 8 \<le> plen" "plen \<le> mx - 70"
    by (rule pad_buffer_result [of 52 "mx - 70" b1 ?len "ce_uniform ce"]) (use B lb1 mx rnd in auto)
  define n where "n = plen - ?len"
  define b2 where "b2 = overwrite (52 + ?len) (padding n) b1"
  have n: "8 \<le> n" "plen = ?len + n" using plen(2) by (simp_all add: n_def)
  have b2: "b2 = overwrite 52 (m @ padding n) ?B"
    using overwrite_behind [of 52 m "padding n" ?B] B mx lm n plen(3) by (simp add: b2_def b1_def)
  have sl: "slice 52 plen b2 = m @ padding n"
    using slice_overwrite_same [of 52 "m @ padding n" ?B] B mx lm n plen(3) by (simp add: b2)
  obtain ct pk where ct: "curve_uncurve lib enc (full_nonce_1 (env_nonce ce)) (m @ padding n) False = Inr (ct, pk)"
    "length ct = ?len + n + 16" "length pk = 32"
    using seal [of "m @ padding n"] lm n by auto
  let ?hdr = "magic_query enc @ pk @ env_nonce ce"
  have lh: "length ?hdr = 52" using magic ct(3) by (simp add: env_nonce_def)
  have lb2: "length b2 = length ?B" using B mx lm n plen(3) by (simp add: b2)
  define b4 where "b4 = overwrite 0 ?hdr (overwrite 52 ct b2)"
  have lb4: "length b4 = length ?B" using lh lb2 B ct(2) n mx plen(3) by (simp add: b4_def)
  have b4: "b4 = overwrite 0 (?hdr @ ct) b2"
    using overwrite_before [of 0 ?hdr ct b2] lh lb2 B ct(2) n mx plen(3) by (simp add: b4_def)
  define q where "q = msg\<lparr>pkt_bytes := b4, pkt_size := plen + 68\<rparr>"
  have "curve lib ce enc msg = Inr (env_nonce ce, q)"
  proof -
    have nw: "\<not> (mx < ?len \<or> mx - ?len < 68)" using mx by simp
    have "?len + n + 70 \<le> 55535" using mx n plen(3) by simp
    then show ?thesis
      unfolding curve_def Let_def mx_def [symmetric] sub
      using nw wf_packetD [OF wf] plen(1) ct(1,2) sl lb2 B lm n lh
      by (simp add: read_block_def write_block_def store_query_header_def m_def [symmetric] b1_def [symmetric]
          n_def [symmetric] b2_def [symmetric] b4_def [symmetric] q_def set_size_def)
  qed
  moreover have "wf_packet q" using lb4 B n mx plen(3) by (simp add: wf_packet_def q_def)
  moreover have "content q = magic_query enc @ pk @ env_nonce ce @ ct"
  proof -
    have l: "length (?hdr @ ct) = plen + 68" using lh ct(2) n by simp
    have "plen + 68 \<le> length b2" using lb2 B mx n plen(3) by simp
    then have "take (plen + 68) (overwrite 0 (?hdr @ ct) b2) = ?hdr @ ct"
      using take_overwrite_end [of 0 "?hdr @ ct" b2] unfolding l by simp
    then show ?thesis by (simp add: content_def q_def b4)
  qed
  ultimately show thesis
    using that [of q n ct pk] n(1) ct lb4 by (simp add: q_def content_def m_def)
qed

lemma server_uncurve_result:
  assumes wf: "wf_packet q" and c: "content q = magic @ pk @ nonce @ ct"
    and len: "length magic = 8" "length pk = 32" "length nonce = 12"
    and k: "box_beforenm lib (server_cipher keys) pk (crypt_secretkey keys) = Some k"
    and op: "box_open_easy_afternm lib (server_cipher keys) ct (full_nonce_1 nonce) k = Some (m @ padding n)"
    and lct: "length ct = length m + n + 16" and n: "0 < n" and m: "12 \<le> length m"
  obtains q' where "server_uncurve lib keys q = Inr (k, nonce, q')" "content q' = m" "wf_packet q'"
    "length (pkt_bytes q') = length (pkt_bytes q)"
proof -
  let ?B = "pkt_bytes q"
  note w = wf_packetD [OF wf]
  have size: "pkt_size q = 52 + length ct" using arg_cong [OF c, of length] wf len by simp
  have B: "?B = (magic @ pk @ nonce @ ct) @ drop (pkt_size q) ?B"
    using c by (metis append_take_drop_id content_def)
  have h: "load_query_header (slice 0 52 ?B) = \<lparr>qh_magic = magic, qh_pubkey = pk, qh_nonce = nonce\<rparr>"
    unfolding load_query_header_def using len by (subst B, subst B, subst B) (simp add: slice_def)
  have e: "slice 52 (16 + (length m + n)) ?B = ct"
    using len lct by (subst B) (simp add: slice_def)
  define b where "b = overwrite 0 (m @ padding n) ?B"
  have lb: "length b = length ?B" using lct n size w by (simp add: b_def)
  have b: "b = m @ padding n @ drop (length m + n) ?B" using n by (simp add: b_def overwrite_def)
  have fe: "find_end b (length m + n) = Inr (length m)" unfolding b by (rule find_end_padding [OF n])
  define q' where "q' = q\<lparr>pkt_bytes := b, pkt_size := length m\<rparr>"
  have lm: "length m < 65536" using size lct w by simp
  have "server_uncurve lib keys q = Inr (k, nonce, q')"
    unfolding server_uncurve_def Let_def
    using size lct n w k op fe m lm len
    by (simp add: read_block_def write_block_def h e b_def [symmetric] q'_def set_size_def
        del: slice_zero)
  moreover have "content q' = m" by (simp add: content_def q'_def b)
  moreover have "wf_packet q'" using lb w size lct by (simp add: wf_packet_def q'_def)
  ultimately show thesis using that lb by (simp add: q'_def)
qed

lemma length_magic_response [simp]: "length magic_response = 8"
  by (simp add: magic_response_def str_bytes_def)

lemma server_curve_result:
  assumes wf: "wf_packet msg" and room: "max_size \<le> length (pkt_bytes msg)"
    and size: "pkt_size msg + 78 \<le> max_size" and cn: "length client_nonce = 12"
    and seal: "\<And>m. \<exists>ct. box_easy_afternm lib (server_cipher keys) m
      (full_nonce_2 client_nonce (env_nonce ce)) k = Some ct \<and> length ct = length m + 16"
  obtains q n ct where "server_curve lib ce keys client_nonce k msg = Inr q" "wf_packet q" "8 \<le> n"
    "box_easy_afternm lib (server_cipher keys) (content msg @ padding n)
       (full_nonce_2 client_nonce (env_nonce ce)) k = Some ct"
    "content q = magic_response @ client_nonce @ env_nonce ce @ ct"
    "length (pkt_bytes q) = length (pkt_bytes msg)" "length ct = pkt_size msg + n + 16"
proof -
  let ?len = "pkt_size msg" and ?B = "pkt_bytes msg"
  let ?rnd = "\<lambda>ub. crypto_random lib client_nonce (crypt_secretkey keys) mod ub"
  have B: "55535 \<le> length ?B" "length ?B < 65536" using room wf_packetD [OF wf] by (simp_all add: max_size_eq)
  define mx where "mx = min (reserved_size msg) ((?len + max response_head_size query_head_size) * 3)"
  have mx: "?len + 78 \<le> mx" "mx \<le> length ?B"
    using size B by (auto simp: mx_def max_size_eq reserved_size_eq [OF wf])
  then have sub: "u32_sub mx (max response_head_size query_head_size + 2) = mx - 70"
    using B by (simp add: u32_sub_eq)
  define m where "m = take ?len ?B"
  have lm: "length m = ?len" using wf_packetD [OF wf] by (simp add: m_def)
  define b1 where "b1 = overwrite 48 m ?B"
  have lb1: "length b1 = length ?B" using B mx lm by (simp add: b1_def)
  obtain plen where plen: "pad_buffer b1 48 ?len (mx - 70) ?rnd
      = Inr (overwrite (48 + ?len) (padding (plen - ?len)) b1, plen)" "?len + 8 \<le> plen" "plen \<le> mx - 70"
    by (rule pad_buffer_result [of 48 "mx - 70" b1 ?len ?rnd]) (use B lb1 mx in auto)
  define n where "n = plen - ?len"
  define b2 where "b2 = overwrite (48 + ?len) (padding n) b1"
  have n: "8 \<le> n" "plen = ?len + n" using plen(2) by (simp_all add: n_def)
  have small: "?len + n + 70 \<le> length ?B" using mx n plen(3) by simp
  have b2: "b2 = overwrite 48 (m @ padding n) ?B"
    using overwrite_behind [of 48 m "padding n" ?B] small lm n by (simp add: b2_def b1_def)
  have sl: "slice 48 plen b2 = m @ padding n"
    using slice_overwrite_same [of 48 "m @ padding n" ?B] small lm n by (simp add: b2)
  obtain ct where ct: "box_easy_afternm lib (server_cipher keys) (m @ padding n)
      (full_nonce_2 client_nonce (env_nonce ce)) k = Some ct" "length ct = ?len + n + 16"
    using seal [of "m @ padding n"] lm n by auto
  let ?hdr = "magic_response @ client_nonce @ env_nonce ce"
  have lh: "length ?hdr = 32" using cn by (simp add: env_nonce_def)
  have lb2: "length b2 = length ?B" using small lm n by (simp add: b2)
  define b4 where "b4 = overwrite 0 ?hdr (overwrite 32 ct b2)"
  have b4: "b4 = overwrite 0 (?hdr @ ct) b2"
    using overwrite_before [of 0 ?hdr ct b2] lh lb2 small ct(2) by (simp add: b4_def)
  have lb4: "length b4 = length ?B" using lh lb2 small ct(2) by (simp add: b4_def)
  define q where "q = msg\<lparr>pkt_bytes := b4, pkt_size := plen + 48\<rparr>"
  have "server_curve lib ce keys client_nonce k msg = Inr q"
    unfolding server_curve_def Let_def mx_def [symmetric] sub
    using wf_packetD [OF wf] plen(1) ct sl lb2 B lm n lh small cn
    by (simp add: read_block_def write_block_def store_response_header_def m_def [symmetric] b1_def [symmetric]
        n_def [symmetric] b2_def [symmetric] b4_def [symmetric] q_def set_size_def)
  moreover have "wf_packet q" using lb4 B n small by (simp add: wf_packet_def q_def)
  moreover have "content q = magic_response @ client_nonce @ env_nonce ce @ ct"
  proof -
    have l: "length (?hdr @ ct) = plen + 48" using lh ct(2) n by simp
    have "plen + 48 \<le> length b2" using lb2 n small by simp
    then have "take (plen + 48) (overwrite 0 (?hdr @ ct) b2) = ?hdr @ ct"
      using take_overwrite_end [of 0 "?hdr @ ct" b2] unfolding l by simp
    then show ?thesis by (simp add: content_def q_def b4)
  qed
  ultimately show thesis
    using that [of q n ct] n(1) ct lb4 by (simp add: q_def content_def m_def)
qed

lemma uncurve_result:
  assumes wf: "wf_packet q" and c: "content q = magic_response @ cn @ sn @ ct"
    and len: "length cn = 12" "length sn = 12"
    and op: "curve_uncurve lib enc (full_nonce_2 cn sn) ct True = Inr (m @ padding n, pk)"
    and lct: "length ct = length m + n + 16" and n: "0 < n" and m: "12 \<le> length m"
  obtains q' where "uncurve lib enc cn q = Inr q'" "content q' = m" "wf_packet q'"
    "length (pkt_bytes q') = length (pkt_bytes q)"
proof -
  let ?B = "pkt_bytes q"
  note w = wf_packetD [OF wf]
  have size: "pkt_size q = 32 + length ct" using arg_cong [OF c, of length] wf len by simp
  have B: "?B = (magic_response @ cn @ sn @ ct) @ drop (pkt_size q) ?B"
    using c by (metis append_take_drop_id content_def)
  have h: "load_response_header (slice 0 32 ?B)
      = \<lparr>rh_magic = magic_response, rh_client_nonce = cn, rh_server_nonce = sn\<rparr>"
    unfolding load_response_header_def using len by (subst B, subst B, subst B) (simp add: slice_def)
  have e: "slice 32 (16 + (length m + n)) ?B = ct"
    using len lct by (subst B) (simp add: slice_def)
  define b where "b = overwrite 0 (m @ padding n) ?B"
  have lb: "length b = length ?B" using lct n size w by (simp add: b_def)
  have b: "b = m @ padding n @ drop (length m + n) ?B" using n by (simp add: b_def overwrite_def)
  have fe: "find_end b (length m + n) = Inr (length m)" unfolding b by (rule find_end_padding [OF n])
  define q' where "q' = q\<lparr>pkt_bytes := b, pkt_size := length m\<rparr>"
  have lm: "length m < 65536" using size lct w by simp
  have "uncurve lib enc cn q = Inr q'"
    unfolding uncurve_def Let_def
    using size lct n w op fe m lm len
    by (simp add: read_block_def write_block_def h e b_def [symmetric] q'_def set_size_def nonce_eq_def
        del: slice_zero)
  moreover have "content q' = m" by (simp add: content_def q'_def b)
  moreover have "wf_packet q'" using lb w size lct by (simp add: wf_packet_def q'_def)
  ultimately show thesis using that lb by (simp add: q'_def)
qed

text \<open>
  A client whose certificate names the public key of the server, for the cipher the server uses.
  The client has ephemeral keys, as every \<^verbatim>\<open>dns::crypt::resolver\<close> has, and each key it derives can
  be combined with the key of the server.
\<close>

definition eph_secretkey :: "sodium \<Rightarrow> encryptor_data \<Rightarrow> byte list \<Rightarrow> byte list" where
  "eph_secretkey lib enc nonce = crypto_stream lib 32 (full_nonce_2 nonce (nonce_pad enc)) (secretkey enc)"

definition paired :: "sodium \<Rightarrow> encryptor_data \<Rightarrow> server_encryptor_data \<Rightarrow> bool" where
  "paired lib enc srv \<longleftrightarrow> ephemeral_keys enc \<and> e_cipher enc = server_cipher srv
     \<and> length (magic_query enc) = 8
     \<and> publickey enc = scalarmult_base lib (crypt_secretkey srv)
     \<and> (\<forall>n. length n = 12 \<longrightarrow>
          box_beforenm lib (server_cipher srv) (publickey enc) (eph_secretkey lib enc n) \<noteq> None)"

lemma paired_key:
  assumes "sodium_laws lib" "paired lib enc srv" "length nonce = 12"
  obtains k where "length k = 32"
    "box_beforenm lib (server_cipher srv) (scalarmult_base lib (eph_secretkey lib enc nonce))
       (crypt_secretkey srv) = Some k"
    "\<And>m n2. length n2 = 24 \<Longrightarrow> first_half n2 = nonce \<Longrightarrow> curve_uncurve lib enc n2 m False
       = Inr (the (box_easy_afternm lib (server_cipher srv) m n2 k), scalarmult_base lib (eph_secretkey lib enc nonce))"
    "\<And>ct n2 m. first_half n2 = nonce \<Longrightarrow> box_open_easy_afternm lib (server_cipher srv) ct n2 k = Some m \<Longrightarrow>
       curve_uncurve lib enc n2 ct True = Inr (m, scalarmult_base lib (eph_secretkey lib enc nonce))"
proof -
  note p = assms(2) [unfolded paired_def] and laws = sodium_lawsD [OF assms(1)]
  obtain k where k: "box_beforenm lib (server_cipher srv) (publickey enc) (eph_secretkey lib enc nonce) = Some k"
    using p assms(3) by auto
  have c: "server_cipher srv \<noteq> cipher_undefined" by (simp add: server_cipher_def)
  have lk: "length k = 32" by (rule laws(6) [OF k])
  show thesis
  proof (rule that [OF lk])
    show "box_beforenm lib (server_cipher srv) (scalarmult_base lib (eph_secretkey lib enc nonce))
       (crypt_secretkey srv) = Some k"
      using k p laws(9) [of "server_cipher srv" "eph_secretkey lib enc nonce" "crypt_secretkey srv"] by simp
  next
    fix m n2 assume n2: "length n2 = (24::nat)" "first_half n2 = nonce"
    obtain ct where "box_easy_afternm lib (server_cipher srv) m n2 k = Some ct"
      using laws(1) [OF n2(1) lk, of "server_cipher srv" m] by blast
    then show "curve_uncurve lib enc n2 m False
       = Inr (the (box_easy_afternm lib (server_cipher srv) m n2 k), scalarmult_base lib (eph_secretkey lib enc nonce))"
      using p c n2(2) laws(7) [OF k, of m n2] by (simp add: curve_uncurve_def eph_secretkey_def Let_def)
  next
    fix ct n2 m assume "first_half n2 = nonce" "box_open_easy_afternm lib (server_cipher srv) ct n2 k = Some m"
    then show "curve_uncurve lib enc n2 ct True = Inr (m, scalarmult_base lib (eph_secretkey lib enc nonce))"
      using p c laws(8) [OF k, of ct n2] by (simp add: curve_uncurve_def eph_secretkey_def Let_def)
  qed
qed

lemma find_end_loop_spec:
  "find_end_loop b n = Inr i \<Longrightarrow> n \<le> length b \<Longrightarrow> 0 < n \<Longrightarrow>
     i < n \<and> (\<exists>k. take n b = take i b @ b ! i # replicate k 0)"
proof (induction n)
  case (Suc n)
  have t: "take (Suc n) b = take n b @ [b ! n]" using Suc.prems(2) by (simp add: take_Suc_conv_app_nth)
  show ?case
  proof (cases "b ! n = 0")
    case True
    show ?thesis
    proof (cases n)
      case 0
      then show ?thesis using Suc.prems t by (auto simp: read_at_def split: if_splits intro: exI [of _ 0])
    next
      case (Suc n')
      with True Suc.prems have "find_end_loop b n = Inr i" by (simp add: read_at_def)
      with Suc.IH Suc.prems Suc obtain k where "i < n" "take n b = take i b @ b ! i # replicate k 0" by auto
      then show ?thesis
        using t True by (auto simp: replicate_append_same intro!: exI [of _ "Suc k"])
    qed
  next
    case False
    then show ?thesis using Suc.prems t by (auto simp: read_at_def intro!: exI [of _ 0])
  qed
qed simp

lemma find_end_spec:
  assumes "find_end b n = Inr i" "n \<le> length b" "0 < n"
  shows "i < n \<and> (\<exists>k. take n b = take i b @ padding k \<and> 0 < k)"
proof -
  from assms(1) have l: "find_end_loop b n = Inr i" and x: "b ! i = 0x80"
    by (auto simp: find_end_def split: if_splits)
  from find_end_loop_spec [OF l assms(2,3)] x obtain k where
    "i < n" "take n b = take i b @ 0x80 # replicate k 0" by auto
  then show ?thesis by (auto simp: padding_def intro!: exI [of _ "Suc k"])
qed

lemma open_length:
  assumes "sodium_laws lib" "curve_uncurve lib enc nonce ct True = Inr (out, pk)"
  shows "length ct = length out + 16"
  using assms(2) sodium_lawsD(2,3) [OF assms(1)]
  by (auto simp: curve_uncurve_def Let_def split: if_splits option.splits)

section \<open>Properties\<close>

text \<open>The key of the session that both sides compute for a nonce of the client.\<close>

definition session_key :: "sodium \<Rightarrow> encryptor_data \<Rightarrow> server_encryptor_data \<Rightarrow> byte list \<Rightarrow> byte list \<Rightarrow> bool" where
  "session_key lib enc srv nonce k \<longleftrightarrow>
     box_beforenm lib (server_cipher srv) (scalarmult_base lib (eph_secretkey lib enc nonce))
       (crypt_secretkey srv) = Some k"

lemma length_env_nonce [simp]: "length (env_nonce e) = 12"
  by (simp add: env_nonce_def)

lemma encrypted_query:
  assumes laws: "sodium_laws lib" and pair: "paired lib enc srv"
    and msg: "wf_packet msg" "max_size \<le> length (pkt_bytes msg)" "12 \<le> pkt_size msg" "pkt_size msg + 78 \<le> max_size"
    and rnd: "\<forall>n > 0. ce_uniform ce n < n"
  obtains q k q' where "curve lib ce enc msg = Inr (env_nonce ce, q)" "wf_packet q" "68 < pkt_size q"
    "take 8 (content q) = magic_query enc"
    "server_uncurve lib srv q = Inr (k, env_nonce ce, q')" "content q' = content msg" "wf_packet q'"
    "length (pkt_bytes q') = length (pkt_bytes msg)" "session_key lib enc srv (env_nonce ce) k"
proof -
  let ?n = "env_nonce ce" and ?c = "server_cipher srv"
  let ?pk = "scalarmult_base lib (eph_secretkey lib enc ?n)"
  obtain k where k: "length k = 32" "box_beforenm lib ?c ?pk (crypt_secretkey srv) = Some k"
    and seal: "\<And>m n2. length n2 = 24 \<Longrightarrow> first_half n2 = ?n \<Longrightarrow> curve_uncurve lib enc n2 m False
       = Inr (the (box_easy_afternm lib ?c m n2 k), ?pk)"
    and "\<And>ct n2 m. first_half n2 = ?n \<Longrightarrow> box_open_easy_afternm lib ?c ct n2 k = Some m \<Longrightarrow>
       curve_uncurve lib enc n2 ct True = Inr (m, ?pk)"
    using paired_key [OF laws pair length_env_nonce [of ce]] by blast
  have box: "\<exists>ct. box_easy_afternm lib ?c m n2 k = Some ct \<and> length ct = length m + 16
      \<and> box_open_easy_afternm lib ?c ct n2 k = Some m" if "length n2 = 24" for m n2
    by (rule sodium_lawsD(1) [OF laws that k(1)])
  have f: "length (full_nonce_1 ?n) = 24" "first_half (full_nonce_1 ?n) = ?n" by simp_all
  have s: "\<exists>ct pk. curve_uncurve lib enc (full_nonce_1 ?n) m False = Inr (ct, pk)
      \<and> length ct = length m + 16 \<and> length pk = 32" for m
    using seal [OF f, of m] box [OF f(1), of m] sodium_lawsD(10) [OF laws] by auto
  have magic: "length (magic_query enc) = 8" using pair by (simp add: paired_def)
  obtain q n ct pk where q: "curve lib ce enc msg = Inr (?n, q)" "wf_packet q" "8 \<le> n"
    "curve_uncurve lib enc (full_nonce_1 ?n) (content msg @ padding n) False = Inr (ct, pk)"
    "content q = magic_query enc @ pk @ ?n @ ct" "length (pkt_bytes q) = length (pkt_bytes msg)"
    "length pk = 32" "length ct = pkt_size msg + n + 16"
    by (rule curve_result [OF msg(1,2,4) _ magic s]) (use rnd in auto)
  have ct: "pk = ?pk" "box_open_easy_afternm lib ?c ct (full_nonce_1 ?n) k = Some (content msg @ padding n)"
    using q(4) seal [OF f] box [OF f(1), of "content msg @ padding n"] by auto
  obtain q' where q': "server_uncurve lib srv q = Inr (k, ?n, q')" "content q' = content msg" "wf_packet q'"
    "length (pkt_bytes q') = length (pkt_bytes q)"
    by (rule server_uncurve_result [OF q(2,5) magic q(7) length_env_nonce k(2) [folded ct(1)] ct(2)])
      (use q(3,8) msg in auto)
  have "68 < pkt_size q" using arg_cong [OF q(5), of length] q(2,3,7,8) magic by simp
  moreover have "take 8 (content q) = magic_query enc" using q(5) magic by simp
  ultimately show thesis
    using that [OF q(1,2) _ _ q'(1,2,3)] q'(4) q(6) k(2) by (simp add: session_key_def)
qed

lemma encrypted_response:
  assumes laws: "sodium_laws lib" and pair: "paired lib enc srv"
    and key: "session_key lib enc srv nonce k" "length nonce = 12"
    and r: "wf_packet resp" "max_size \<le> length (pkt_bytes resp)" "12 \<le> pkt_size resp"
      "pkt_size resp + 78 \<le> max_size"
  shows "\<exists>r r'. server_curve lib ce srv nonce k resp = Inr r \<and> uncurve lib enc nonce r = Inr r'
      \<and> content r' = content resp"
proof -
  let ?c = "server_cipher srv" and ?f = "full_nonce_2 nonce (env_nonce ce)"
  let ?pk = "scalarmult_base lib (eph_secretkey lib enc nonce)"
  obtain k' where k': "length k' = 32" "box_beforenm lib ?c ?pk (crypt_secretkey srv) = Some k'"
    and "\<And>m n2. length n2 = 24 \<Longrightarrow> first_half n2 = nonce \<Longrightarrow> curve_uncurve lib enc n2 m False
       = Inr (the (box_easy_afternm lib ?c m n2 k'), ?pk)"
    and opens: "\<And>ct n2 m. first_half n2 = nonce \<Longrightarrow> box_open_easy_afternm lib ?c ct n2 k' = Some m \<Longrightarrow>
       curve_uncurve lib enc n2 ct True = Inr (m, ?pk)"
    using paired_key [OF laws pair key(2)] by blast
  have k: "k' = k" using k'(2) key(1) by (simp add: session_key_def)
  have f: "length ?f = 24" "first_half ?f = nonce" by (simp_all add: key(2))
  have box: "\<exists>ct. box_easy_afternm lib ?c m ?f k = Some ct \<and> length ct = length m + 16
      \<and> box_open_easy_afternm lib ?c ct ?f k = Some m" for m
    using sodium_lawsD(1) [OF laws f(1) k'(1)] k by simp
  then have "\<exists>ct. box_easy_afternm lib ?c m ?f k = Some ct \<and> length ct = length m + 16" for m by blast
  then obtain e n ct where e: "server_curve lib ce srv nonce k resp = Inr e" "wf_packet e" "8 \<le> n"
    "box_easy_afternm lib ?c (content resp @ padding n) ?f k = Some ct"
    "content e = magic_response @ nonce @ env_nonce ce @ ct" "length ct = pkt_size resp + n + 16"
    by (rule server_curve_result [OF r(1,2,4) key(2)])
  have "box_open_easy_afternm lib ?c ct ?f k = Some (content resp @ padding n)"
    using box [of "content resp @ padding n"] e(4) by auto
  then have o: "curve_uncurve lib enc ?f ct True = Inr (content resp @ padding n, ?pk)"
    using opens [OF f(2)] k by blast
  obtain r' where "uncurve lib enc nonce e = Inr r'" "content r' = content resp"
    by (rule uncurve_result [OF e(2,5) key(2) length_env_nonce o]) (use e(3,6) r in auto)
  with e(1) show ?thesis by blast
qed

text \<open>
  C9. A whole exchange over an encrypted channel: a query of 12 to 55457 bytes that the client
  encrypts is decrypted by the server to the same bytes, the server learns the nonce of the client,
  and every response of such a size that the server encrypts with that nonce and key is decrypted
  by the client to the same bytes, whatever the random numbers and the length of the padding are.
  The assumptions are the documented laws of the cryptographic library and matching keys.
\<close>

theorem encrypted_exchange_round_trip:
  assumes laws: "sodium_laws lib" and pair: "paired lib enc srv"
    and msg: "wf_packet msg" "max_size \<le> length (pkt_bytes msg)" "12 \<le> pkt_size msg" "pkt_size msg + 78 \<le> max_size"
    and rnd: "\<forall>n > 0. ce_uniform ce n < n"
  shows "\<exists>q k q'. curve lib ce enc msg = Inr (env_nonce ce, q)
    \<and> server_uncurve lib srv q = Inr (k, env_nonce ce, q') \<and> content q' = content msg
    \<and> (\<forall>ce' resp. wf_packet resp \<and> max_size \<le> length (pkt_bytes resp) \<and> 12 \<le> pkt_size resp
         \<and> pkt_size resp + 78 \<le> max_size \<longrightarrow>
        (\<exists>r r'. server_curve lib ce' srv (env_nonce ce) k resp = Inr r
           \<and> uncurve lib enc (env_nonce ce) r = Inr r' \<and> content r' = content resp))"
proof -
  obtain q k q' where q: "curve lib ce enc msg = Inr (env_nonce ce, q)"
    "server_uncurve lib srv q = Inr (k, env_nonce ce, q')" "content q' = content msg"
    "session_key lib enc srv (env_nonce ce) k"
    by (rule encrypted_query [OF laws pair msg rnd])
  then show ?thesis using encrypted_response [OF laws pair q(4) length_env_nonce] by blast
qed

text \<open>A library that satisfies the laws: it authenticates with zeros and does not encrypt.\<close>

definition plain_box :: sodium where
  "plain_box = \<lparr>box_beforenm = \<lambda>_ _ _. Some (replicate 32 0),
     box_easy_afternm = \<lambda>_ m _ _. Some (replicate 16 0 @ m),
     box_open_easy_afternm = \<lambda>_ ct _ _. if length ct < 16 then None else Some (drop 16 ct),
     box_easy = \<lambda>_ m _ _ _. Some (replicate 16 0 @ m),
     box_open_easy = \<lambda>_ ct _ _ _. if length ct < 16 then None else Some (drop 16 ct),
     scalarmult_base = \<lambda>_. replicate 32 0, crypto_stream = \<lambda>n _ _. replicate n 0,
     sign_open = \<lambda>s _. if length s < 64 then None else Some (drop 64 s),
     sodium_hex2bin = hex_decoder\<rparr>"

lemma plain_box_laws: "sodium_laws plain_box"
  by (auto simp: sodium_laws_def plain_box_def split: if_splits)

lemma plain_box_hex_law: "hex_law plain_box"
  using hex_decoder_law [of plain_box] by (simp add: plain_box_def)

definition plain_client :: encryptor_data where
  "plain_client = set_magic_query (replicate 8 1) xsalsa20poly1305
     (encryptor_new True (replicate 12 2) (replicate 32 3) ([], []))"

definition plain_server :: server_encryptor_data where
  "plain_server = server_encryptor (replicate 32 0) (replicate 32 4)"

lemma plain_paired: "paired plain_box plain_client plain_server"
  by (simp add: paired_def plain_box_def plain_client_def plain_server_def server_encryptor_def
      set_magic_query_def encryptor_new_def zero_data_def server_cipher_def is_chacha_def)

lemma query_of_bytes_facts:
  assumes "length d \<le> max_size"
  shows "wf_packet (query_of_bytes d)" "length (pkt_bytes (query_of_bytes d)) = max_size"
    "pkt_size (query_of_bytes d) = length d" "content (query_of_bytes d) = d"
  using assms
  by (simp_all add: query_of_bytes_def packet_of_def content_def wf_packet_def max_size_eq reserve_def)

theorem encrypted_exchange_round_trip_witness:
  "\<exists>q k q'. curve plain_box \<lparr>ce_time = 5, ce_random1 = 6, ce_random2 = 7, ce_uniform = \<lambda>n. n div 2\<rparr>
        plain_client (query_of_bytes (replicate 12 9))
      = Inr (env_nonce \<lparr>ce_time = 5, ce_random1 = 6, ce_random2 = 7, ce_uniform = \<lambda>n. n div 2\<rparr>, q)
    \<and> server_uncurve plain_box plain_server q
      = Inr (k, env_nonce \<lparr>ce_time = 5, ce_random1 = 6, ce_random2 = 7, ce_uniform = \<lambda>n. n div 2\<rparr>, q')
    \<and> content q' = replicate 12 9"
proof -
  have "length (replicate 12 (9::byte)) \<le> max_size" by (simp add: max_size_eq)
  note f = query_of_bytes_facts [OF this]
  show ?thesis
    using encrypted_exchange_round_trip [OF plain_box_laws plain_paired f(1), of
        "\<lparr>ce_time = 5, ce_random1 = 6, ce_random2 = 7, ce_uniform = \<lambda>n. n div 2\<rparr>"] f(2-4)
    by (simp add: max_size_eq) blast
qed

text \<open>
  C15. The client accepts nothing but authentic responses to its own query: if \<^verbatim>\<open>uncurve\<close> succeeds,
  then the message is longer than its header, begins with the magic of responses, carries the nonce
  of the session, and its authenticated decryption is the result followed by the padding; the
  result has at least the size of a DNS header and fits in the buffer.
\<close>

theorem uncurve_accepts_only_authentic:
  assumes laws: "sodium_laws lib" and wf: "wf_packet q" and "uncurve lib enc nonce q = Inr q'"
  shows "48 < pkt_size q \<and> take 8 (content q) = magic_response
    \<and> nonce_eq nonce (slice 8 12 (content q)) \<and> 12 \<le> pkt_size q' \<and> wf_packet q'
    \<and> (\<exists>pk k. curve_uncurve lib enc (slice 8 24 (content q)) (drop 32 (content q)) True
          = Inr (content q' @ padding k, pk) \<and> 0 < k)"
proof -
  let ?B = "pkt_bytes q" and ?len = "pkt_size q"
  note w = wf_packetD [OF wf]
  have big: "48 < ?len" using assms(3) by (auto simp: uncurve_def Let_def split: if_splits)
  define head where "head = load_response_header (slice 0 32 ?B)"
  have hd: "rh_magic head = take 8 (content q)" "rh_client_nonce head = slice 8 12 (content q)"
    "rh_server_nonce head = slice 20 12 (content q)"
    using big by (simp_all add: head_def load_response_header_def content_def slice_def drop_take min_def)
  have f: "full_nonce_2 (rh_client_nonce head) (rh_server_nonce head) = slice 8 24 (content q)"
    using slice_add [of 8 12 12 "content q"] by (simp add: hd full_nonce_2_def)
  have inp: "slice 32 (?len - 32) ?B = drop 32 (content q)"
    using big by (simp add: slice_def content_def drop_take)
  from assms(3) big w obtain out pk i where
    r: "rh_magic head = magic_response" "nonce_eq nonce (rh_client_nonce head)"
      "curve_uncurve lib enc (slice 8 24 (content q)) (drop 32 (content q)) True = Inr (out, pk)"
      "length out \<le> length ?B" "find_end (overwrite 0 out ?B) (?len - 48) = Inr i" "12 \<le> i"
      "q' = set_size (cast_u16 i) (q\<lparr>pkt_bytes := overwrite 0 out ?B\<rparr>)"
    by (auto simp: uncurve_def Let_def f inp [symmetric] head_def [symmetric] not_less split: if_splits
        simp del: slice_zero)
  have lo: "length out = ?len - 48" using open_length [OF laws r(3)] big wf by simp
  have b: "overwrite 0 out ?B = out @ drop (length out) ?B" by (simp add: overwrite_def)
  have fe: "i < ?len - 48 \<and> (\<exists>k. take (?len - 48) (overwrite 0 out ?B) = take i (overwrite 0 out ?B) @ padding k \<and> 0 < k)"
    by (rule find_end_spec [OF r(5)]) (use lo w big in \<open>simp_all add: b\<close>)
  then obtain k where k: "i < ?len - 48" "out = take i out @ padding k" "0 < k"
    using lo by (auto simp: b)
  have i: "cast_u16 i = i" using k(1) w by simp
  have "content q' = take i out" using k(1) lo r(7) i by (simp add: content_def set_size_def b)
  moreover have "wf_packet q'" using r(4,7) i k(1) w lo by (simp add: wf_packet_def set_size_def b)
  moreover have "pkt_size q' = i" using r(7) i by (simp add: set_size_def)
  ultimately show ?thesis using big r(1-3,6) hd k by auto
qed

theorem uncurve_accepts_only_authentic_witness:
  "let q = query_of_bytes (magic_response @ replicate 24 5 @ replicate 16 0 @ replicate 12 9 @ [0x80, 0]) in
   \<exists>q'. uncurve plain_box plain_client (replicate 12 5) q = Inr q' \<and> content q' = replicate 12 9
     \<and> take 8 (content q) = magic_response"
proof -
  define d where "d = magic_response @ replicate 24 5 @ replicate 16 0 @ replicate 12 9 @ [0x80, 0 :: byte]"
  have d: "d = magic_response @ replicate 12 5 @ replicate 12 5 @ (replicate 16 0 @ replicate 12 9 @ padding 2)"
    by (simp add: d_def padding_def replicate_add [of 12 12, symmetric, simplified])
  have ld: "length d \<le> max_size" by (simp add: d_def max_size_eq)
  note f = query_of_bytes_facts [OF ld]
  have o: "curve_uncurve plain_box plain_client (full_nonce_2 (replicate 12 5) (replicate 12 5))
      (replicate 16 0 @ replicate 12 9 @ padding 2) True = Inr (replicate 12 9 @ padding 2, replicate 32 0)"
    by (simp add: curve_uncurve_def plain_box_def plain_client_def set_magic_query_def encryptor_new_def
        zero_data_def Let_def)
  obtain q' where q': "uncurve plain_box plain_client (replicate 12 5) (query_of_bytes d) = Inr q'"
    "content q' = replicate 12 9"
    by (rule uncurve_result [OF f(1) trans [OF f(4) d] _ _ o]) simp_all
  with uncurve_accepts_only_authentic [OF plain_box_laws f(1) q'(1)] show ?thesis
    unfolding d_def [symmetric] Let_def by blast
qed

lemma safe_find_end: "n \<le> length b \<Longrightarrow> b \<noteq> [] \<Longrightarrow> safe (find_end b n)"
  by (rule ensures_safe [OF find_end_ensures])

lemma safe_curve_uncurve [simp]: "safe (curve_uncurve lib enc nonce inp e)"
  by (simp add: curve_uncurve_def Let_def crypt_failure_def split: option.split prod.split)

lemma safe_crypt_failure [simp]: "safe (Inl (crypt_failure m))"
  by (simp add: crypt_failure_def)

lemma seal_length:
  assumes "sodium_laws lib" "curve_uncurve lib enc nonce m False = Inr (out, pk)"
  shows "length out = length m + 16"
  using assms(2) sodium_lawsD(4,5) [OF assms(1)]
  by (auto simp: curve_uncurve_def Let_def split: if_splits option.splits)

definition wf_encryptor :: "encryptor_data \<Rightarrow> bool" where
  "wf_encryptor enc \<longleftrightarrow> length (magic_query enc) = 8 \<and> length (publickey enc) = 32"

lemma curve_uncurve_ensures:
  assumes "sodium_laws lib" "wf_encryptor enc"
  shows "ensures (curve_uncurve lib enc nonce m False) (\<lambda>(out, pk). length out = length m + 16 \<and> length pk = 32)"
  using assms(2) sodium_lawsD(4,5,10) [OF assms(1)]
  by (auto simp: curve_uncurve_def wf_encryptor_def crypt_failure_def Let_def split: option.split)

lemma pad_buffer_ensures:
  assumes "base + max len max_len \<le> length b" "\<forall>n > 0. rnd n < n" "max_len < 65536"
  shows "ensures (pad_buffer b base len max_len rnd) (\<lambda>(b', plen). length b' = length b \<and> plen \<le> max len max_len)"
proof (cases "max_len < len + 8")
  case True
  then show ?thesis by (simp add: pad_buffer_def)
next
  case False
  then obtain plen where "pad_buffer b base len max_len rnd
      = Inr (overwrite (base + len) (padding (plen - len)) b, plen)" "len + 8 \<le> plen" "plen \<le> max_len"
    using pad_buffer_result [of base max_len b len rnd] assms by (auto simp: not_less)
  then show ?thesis using assms(1) by simp
qed

lemma safe_curve:
  assumes laws: "sodium_laws lib" "wf_encryptor enc" and msg: "wf_packet msg" "max_size \<le> length (pkt_bytes msg)"
    and rnd: "\<forall>n > 0. ce_uniform ce n < n"
  shows "safe (curve lib ce enc msg)"
proof -
  let ?len = "pkt_size msg" and ?B = "pkt_bytes msg"
  define mx where "mx = min (3 * (?len + query_head_size)) max_size"
  show ?thesis
  proof (cases "mx < ?len \<or> mx - ?len < query_head_size")
    case True
    then show ?thesis unfolding curve_def Let_def mx_def [symmetric] by simp
  next
    case False
    have mx: "204 \<le> mx" "mx \<le> length ?B" "?len + 68 \<le> mx" "mx < 65536"
      using msg False wf_packetD [OF msg(1)] by (auto simp: mx_def max_size_eq)
    then have sub: "u32_sub mx (query_head_size + 2) = mx - 70" by (simp add: u32_sub_eq)
    let ?m = "take ?len ?B"
    define b1 where "b1 = overwrite 52 ?m ?B"
    have lm: "length ?m = ?len" using wf_packetD [OF msg(1)] by simp
    have lb1: "length b1 = length ?B" using mx lm by (simp add: b1_def)
    have pad: "ensures (pad_buffer b1 52 ?len (mx - 70) (ce_uniform ce))
        (\<lambda>(b', plen). length b' = length b1 \<and> plen \<le> max ?len (mx - 70))"
      by (rule pad_buffer_ensures) (use mx lb1 rnd in auto)
    have "safe (curve lib ce enc msg) \<longleftrightarrow> safe (ebind (pad_buffer b1 52 ?len (mx - 70) (ce_uniform ce)) (\<lambda>(b, len).
          ebind (read_block b 52 len) (\<lambda>inp.
          ebind (curve_uncurve lib enc (full_nonce_1 (env_nonce ce)) inp False) (\<lambda>(out, eph_publickey).
          ebind (write_block b 52 out) (\<lambda>b.
          ebind (write_block b 0 (store_query_header
              \<lparr>qh_magic = magic_query enc, qh_pubkey = eph_publickey, qh_nonce = env_nonce ce\<rparr>)) (\<lambda>b.
            if len + 68 = 0 \<or> len + 68 > 65534 then Inl (crypt_failure ''failed to encrypt'')
            else Inr (env_nonce ce, set_size (cast_u16 (len + query_head_size)) (msg\<lparr>pkt_bytes := b\<rparr>))))))))"
      unfolding curve_def Let_def mx_def [symmetric] sub if_not_P [OF False]
      using mx lm wf_packetD [OF msg(1)] by (simp add: read_block_def write_block_def b1_def)
    also have "\<dots>"
    proof (rule ensures_safe, rule ensures_ebind [OF pad], clarify)
      fix b :: "byte list" and plen
      assume b: "length b = length b1" "plen \<le> max ?len (mx - 70)"
      then have fit: "plen + 68 \<le> mx" using mx by auto
      show "ensures (ebind (read_block b 52 plen) (\<lambda>inp.
          ebind (curve_uncurve lib enc (full_nonce_1 (env_nonce ce)) inp False) (\<lambda>(out, eph_publickey).
          ebind (write_block b 52 out) (\<lambda>b.
          ebind (write_block b 0 (store_query_header
              \<lparr>qh_magic = magic_query enc, qh_pubkey = eph_publickey, qh_nonce = env_nonce ce\<rparr>)) (\<lambda>b.
            if plen + 68 = 0 \<or> plen + 68 > 65534 then Inl (crypt_failure ''failed to encrypt'')
            else Inr (env_nonce ce, set_size (cast_u16 (plen + query_head_size)) (msg\<lparr>pkt_bytes := b\<rparr>))))))) (\<lambda>_. True)"
        using fit b(1) lb1 mx(2) laws(2) [unfolded wf_encryptor_def]
        by (auto simp: read_block_def write_block_def store_query_header_def env_nonce_def crypt_failure_def
            intro!: ensures_ebind [OF curve_uncurve_ensures [OF laws]])
    qed
    finally show ?thesis .
  qed
qed

lemma safe_open_tail:
  assumes "n \<le> length b" "b \<noteq> []" "length out \<le> length b" "\<And>b' i. safe (f b' i)"
  shows "safe (ebind (write_block b 0 out) (\<lambda>b. ebind (find_end b n) (f b)))"
  using assms safe_find_end [of n "overwrite 0 out b"]
  by (auto simp: write_block_def overwrite_def)

lemma safe_uncurve:
  assumes laws: "sodium_laws lib" and wf: "wf_packet q"
  shows "safe (uncurve lib enc nonce q)"
proof (cases "pkt_size q \<le> response_head_size")
  case False
  let ?B = "pkt_bytes q"
  have B: "48 < pkt_size q" "pkt_size q \<le> length ?B" using False wf_packetD [OF wf] by simp_all
  have "safe (ebind (curve_uncurve lib enc n (slice 32 (pkt_size q - 32) ?B) True) (\<lambda>(out, _).
      ebind (write_block ?B 0 out) (\<lambda>b. ebind (find_end b (pkt_size q - 48)) (f b))))"
    if "\<And>b i. safe (f b i)" for n and f :: "byte list \<Rightarrow> nat \<Rightarrow> packet res"
  proof (rule safe_ebind, simp, clarify)
    fix out pk
    assume "curve_uncurve lib enc n (slice 32 (pkt_size q - 32) ?B) True = Inr (out, pk)"
    from open_length [OF laws this] B that
    show "safe (ebind (write_block ?B 0 out) (\<lambda>b. ebind (find_end b (pkt_size q - 48)) (f b)))"
      by (intro safe_open_tail) auto
  qed
  then show ?thesis
    unfolding uncurve_def Let_def if_not_P [OF False] using B
    by (simp add: read_block_def del: slice_zero)
qed (simp add: uncurve_def)

lemma safe_server_uncurve:
  assumes laws: "sodium_laws lib" and wf: "wf_packet q"
  shows "safe (server_uncurve lib keys q)"
proof (cases "pkt_size q \<le> query_head_size")
  case False
  let ?B = "pkt_bytes q"
  have B: "68 < pkt_size q" "pkt_size q \<le> length ?B" using False wf_packetD [OF wf] by simp_all
  have "safe (ebind (write_block ?B 0 out) (\<lambda>b. ebind (find_end b (pkt_size q - 68)) (f b)))"
    if "box_open_easy_afternm lib c (slice 52 (pkt_size q - 52) ?B) n k = Some out" "\<And>b i. safe (f b i)"
    for c n k out and f :: "byte list \<Rightarrow> nat \<Rightarrow> (byte list \<times> byte list \<times> packet) res"
    using sodium_lawsD(2) [OF laws that(1)] B that(2) by (intro safe_open_tail) auto
  then show ?thesis
    unfolding server_uncurve_def Let_def if_not_P [OF False] using B
    by (simp add: read_block_def split: option.split del: slice_zero)
qed (simp add: server_uncurve_def)

text \<open>
  C16. Decryption is memory safe on arbitrary bytes, on both sides; encryption on the client is safe
  for every message in the buffer of a query, whatever its size: it throws if the message is too
  long.  Encryption on the server is not: it moves the message by 48 bytes without a check, so that
  every message that fills the buffer up to its last 48 bytes is written past the end.
\<close>

theorem encryption_memory_safety:
  assumes "sodium_laws lib" "wf_packet q"
  shows "safe (uncurve lib enc nonce q) \<and> safe (server_uncurve lib keys q)
    \<and> (wf_encryptor enc \<and> max_size \<le> length (pkt_bytes q) \<and> (\<forall>n > 0. ce_uniform ce n < n) \<longrightarrow>
        safe (curve lib ce enc q))
    \<and> (pkt_size q + 48 > length (pkt_bytes q) \<longrightarrow>
        server_curve lib ce keys nonce k q = Inl Undefined_behaviour)"
  using safe_uncurve [OF assms] safe_server_uncurve [OF assms] safe_curve [OF assms(1) _ assms(2)]
    wf_packetD [OF assms(2)]
  by (auto simp: server_curve_def read_block_def write_block_def)

theorem encryption_memory_safety_witness:
  "let q = query_of_bytes (replicate 55500 1);
       ce = \<lparr>ce_time = 5, ce_random1 = 6, ce_random2 = 7, ce_uniform = \<lambda>n. n div 2\<rparr>
   in wf_packet q \<and> safe (curve plain_box ce plain_client q)
      \<and> server_curve plain_box ce plain_server (replicate 12 0) (replicate 32 0) q = Inl Undefined_behaviour"
proof -
  have "length (replicate 55500 (1::byte)) \<le> max_size" by (simp add: max_size_eq)
  note f = query_of_bytes_facts [OF this]
  have "wf_encryptor plain_client"
    by (simp add: wf_encryptor_def plain_client_def set_magic_query_def encryptor_new_def zero_data_def)
  then show ?thesis
    using encryption_memory_safety [OF plain_box_laws f(1), of plain_client "replicate 12 0" plain_server
        "\<lparr>ce_time = 5, ce_random1 = 6, ce_random2 = 7, ce_uniform = \<lambda>n. n div 2\<rparr>" "replicate 32 0"] f(1-3)
    by (simp add: Let_def max_size_eq)
qed

end
