(* ===== verification/Certificate.thy ===== *)
theory Certificate
  imports Encryptor
begin

text \<open>
  \<^verbatim>\<open>dns::crypt::certificate\<close> (\<^verbatim>\<open>dns/crypt/certificate.hxx\<close>, \<^verbatim>\<open>dns/crypt/srcz/certificate.cpp\<close>): the
  signed statement of a server about its current key.  What \<^verbatim>\<open>std::time (nullptr)\<close> returns is the
  argument \<open>tnow\<close>.
\<close>

section \<open>Definitions\<close>

record version =
  v_magic :: "byte list"
  v_major :: "byte list"
  v_minor :: "byte list"

record certificate_data =
  server_publickey :: "byte list"
  cd_magic_query :: "byte list"
  cd_serial :: "byte list"
  cd_ts_begin :: "byte list"
  cd_ts_end :: "byte list"

record certificate =
  c_version :: version
  c_data :: certificate_data
  raw_signed :: "byte list"

definition sizeof_version :: nat where [simp]: "sizeof_version = 8"
definition sizeof_certificate_data :: nat where [simp]: "sizeof_certificate_data = 52"

definition load_version :: "byte list \<Rightarrow> version" where
  "load_version b = \<lparr>v_magic = slice 0 4 b, v_major = slice 4 2 b, v_minor = slice 6 2 b\<rparr>"

definition load_certificate_data :: "byte list \<Rightarrow> certificate_data" where
  "load_certificate_data b = \<lparr>server_publickey = slice 0 32 b, cd_magic_query = slice 32 8 b,
     cd_serial = slice 40 4 b, cd_ts_begin = slice 44 4 b, cd_ts_end = slice 48 4 b\<rparr>"

definition is_dnscrypt_message :: "certificate \<Rightarrow> packet \<Rightarrow> bool res" where
  "is_dnscrypt_message cert q =
     (if pkt_size q \<le> sizeof_query_header + crypto_box_MACBYTES then Inr False
      else ebind (read_block (pkt_bytes q) 0 sizeof_query_header) (\<lambda>b.
        Inr (qh_magic (load_query_header b) = cd_magic_query (c_data cert))))"

definition cert_magic_cert :: "byte list" where
  "cert_magic_cert = str_bytes ''DNSC''"

definition recommended_key_rotation_period :: nat where
  "recommended_key_rotation_period = 7 * 86400"

definition cert_parse_version :: "version \<Rightarrow> bool" where
  "cert_parse_version ver =
     (if v_magic ver \<noteq> cert_magic_cert then False
      else if v_major ver ! 0 \<noteq> 0 \<or> (v_major ver ! 1 \<noteq> 1 \<and> v_major ver ! 1 \<noteq> 2) then False
      else True)"

text \<open>\<^verbatim>\<open>std::memcpy\<close> of four bytes into a number of the host, and \<^verbatim>\<open>htonl\<close>.\<close>

definition be_u32 :: "byte list \<Rightarrow> u32" where
  "be_u32 b = htonl (load_u32 (b ! 0) (b ! 1) (b ! 2) (b ! 3))"

definition cert_serial :: "certificate \<Rightarrow> u32" where
  "cert_serial c = be_u32 (cd_serial (c_data c))"

definition cert_version :: "certificate \<Rightarrow> u32" where
  "cert_version c =
     push_bit 24 (ucast (v_major (c_version c) ! 0)) + push_bit 16 (ucast (v_major (c_version c) ! 1))
     + push_bit 8 (ucast (v_minor (c_version c) ! 0)) + ucast (v_minor (c_version c) ! 1)"

definition is_preferred_over :: "certificate \<Rightarrow> certificate \<Rightarrow> bool" where
  "is_preferred_over this previous =
     (if cert_version previous > cert_version this then False
      else if cert_version previous < cert_version this then True
      else if cert_serial previous > cert_serial this then False
      else True)"

definition cert_ts :: "certificate_data \<Rightarrow> u32 \<times> u32" where
  "cert_ts d = (be_u32 (cd_ts_begin d), be_u32 (cd_ts_end d))"

definition invalid_certificate :: "string \<Rightarrow> exn" where
  "invalid_certificate msg = Runtime_error msg"

text \<open>
  The constructor.  When the signature is wrong, \<^verbatim>\<open>crypto_sign_ed25519_open\<close> returns no data, so that
  the check of the length throws.
\<close>

definition certificate_new :: "sodium \<Rightarrow> int \<Rightarrow> byte list \<Rightarrow> byte list \<Rightarrow> certificate res" where
  "certificate_new lib tnow provider_pubkey signed_certificate =
     (let signed_bincert_len = length signed_certificate in
      if 65000 < signed_bincert_len \<or> sizeof_version > signed_bincert_len
      then Inl (invalid_certificate ''invalid certificate'')
      else
        let signed_ver = load_version (take sizeof_version signed_certificate) in
        if \<not> cert_parse_version signed_ver then Inl (invalid_certificate ''invalid certificate'')
        else case sign_open lib (drop sizeof_version signed_certificate) provider_pubkey of
            None \<Rightarrow> Inl (invalid_certificate ''invalid certificate'')
          | Some buf \<Rightarrow>
              if length buf < sizeof_certificate_data then Inl (invalid_certificate ''invalid certificate'')
              else
                let d = load_certificate_data (take sizeof_certificate_data buf);
                    t = cert_ts d;
                    now_u32 = word_of_int tnow :: u32
                in
                if snd t \<le> fst t
                then Inl (invalid_certificate ''This certificate has a bogus validity period'')
                else if now_u32 < fst t then Inl (invalid_certificate ''Certificate has not been activated yet'')
                else if now_u32 > snd t then Inl (invalid_certificate ''Certificate has expired'')
                else Inr \<lparr>c_version = signed_ver, c_data = d, raw_signed = signed_certificate\<rparr>)"

text \<open>\<^verbatim>\<open>load_binary_file\<close>, where the file is the list of its bytes, if it can be opened.\<close>

definition load_certificate :: "sodium \<Rightarrow> int \<Rightarrow> byte list \<Rightarrow> byte list option \<Rightarrow> certificate res" where
  "load_certificate lib tnow provider_pubkey file =
     (case file of
        None \<Rightarrow> Inl (invalid_certificate ''Failed to load certificate from binary file'')
      | Some fc \<Rightarrow>
          let buf = take 1024 fc in
          if length buf > sizeof_version then certificate_new lib tnow provider_pubkey buf
          else Inl (invalid_certificate ''Failed to load certificate from binary file''))"

definition cert_clear :: "certificate \<Rightarrow> certificate" where
  "cert_clear c = c\<lparr>c_data := load_certificate_data (replicate sizeof_certificate_data 0), raw_signed := []\<rparr>"

text \<open>Whether \<^verbatim>\<open>check_key_rotation_period\<close> logs a warning.\<close>

definition check_key_rotation_period :: "certificate \<Rightarrow> bool" where
  "check_key_rotation_period c =
     (let t = cert_ts (c_data c) in unat (snd t - fst t) > recommended_key_rotation_period)"

definition cert_cipher :: "certificate \<Rightarrow> cipher" where
  "cert_cipher c =
     (if v_major (c_version c) ! 1 = 1 then xsalsa20poly1305
      else if v_major (c_version c) ! 1 = 2 then xchacha20poly1305
      else cipher_undefined)"

section \<open>Lemmas\<close>

definition be_value :: "byte list \<Rightarrow> nat" where
  "be_value b = foldl (\<lambda>n x. 256 * n + unat x) 0 b"

lemma list_4: "length b = 4 \<Longrightarrow> b = [b ! 0, b ! 1, b ! 2, b ! 3]"
  by (rule nth_equalityI) (auto simp: less_Suc_eq numeral_eq_Suc)

lemma unat_be_u32:
  assumes "length b = 4"
  shows "unat (be_u32 b) = be_value b"
proof -
  let ?a = "unat (b ! 0)" and ?b = "unat (b ! 1)" and ?c = "unat (b ! 2)" and ?d = "unat (b ! 3)"
  have "?a < 256" "?b < 256" "?c < 256" "?d < 256" by (rule unat_byte_less)+
  note d = digits_of_base_256 [OF this]
  have "unat (be_u32 b) = ?d + 256 * ?c + 65536 * ?b + 16777216 * ?a"
    unfolding be_u32_def unat_htonl unat_load_u32 d by simp
  also have "\<dots> = be_value [b ! 0, b ! 1, b ! 2, b ! 3]" by (simp add: be_value_def)
  finally show ?thesis using list_4 [OF assms] by simp
qed

lemma unat_word_of_int_u32: "unat (word_of_int i :: u32) = nat (i mod 2 ^ 32)"
  by (simp add: unsigned_of_int take_bit_eq_mod)

text \<open>The order of certificates: first the version, then the serial number.\<close>

lemma is_preferred_over_iff:
  "is_preferred_over c d \<longleftrightarrow> cert_version d < cert_version c
     \<or> cert_version d = cert_version c \<and> cert_serial d \<le> cert_serial c"
  by (auto simp: is_preferred_over_def)

lemma is_preferred_over_trans:
  "is_preferred_over a b \<Longrightarrow> is_preferred_over b c \<Longrightarrow> is_preferred_over a c"
  by (auto simp: is_preferred_over_iff)

lemma is_preferred_over_total: "is_preferred_over a b \<or> is_preferred_over b a"
  by (auto simp: is_preferred_over_iff)

lemma is_preferred_over_refl [simp]: "is_preferred_over a a"
  by (simp add: is_preferred_over_iff)

section \<open>Properties\<close>

text \<open>
  A certificate is accepted exactly if it has 8 to 65000 bytes, begins with \<^verbatim>\<open>DNSC\<close> and a version
  1 or 2, its signature is valid for the key of the provider, the signed part has at least 52 bytes,
  and the current time, modulo \<^verbatim>\<open>2^32\<close>, lies in the validity period that the signed part gives as
  big endian numbers at offsets 44 and 48, which must not be empty; the key, the magic and the
  numbers of the certificate are then those of the signed part.
\<close>

theorem certificate_accepted_iff:
  "certificate_new lib tnow pk s = Inr c \<longleftrightarrow>
     8 \<le> length s \<and> length s \<le> 65000 \<and> take 4 s = str_bytes ''DNSC'' \<and> s ! 4 = 0 \<and> s ! 5 \<in> {1, 2}
     \<and> (\<exists>m. sign_open lib (drop 8 s) pk = Some m \<and> 52 \<le> length m
         \<and> be_value (slice 44 4 m) < be_value (slice 48 4 m)
         \<and> int (be_value (slice 44 4 m)) \<le> tnow mod 2 ^ 32
         \<and> tnow mod 2 ^ 32 \<le> int (be_value (slice 48 4 m))
         \<and> c = \<lparr>c_version = load_version (take 8 s),
                c_data = \<lparr>server_publickey = take 32 m, cd_magic_query = slice 32 8 m,
                  cd_serial = slice 40 4 m, cd_ts_begin = slice 44 4 m, cd_ts_end = slice 48 4 m\<rparr>,
                raw_signed = s\<rparr>)"
proof -
  have v: "cert_parse_version (load_version (take 8 s)) \<longleftrightarrow>
      take 4 s = str_bytes ''DNSC'' \<and> s ! 4 = 0 \<and> s ! 5 \<in> {1, 2}" if "8 \<le> length s"
  proof -
    have "slice 4 2 (take 8 s) ! 0 = s ! 4" "slice 4 2 (take 8 s) ! 1 = s ! 5" "slice 0 4 (take 8 s) = take 4 s"
      using that by (simp_all add: nth_slice)
    then show ?thesis by (auto simp: cert_parse_version_def load_version_def cert_magic_cert_def)
  qed
  have sl: "slice i n (take 52 m) = slice i n m" if "i + n \<le> 52" for i n and m :: "byte list"
    using that by (simp add: slice_def drop_take min_def)
  have d: "load_certificate_data (take 52 m) = \<lparr>server_publickey = take 32 m, cd_magic_query = slice 32 8 m,
      cd_serial = slice 40 4 m, cd_ts_begin = slice 44 4 m, cd_ts_end = slice 48 4 m\<rparr>" for m :: "byte list"
    by (simp add: load_certificate_data_def sl)
  have t: "unat (fst (cert_ts (load_certificate_data (take 52 m)))) = be_value (slice 44 4 m)"
    "unat (snd (cert_ts (load_certificate_data (take 52 m)))) = be_value (slice 48 4 m)"
    if "52 \<le> length m" for m :: "byte list"
    using that by (simp_all add: d cert_ts_def unat_be_u32)
  have u: "unat (word_of_int tnow :: u32) = nat (tnow mod 2 ^ 32)" by (rule unat_word_of_int_u32)
  have w: "snd (cert_ts (load_certificate_data (take 52 m))) \<le> fst (cert_ts (load_certificate_data (take 52 m)))
        \<longleftrightarrow> be_value (slice 48 4 m) \<le> be_value (slice 44 4 m)"
    "(word_of_int tnow :: u32) < fst (cert_ts (load_certificate_data (take 52 m)))
        \<longleftrightarrow> tnow mod 2 ^ 32 < int (be_value (slice 44 4 m))"
    "snd (cert_ts (load_certificate_data (take 52 m))) < (word_of_int tnow :: u32)
        \<longleftrightarrow> int (be_value (slice 48 4 m)) < tnow mod 2 ^ 32"
    if "52 \<le> length m" for m :: "byte list"
    unfolding word_le_nat_alt word_less_nat_alt u t [OF that] by (simp_all add: nat_less_iff zless_nat_eq_int_zless)
  have "certificate_new lib tnow pk s = Inr c \<longleftrightarrow> 8 \<le> length s \<and> length s \<le> 65000
      \<and> cert_parse_version (load_version (take 8 s))
      \<and> (\<exists>m. sign_open lib (drop 8 s) pk = Some m \<and> 52 \<le> length m
         \<and> \<not> be_value (slice 48 4 m) \<le> be_value (slice 44 4 m)
         \<and> \<not> tnow mod 2 ^ 32 < int (be_value (slice 44 4 m))
         \<and> \<not> int (be_value (slice 48 4 m)) < tnow mod 2 ^ 32
         \<and> c = \<lparr>c_version = load_version (take 8 s), c_data = load_certificate_data (take 52 m),
                raw_signed = s\<rparr>)"
  proof (cases "sign_open lib (drop 8 s) pk")
    case (Some m)
    show ?thesis
      by (cases "52 \<le> length m") (auto simp: certificate_new_def Let_def Some w not_less)
  qed (simp add: certificate_new_def Let_def)
  then show ?thesis using v unfolding d by (auto simp: not_le not_less)
qed

end
