(* ===== verification/Csv.thy ===== *)
theory Csv
  imports Str
begin

text \<open>
  \<^verbatim>\<open>csv::parse_line\<close> (\<^verbatim>\<open>dns/crypt/srcz/csv.cpp\<close>): the columns of a line of a CSV file.  The vector of
  words is reused from line to line: its old elements are overwritten one by one.  The stream is the
  rest of the text; the flag of the result tells whether it is still good, that is whether the line
  ended with a newline.
\<close>

section \<open>Definitions\<close>

text \<open>\<^verbatim>\<open>cur_word\<close>: word \<open>i\<close> exists and is empty.\<close>

definition cur_word :: "string list \<Rightarrow> nat \<Rightarrow> string list" where
  "cur_word words i = (if i \<ge> length words then words @ [[]] else words[i := []])"

definition csv_separator :: char where "csv_separator = CHR '',''"
definition csv_quote :: char where "csv_quote = CHR 0x22"

fun csv_loop :: "string \<Rightarrow> string list \<Rightarrow> nat \<Rightarrow> bool \<Rightarrow> bool
    \<Rightarrow> (string list \<times> nat \<times> bool \<times> bool \<times> string \<times> bool) res" where
  "csv_loop [] words i quote_flag closing_quote_flag = Inr (words, i, quote_flag, closing_quote_flag, [], False)"
| "csv_loop (ch # s) words i quote_flag closing_quote_flag =
     (if ch = CHR 0x0A then Inr (words, i, quote_flag, closing_quote_flag, s, True)
      else if (ch \<noteq> csv_separator \<and> ch \<noteq> csv_quote \<and> ch \<noteq> CHR 0x0D) \<or> (ch = csv_separator \<and> quote_flag) then
        (if 32000 < length (words ! i) then Inl (Runtime_error ''Too long word in column'')
         else csv_loop s (words[i := words ! i @ [ch]]) i quote_flag closing_quote_flag)
      else if ch = csv_quote then
        (if quote_flag then csv_loop s (cur_word words (i + 1)) (i + 1) False True
         else if words ! i \<noteq> [] then Inl (Runtime_error ''CSV column has qutation mark after'')
         else csv_loop s words i True closing_quote_flag)
      else if ch = csv_separator then
        (if \<not> closing_quote_flag then csv_loop s (cur_word words (i + 1)) (i + 1) quote_flag closing_quote_flag
         else if words ! i \<noteq> [] then Inl (Runtime_error ''CSV column has text after closing quote'')
         else csv_loop s words i quote_flag False)
      else csv_loop s words i quote_flag closing_quote_flag)"

definition parse_line :: "string \<Rightarrow> string list \<Rightarrow> (string list \<times> string \<times> bool) res" where
  "parse_line text_stream words =
     ebind (csv_loop text_stream (cur_word words 0) 0 False False)
       (\<lambda>(words, i, quote_flag, closing_quote_flag, rest, good).
         if quote_flag then Inl (Runtime_error ''Unclosed quote in CSV column'')
         else
           let i = (if \<not> closing_quote_flag \<and> (0 < i \<or> words ! 0 \<noteq> []) then i + 1 else i)
           in Inr (take i words, rest, good))"

section \<open>Lines of plain and quoted columns\<close>

definition plain_char :: "char \<Rightarrow> bool" where
  "plain_char c \<longleftrightarrow> c \<noteq> csv_separator \<and> c \<noteq> csv_quote \<and> c \<noteq> CHR 0x0D \<and> c \<noteq> CHR 0x0A"

definition quoted_char :: "char \<Rightarrow> bool" where
  "quoted_char c \<longleftrightarrow> c \<noteq> csv_quote \<and> c \<noteq> CHR 0x0D \<and> c \<noteq> CHR 0x0A"

text \<open>A column is its text and whether it is written in quotation marks.\<close>

definition valid_column :: "bool \<times> string \<Rightarrow> bool" where
  "valid_column q \<longleftrightarrow> length (snd q) \<le> 32000
     \<and> list_all (if fst q then quoted_char else plain_char) (snd q)"

definition csv_column :: "bool \<times> string \<Rightarrow> string" where
  "csv_column q = (if fst q then [csv_quote] @ snd q @ [csv_quote] else snd q)"

fun csv_line :: "(bool \<times> string) list \<Rightarrow> string" where
  "csv_line [] = []"
| "csv_line [q] = csv_column q"
| "csv_line (q # q' # qs) = csv_column q @ [csv_separator] @ csv_line (q' # qs)"

lemma csv_chars [simp]: "csv_separator \<noteq> csv_quote" "csv_separator \<noteq> CHR 0x0A" "csv_quote \<noteq> CHR 0x0A"
  "csv_separator \<noteq> CHR 0x0D" "csv_quote \<noteq> CHR 0x0D" "csv_quote \<noteq> csv_separator"
  by (simp_all add: csv_separator_def csv_quote_def)

lemma csv_loop_plain:
  assumes "list_all plain_char f" "length w + length f \<le> 32000"
  shows "csv_loop (f @ s) (done_words @ w # junk) (length done_words) False cq
    = csv_loop s (done_words @ (w @ f) # junk) (length done_words) False cq"
  using assms
proof (induction f arbitrary: w)
  case (Cons c f)
  then show ?case using Cons.IH [of "w @ [c]"] by (simp add: plain_char_def)
qed simp

lemma csv_loop_quoted:
  assumes "list_all quoted_char f" "length w + length f \<le> 32000"
  shows "csv_loop (f @ s) (done_words @ w # junk) (length done_words) True cq
    = csv_loop s (done_words @ (w @ f) # junk) (length done_words) True cq"
  using assms
proof (induction f arbitrary: w)
  case (Cons c f)
  then show ?case using Cons.IH [of "w @ [c]"] by (auto simp: quoted_char_def)
qed simp

lemma cur_word_next: "\<exists>junk'. cur_word (done_words @ w # junk) (length done_words + 1) = (done_words @ [w]) @ [] # junk'"
  by (cases junk) (auto simp: cur_word_def nth_append list_update_append)

text \<open>
  After a column that was read into its word: for a plain one the word is the current one, for a
  quoted one the next word is.
\<close>

lemma csv_loop_column:
  assumes "valid_column q"
  obtains junk' where "csv_loop (csv_column q @ s) (done_words @ [] # junk) (length done_words) False False
    = (if fst q then csv_loop s ((done_words @ [snd q]) @ [] # junk') (length done_words + 1) False True
       else csv_loop s (done_words @ snd q # junk) (length done_words) False False)"
proof (cases "fst q")
  case True
  obtain junk' where j: "cur_word (done_words @ snd q # junk) (length done_words + 1) = (done_words @ [snd q]) @ [] # junk'"
    using cur_word_next by blast
  have "csv_loop (snd q @ [csv_quote] @ s) (done_words @ [] # junk) (length done_words) True False
      = csv_loop ([csv_quote] @ s) (done_words @ snd q # junk) (length done_words) True False"
    using csv_loop_quoted [of "snd q" "[]" "[csv_quote] @ s" done_words junk False] True assms
    by (simp add: valid_column_def)
  then show ?thesis
    using True j by (intro that [of junk']) (simp add: csv_column_def)
next
  case False
  then show ?thesis
    using csv_loop_plain [of "snd q" "[]" s done_words junk False] assms
    by (intro that) (simp add: csv_column_def valid_column_def)
qed

lemma csv_loop_line:
  assumes "list_all valid_column qs" "qs \<noteq> []"
  shows "\<exists>ws i cq. csv_loop (csv_line qs @ CHR 0x0A # s) (done_words @ [] # junk) (length done_words) False False
      = Inr (ws, i, False, cq, s, True) \<and> take (if cq then i else i + 1) ws = done_words @ map snd qs
      \<and> (if cq then i else i + 1) = length done_words + length qs
      \<and> (length done_words + length qs = 1 \<longrightarrow> \<not> cq \<longrightarrow> ws ! 0 = snd (hd qs))"
  using assms
proof (induction qs arbitrary: done_words junk rule: csv_line.induct)
  case (2 q)
  then have v: "valid_column q" by simp
  obtain junk' where c: "csv_loop (csv_column q @ CHR 0x0A # s) (done_words @ [] # junk) (length done_words) False False
    = (if fst q then csv_loop (CHR 0x0A # s) ((done_words @ [snd q]) @ [] # junk') (length done_words + 1) False True
       else csv_loop (CHR 0x0A # s) (done_words @ snd q # junk) (length done_words) False False)"
    by (rule csv_loop_column [OF v])
  then show ?case by (cases "fst q") (auto simp: nth_append)
next
  case (3 q q' qs)
  then have v: "valid_column q" "list_all valid_column (q' # qs)" by simp_all
  let ?s = "csv_line (q' # qs) @ CHR 0x0A # s"
  obtain junk' where c: "csv_loop (csv_column q @ [csv_separator] @ ?s) (done_words @ [] # junk) (length done_words) False False
    = (if fst q then csv_loop ([csv_separator] @ ?s) ((done_words @ [snd q]) @ [] # junk') (length done_words + 1) False True
       else csv_loop ([csv_separator] @ ?s) (done_words @ snd q # junk) (length done_words) False False)"
    by (rule csv_loop_column [OF v(1)])
  obtain junk2 where j: "cur_word (done_words @ snd q # junk) (length done_words + 1) = (done_words @ [snd q]) @ [] # junk2"
    using cur_word_next by blast
  have n: "((done_words @ [snd q]) @ [] # junk') ! (length done_words + 1) = []"
    by (simp add: nth_append)
  have "\<exists>junk3. csv_loop (csv_line (q # q' # qs) @ CHR 0x0A # s) (done_words @ [] # junk) (length done_words) False False
      = csv_loop ?s ((done_words @ [snd q]) @ [] # junk3) (length (done_words @ [snd q])) False False"
  proof -
    have "csv_line (q # q' # qs) @ CHR 0x0A # s = csv_column q @ [csv_separator] @ ?s" by simp
    moreover have "length (done_words @ [snd q]) = length done_words + 1" by simp
    ultimately show ?thesis using c j n by (cases "fst q") auto
  qed
  then show ?case using 3(1) [OF v(2), of "done_words @ [snd q]"] by fastforce
qed simp

section \<open>Properties\<close>

text \<open>
  \<^verbatim>\<open>parse_line\<close> reads back the columns of a CSV line: for every list of columns, each plain
  (without separator and quotation mark) or in quotation marks (and then with separators allowed),
  except for the line of a single empty plain column, the result is the list of their texts and the
  stream is behind the newline, whatever the reused vector of words held before.
\<close>

theorem parse_line_round_trip:
  assumes "list_all valid_column qs" "qs \<noteq> []" "qs \<noteq> [(False, [])]"
  shows "parse_line (csv_line qs @ CHR 0x0A # s) words = Inr (map snd qs, s, True)"
proof -
  obtain junk where j: "cur_word words 0 = [] # junk" by (cases words) (auto simp: cur_word_def)
  from csv_loop_line [OF assms(1,2), of s "[]" junk]
  obtain ws i cq where l: "csv_loop (csv_line qs @ CHR 0x0A # s) ([] # junk) 0 False False = Inr (ws, i, False, cq, s, True)"
    and t: "take (if cq then i else i + 1) ws = map snd qs" and n: "(if cq then i else i + 1) = length qs"
    and h: "length qs = 1 \<longrightarrow> \<not> cq \<longrightarrow> ws ! 0 = snd (hd qs)"
    unfolding append_Nil list.size add_0 by (elim exE conjE) (rule that)
  have e: "cq \<or> 0 < i \<or> ws ! 0 \<noteq> []"
  proof (rule ccontr)
    assume a: "\<not> (cq \<or> 0 < i \<or> ws ! 0 \<noteq> [])"
    then have "length qs = 1" "snd (hd qs) = []" using n h by auto
    then obtain q where q: "qs = [(q, [])]" by (cases qs) (auto simp: prod_eq_iff)
    then have "q" using assms(3) by (cases q) simp_all
    then have "cq" using l q by (simp add: csv_column_def cur_word_def)
    then show False using a by simp
  qed
  have "(if \<not> cq \<and> (0 < i \<or> ws ! 0 \<noteq> []) then i + 1 else i) = (if cq then i else i + 1)"
    using e by auto
  then show ?thesis
    unfolding parse_line_def j l ebind_simps split_conv Let_def using t by simp
qed

theorem parse_line_round_trip_witness:
  "parse_line (''a,'' @ [CHR 0x22] @ ''b,c'' @ [CHR 0x22, CHR 0x0A] @ ''d'') [''old'', ''x'', ''y'']
     = Inr ([''a'', ''b,c''], ''d'', True)"
  using parse_line_round_trip [of "[(False, ''a''), (True, ''b,c'')]" "''d''" "[''old'', ''x'', ''y'']"]
  by (simp add: valid_column_def csv_column_def plain_char_def quoted_char_def csv_separator_def csv_quote_def)

text \<open>
  Text behind a closing quotation mark is an error if another column follows, but it is silently
  lost at the end of a line.
\<close>

lemma parse_line_loses_text_after_quote:
  "parse_line ([CHR 0x22] @ ''a'' @ [CHR 0x22] @ ''bc'' @ [CHR 0x0A]) [] = Inr ([''a''], [], True)
   \<and> parse_line ([CHR 0x22] @ ''a'' @ [CHR 0x22] @ ''bc,d'' @ [CHR 0x0A]) []
      = Inl (Runtime_error ''CSV column has text after closing quote'')"
  by (simp add: parse_line_def cur_word_def csv_separator_def csv_quote_def)

end
