(* ===== verification/Resolver.thy ===== *)
theory Resolver
  imports Encryptor Csv Address
begin

text \<open>
  \<^verbatim>\<open>dns::crypt::resolver\<close> (\<^verbatim>\<open>dns/crypt/resolver.hxx\<close>, \<^verbatim>\<open>dns/crypt/srcz/resolver.cpp\<close>): a DNSCrypt server, the
  list of servers in a CSV file, and the encryption of the messages that are exchanged with it.
\<close>

section \<open>Definitions\<close>

record resolver =
  rs_address :: address
  rs_proto :: proto
  rs_pubkey :: "byte list"
  rs_resolver_pubkey :: "byte list"
  rs_name :: string
  rs_host_name :: string
  rs_dnssec :: bool
  rs_namecoin :: bool
  rs_logging :: bool
  rs_ready :: bool
  rs_magic_query :: "byte list"
  rs_encryptor :: encryptor_data

definition crypt_default_port :: u16 where "crypt_default_port = 443"
definition csv_max_columns :: nat where "csv_max_columns = 50"

text \<open>
  The constructors.  The encryptor has ephemeral keys; \<open>rnd\<close> are the random bytes of its nonce pad and
  secret key.  The magic of the resolver itself is not initialised and not used.
\<close>

definition resolver_new :: "byte list \<times> byte list \<Rightarrow> string \<Rightarrow> string \<Rightarrow> byte list \<Rightarrow> address \<Rightarrow> proto
    \<Rightarrow> bool \<Rightarrow> bool \<Rightarrow> bool \<Rightarrow> resolver" where
  "resolver_new rnd nm hn ks a t dnssec namecoin logg =
     \<lparr>rs_address = a, rs_proto = t, rs_pubkey = ks, rs_resolver_pubkey = replicate 32 0, rs_name = nm,
      rs_host_name = hn, rs_dnssec = dnssec, rs_namecoin = namecoin, rs_logging = logg, rs_ready = False,
      rs_magic_query = replicate 8 0, rs_encryptor = encryptor_new True (fst rnd) (snd rnd) ([], [])\<rparr>"

definition resolver_dummy :: "byte list \<times> byte list \<Rightarrow> string \<Rightarrow> address \<Rightarrow> byte list \<Rightarrow> proto \<Rightarrow> resolver" where
  "resolver_dummy rnd hn a pubkey t = resolver_new rnd ''_dummy_'' hn pubkey a t False False False"

text \<open>\<^verbatim>\<open>find_col\<close>: the index of the column, if the header has it and the line reaches it.\<close>

fun find_col_loop :: "string list \<Rightarrow> nat \<Rightarrow> string list \<Rightarrow> string \<Rightarrow> nat option" where
  "find_col_loop [] i cols name = None"
| "find_col_loop (h # headers) i cols name =
     (if name = h then (if i < length cols then Some i else None)
      else find_col_loop headers (i + 1) cols name)"

definition find_col :: "string list \<Rightarrow> string list \<Rightarrow> string \<Rightarrow> nat option" where
  "find_col headers cols name = find_col_loop headers 0 cols name"

definition col_is :: "string list \<Rightarrow> nat option \<Rightarrow> string \<Rightarrow> bool" where
  "col_is cols i value =
     (case i of None \<Rightarrow> False | Some i \<Rightarrow> i < length cols \<and> ascii_strcasecmp (c_str (cols ! i)) value = Some 0)"

definition parse_resolver :: "sodium \<Rightarrow> inet_lib \<Rightarrow> byte list \<times> byte list \<Rightarrow> string list \<Rightarrow> string list
    \<Rightarrow> proto \<Rightarrow> resolver res" where
  "parse_resolver lib net rnd headers cols defp =
     (case find_col headers cols ''Provider name'' of
        None \<Rightarrow> Inl (Runtime_error ''Resolvers list is missing a provider name'')
      | Some provider_name_i \<Rightarrow>
          if cols ! provider_name_i = [] then Inl (Runtime_error ''Resolvers list is missing a provider name'')
          else
            let resolver_name_i = (case find_col headers cols ''Name'' of None \<Rightarrow> provider_name_i | Some i \<Rightarrow> i) in
            case find_col headers cols ''Provider public key'' of
              None \<Rightarrow> Inl (Runtime_error ''Public key is missing for'')
            | Some key_i \<Rightarrow>
                if cols ! key_i = [] then Inl (Runtime_error ''Public key is missing for'')
                else case find_col headers cols ''Resolver address'' of
                    None \<Rightarrow> Inl (Runtime_error ''Resolver address is missing for'')
                  | Some ip_i \<Rightarrow>
                      if cols ! ip_i = [] then Inl (Runtime_error ''Resolver address is missing for'')
                      else
                        let dnssec_i = find_col headers cols ''DNSSEC validation'';
                            dnssecb = (dnssec_i = None \<or> col_is cols dnssec_i ''yes'');
                            namecoinb = col_is cols (find_col headers cols ''Namecoin'') ''yes'';
                            loggb = col_is cols (find_col headers cols ''No logs'') ''no''
                        in
                        ebind (pubkey_of_string lib (cols ! key_i)) (\<lambda>key.
                        ebind (address_of_string net (cols ! ip_i) crypt_default_port) (\<lambda>a.
                          Inr (resolver_new rnd (cols ! resolver_name_i) (cols ! provider_name_i) key a defp
                            dnssecb namecoinb loggb))))"

text \<open>
  The lines of the list behind the headers.  The loop ends when the stream is not good, that is
  after the line that has no newline at its end; \<open>rnds\<close> supplies the random bytes of the resolvers.
\<close>

lemma csv_loop_shorter:
  "csv_loop s words i q c = Inr (ws, j, q', c', rest, good) \<Longrightarrow> good \<Longrightarrow> length rest < length s"
  by (induction s words i q c rule: csv_loop.induct) (auto split: if_splits simp: less_Suc_eq)

lemma parse_line_shorter: "parse_line s words = Inr (cols, rest, True) \<Longrightarrow> length rest < length s"
  by (auto simp: parse_line_def Let_def split: if_splits dest: csv_loop_shorter)

function resolvers_loop :: "sodium \<Rightarrow> inet_lib \<Rightarrow> string list \<Rightarrow> proto \<Rightarrow> string \<Rightarrow> string list
    \<Rightarrow> (byte list \<times> byte list) list \<Rightarrow> resolver list \<Rightarrow> resolver list res" where
  "resolvers_loop lib net headers defp txt cols rnds resolvers =
     (case parse_line txt cols of
        Inl e \<Rightarrow> Inl e
      | Inr (cols, rest, good) \<Rightarrow>
          ebind
            (if 0 < length cols then
               (if length cols \<noteq> length headers then Inl (Runtime_error ''CSV line, columns'')
                else ebind (parse_resolver lib net (case rnds of [] \<Rightarrow> ([], []) | r # _ \<Rightarrow> r) headers cols defp)
                       (\<lambda>r. Inr (resolvers @ [r])))
             else Inr resolvers)
            (\<lambda>resolvers.
              if good then resolvers_loop lib net headers defp rest cols
                (if 0 < length cols then tl rnds else rnds) resolvers
              else Inr resolvers))"
  by pat_completeness auto
termination
  by (relation "measure (\<lambda>(lib, net, headers, defp, txt, cols, rnds, resolvers). length txt)")
    (auto dest: parse_line_shorter)

declare resolvers_loop.simps [simp del]

definition parse_resolvers_list :: "sodium \<Rightarrow> inet_lib \<Rightarrow> (byte list \<times> byte list) list \<Rightarrow> string option
    \<Rightarrow> proto \<Rightarrow> resolver list res" where
  "parse_resolvers_list lib net rnds file defproto =
     (case file of
        None \<Rightarrow> Inl (Runtime_error ''Failed to read resolvers from'')
      | Some txt \<Rightarrow>
          ebind (parse_line txt []) (\<lambda>(headers, rest, good).
            if length headers < 3 \<or> length headers > csv_max_columns
            then Inl (Runtime_error ''Invalid number of columns in the CSV resolver file'')
            else resolvers_loop lib net headers defproto (if good then rest else []) [] rnds []))"

text \<open>The text that \<^verbatim>\<open>save_resolvers\<close> writes.\<close>

definition resolver_line :: "inet_lib \<Rightarrow> resolver \<Rightarrow> string res" where
  "resolver_line net r =
     ebind (fingerprint (rs_pubkey r)) (\<lambda>key.
       Inr (print_address net (rs_address r) @ '','' @ rs_host_name r @ '','' @ key @ [CHR 0x0A]))"

fun resolver_lines :: "inet_lib \<Rightarrow> resolver list \<Rightarrow> string res" where
  "resolver_lines net [] = Inr []"
| "resolver_lines net (r # rs) =
     ebind (resolver_line net r) (\<lambda>l. ebind (resolver_lines net rs) (\<lambda>ls. Inr (l @ ls)))"

definition save_resolvers :: "inet_lib \<Rightarrow> resolver list \<Rightarrow> string res" where
  "save_resolvers net rs =
     ebind (resolver_lines net rs) (\<lambda>ls.
       Inr (''Resolver address,Provider name,Provider public key'' @ [CHR 0x0A] @ ls))"

subsection \<open>Messages\<close>

text \<open>\<^verbatim>\<open>dns::crypt::message\<close>: a query with the nonce of its session.\<close>

record crypt_message =
  cm_packet :: packet
  cm_session_nonce :: "byte list"

text \<open>The session nonce of a new message is not initialised; it is set before it is read.\<close>

definition adapt_message :: "packet \<Rightarrow> crypt_message" where
  "adapt_message other =
     \<lparr>cm_packet = query_of_bytes (content other), cm_session_nonce = replicate 12 0\<rparr>"

definition fold_message :: "sodium \<Rightarrow> crypt_env \<Rightarrow> resolver \<Rightarrow> crypt_message \<Rightarrow> crypt_message res" where
  "fold_message lib ce r msg =
     ebind (curve lib ce (rs_encryptor r) (cm_packet msg)) (\<lambda>(nonce, q).
       Inr (msg\<lparr>cm_packet := q, cm_session_nonce := nonce\<rparr>))"

definition unfold_message :: "sodium \<Rightarrow> resolver \<Rightarrow> crypt_message \<Rightarrow> crypt_message res" where
  "unfold_message lib r msg =
     ebind (uncurve lib (rs_encryptor r) (cm_session_nonce msg) (cm_packet msg)) (\<lambda>q.
       Inr (msg\<lparr>cm_packet := q, cm_session_nonce := replicate 12 0\<rparr>))"

section \<open>The saved list\<close>

definition list_headers :: "string list" where
  "list_headers = [''Resolver address'', ''Provider name'', ''Provider public key'']"

lemma find_col_list:
  assumes "length cols = 3"
  shows "find_col list_headers cols ''Provider name'' = Some 1" "find_col list_headers cols ''Name'' = None"
    "find_col list_headers cols ''Provider public key'' = Some 2"
    "find_col list_headers cols ''Resolver address'' = Some 0"
    "find_col list_headers cols ''DNSSEC validation'' = None" "find_col list_headers cols ''Namecoin'' = None"
    "find_col list_headers cols ''No logs'' = None"
  using assms by (simp_all add: find_col_def list_headers_def)

lemma plain_hex_char:
  assumes "d < 16"
  shows "plain_char (hex_char d)"
proof -
  have "48 \<le> char_code (hex_char d)" using assms by (simp add: hex_char_def)
  then show ?thesis by (auto simp: plain_char_def csv_separator_def csv_quote_def)
qed

lemma plain_colon: "plain_char CHR '':''"
  by (simp add: plain_char_def csv_separator_def csv_quote_def)

lemma plain_hex_byte: "list_all plain_char (hex_byte b)"
proof -
  have "unat b div 16 < 16" using unat_byte_less [of b] by (simp add: less_mult_imp_div_less)
  then show ?thesis by (simp add: hex_byte_def plain_hex_char)
qed

lemma plain_hex_pairs: "list_all plain_char (hex_pairs bs)"
  by (induction bs rule: hex_pairs.induct) (simp_all add: plain_hex_byte plain_colon)

lemma length_hex_pairs_le: "length (hex_pairs bs) \<le> 3 * length bs"
  by (induction bs rule: hex_pairs.induct) (simp_all add: hex_byte_def)

text \<open>
  What a resolver of the list needs for its line to be readable: the text of its address is what
  the system functions convert back, and the name of the host is plain.
\<close>

definition listable :: "inet_lib \<Rightarrow> resolver \<Rightarrow> bool" where
  "listable net r \<longleftrightarrow>
     (let a = rs_address r; t = inet_ntop net (a_inet a) (a_ip a) in
      inet_pton net (a_inet a) t = Some (a_ip a) \<and> t \<noteq> [] \<and> NUL \<notin> set t \<and> list_all plain_char t
      \<and> length t \<le> 128 \<and> (a_inet a = ipv4 \<longrightarrow> CHR '':'' \<notin> set t \<and> CHR ''['' \<notin> set t)
      \<and> (a_inet a = ipv6 \<longrightarrow> CHR '']'' \<notin> set t))
     \<and> length (rs_pubkey r) = 32 \<and> rs_host_name r \<noteq> [] \<and> list_all plain_char (rs_host_name r)
     \<and> length (rs_host_name r) \<le> 32000"

lemma length_show_nat: "n < 65536 \<Longrightarrow> length (show_nat n) \<le> 5"
  by (simp add: show_nat.simps)

lemma plain_digit: "is_digit c \<Longrightarrow> plain_char c"
  by (auto simp: plain_char_def is_digit_def csv_separator_def csv_quote_def)

lemma plain_print_address:
  assumes "listable net r"
  shows "valid_column (False, print_address net (rs_address r))" "print_address net (rs_address r) \<noteq> []"
proof -
  let ?p = "unat (a_port (rs_address r))"
  have p: "list_all plain_char (show_nat ?p)"
    using show_nat_digits [of ?p] by (auto simp: list_all_iff plain_digit)
  have "?p < 65536" using unsigned_less [of "a_port (rs_address r)", where ?'a = nat] by simp
  note l = length_show_nat [OF this]
  have c: "plain_char CHR '':''" "plain_char CHR ''[''" "plain_char CHR '']''"
    using plain_colon by (simp_all add: plain_char_def csv_separator_def csv_quote_def)
  show "valid_column (False, print_address net (rs_address r))"
    using assms p l c by (cases "a_inet (rs_address r)")
      (simp_all add: valid_column_def print_address_def listable_def Let_def)
  show "print_address net (rs_address r) \<noteq> []" by (simp add: print_address_def)
qed

lemma resolver_line_columns:
  assumes "listable net r"
  shows "resolver_line net r = Inr (csv_line [(False, print_address net (rs_address r)),
    (False, rs_host_name r), (False, hex_pairs (rs_pubkey r))] @ [CHR 0x0A])"
  using assms bin2hex_pairs [of "rs_pubkey r" 0]
  by (simp add: resolver_line_def fingerprint_def bytes_to_hex_def listable_def csv_column_def csv_separator_def)

lemma parse_resolver_line:
  assumes "hex_law lib" "listable net r"
  shows "parse_resolver lib net rnd list_headers
      [print_address net (rs_address r), rs_host_name r, hex_pairs (rs_pubkey r)] defp
    = Inr (resolver_new rnd (rs_host_name r) (rs_host_name r) (rs_pubkey r) (rs_address r) defp True False False)"
proof -
  have k: "pubkey_of_string lib (hex_pairs (rs_pubkey r)) = Inr (rs_pubkey r)" "hex_pairs (rs_pubkey r) \<noteq> []"
    using hex_round_trip [OF assms(1), of "rs_pubkey r"] length_hex_pairs [of "rs_pubkey r"] assms(2)
    by (auto simp: listable_def)
  have a: "address_of_string net (print_address net (rs_address r)) crypt_default_port = Inr (rs_address r)"
    unfolding print_address_eq by (rule address_of_ip_port) (use assms(2) in \<open>auto simp: listable_def Let_def\<close>)
  show ?thesis
    using k a plain_print_address(2) [OF assms(2)] assms(2)
    by (simp add: parse_resolver_def find_col_list listable_def Let_def col_is_def)
qed

lemma length_list_headers [simp]: "length list_headers = 3"
  by (simp add: list_headers_def)

lemma resolvers_loop_lines:
  assumes "hex_law lib" "list_all (listable net) rs" "resolver_lines net rs = Inr inp"
  shows "\<exists>rs'. resolvers_loop lib net list_headers defp inp cols rnds acc = Inr (acc @ rs')
    \<and> list_all2 (\<lambda>r r'. \<exists>rnd. r' = resolver_new rnd (rs_host_name r) (rs_host_name r) (rs_pubkey r)
        (rs_address r) defp True False False) rs rs'"
  using assms(2,3)
proof (induction rs arbitrary: inp cols rnds acc)
  case Nil
  then show ?case
    by (subst resolvers_loop.simps) (auto simp: parse_line_def cur_word_def split: list.split)
next
  case (Cons r rs)
  let ?q = "[(False, print_address net (rs_address r)), (False, rs_host_name r), (False, hex_pairs (rs_pubkey r))]"
  from Cons.prems obtain ls where ls: "resolver_lines net rs = Inr ls" "inp = csv_line ?q @ CHR 0x0A # ls"
    by (auto simp: resolver_line_columns)
  have "list_all valid_column ?q"
    using Cons.prems plain_print_address [of net r] plain_hex_pairs length_hex_pairs_le [of "rs_pubkey r"]
    by (auto simp: valid_column_def listable_def)
  then have p: "parse_line inp cols = Inr (map snd ?q, ls, True)"
    unfolding ls by (rule parse_line_round_trip) simp_all
  let ?rnd = "case rnds of [] \<Rightarrow> ([], []) | r # _ \<Rightarrow> r"
  let ?r = "resolver_new ?rnd (rs_host_name r) (rs_host_name r) (rs_pubkey r) (rs_address r) defp True False False"
  have "resolvers_loop lib net list_headers defp inp cols rnds acc
      = resolvers_loop lib net list_headers defp ls (map snd ?q) (tl rnds) (acc @ [?r])"
    using p parse_resolver_line [OF assms(1), of net r ?rnd defp] Cons.prems
    by (subst resolvers_loop.simps) simp
  moreover obtain rs' where "resolvers_loop lib net list_headers defp ls (map snd ?q) (tl rnds) (acc @ [?r])
      = Inr ((acc @ [?r]) @ rs')"
    "list_all2 (\<lambda>r r'. \<exists>rnd. r' = resolver_new rnd (rs_host_name r) (rs_host_name r) (rs_pubkey r)
        (rs_address r) defp True False False) rs rs'"
    using Cons.IH [OF _ ls(1)] Cons.prems by fastforce
  ultimately show ?case by (intro exI [of _ "?r # rs'"]) (auto simp del: split_paired_Ex)
qed

lemma resolver_lines_total: "list_all (listable net) rs \<Longrightarrow> \<exists>txt. resolver_lines net rs = Inr txt"
  by (induction rs) (auto simp: resolver_line_columns)

lemma save_resolvers_result:
  assumes "hex_law lib" "list_all (listable net) rs"
  shows "\<exists>txt rs'. save_resolvers net rs = Inr txt
    \<and> parse_resolvers_list lib net rnds (Some txt) defp = Inr rs'
    \<and> list_all2 (\<lambda>r r'. rs_address r' = rs_address r \<and> rs_host_name r' = rs_host_name r
        \<and> rs_pubkey r' = rs_pubkey r \<and> rs_proto r' = defp \<and> \<not> rs_ready r' \<and> rs_dnssec r'
        \<and> ephemeral_keys (rs_encryptor r')) rs rs'"
proof -
  obtain ls where ls: "resolver_lines net rs = Inr ls" using resolver_lines_total [OF assms(2)] by blast
  let ?q = "map (Pair False) list_headers"
  let ?txt = "csv_line ?q @ CHR 0x0A # ls"
  have s: "save_resolvers net rs = Inr ?txt"
    by (simp add: save_resolvers_def ls list_headers_def csv_column_def csv_separator_def)
  have h: "parse_line ?txt [] = Inr (list_headers, ls, True)"
    using parse_line_round_trip [of ?q ls "[]"]
    by (simp add: list_headers_def valid_column_def plain_char_def csv_separator_def csv_quote_def)
  obtain rs' where r: "resolvers_loop lib net list_headers defp ls [] rnds [] = Inr rs'"
    "list_all2 (\<lambda>r r'. \<exists>rnd. r' = resolver_new rnd (rs_host_name r) (rs_host_name r) (rs_pubkey r)
        (rs_address r) defp True False False) rs rs'"
    using resolvers_loop_lines [OF assms ls, of defp "[]" rnds "[]"] by auto
  have "parse_resolvers_list lib net rnds (Some ?txt) defp = Inr rs'"
    by (simp add: parse_resolvers_list_def h r(1) csv_max_columns_def del: csv_line.simps ebind_eq_Inr_iff)
  moreover have "list_all2 (\<lambda>r r'. rs_address r' = rs_address r \<and> rs_host_name r' = rs_host_name r
        \<and> rs_pubkey r' = rs_pubkey r \<and> rs_proto r' = defp \<and> \<not> rs_ready r' \<and> rs_dnssec r'
        \<and> ephemeral_keys (rs_encryptor r')) rs rs'"
    by (rule list_all2_mono [OF r(2)]) (auto simp: resolver_new_def encryptor_new_def)
  ultimately show ?thesis using s by blast
qed

section \<open>Properties\<close>

text \<open>
  C31. The list of resolvers survives being saved and loaded: reading the file that
  \<^verbatim>\<open>save_resolvers\<close> writes gives, in the same order, resolvers with the same addresses, host names
  and public keys; they are not ready, have ephemeral keys, use the protocol of the configuration,
  and count as validating, because the column is missing.
\<close>

theorem save_resolvers_round_trip:
  assumes "hex_law lib" "list_all (listable net) rs"
  shows "\<exists>txt rs'. save_resolvers net rs = Inr txt
    \<and> parse_resolvers_list lib net rnds (Some txt) defp = Inr rs'
    \<and> list_all2 (\<lambda>r r'. rs_address r' = rs_address r \<and> rs_host_name r' = rs_host_name r
        \<and> rs_pubkey r' = rs_pubkey r \<and> rs_proto r' = defp \<and> \<not> rs_ready r' \<and> rs_dnssec r'
        \<and> ephemeral_keys (rs_encryptor r')) rs rs'"
  by (rule save_resolvers_result [OF assms])

definition sample_net :: inet_lib where
  "sample_net = \<lparr>inet_pton = (\<lambda>af t. if af = ipv4 \<and> t = ''127.0.0.1'' then Some [127, 0, 0, 1] else None),
     inet_ntop = (\<lambda>af b. ''127.0.0.1'')\<rparr>"

definition sample_resolver :: resolver where
  "sample_resolver = resolver_dummy (replicate 12 2, replicate 32 3) ''2.dnscrypt-cert.example.org''
     \<lparr>a_inet = ipv4, a_ip = [127, 0, 0, 1], a_port = 443\<rparr> (replicate 32 0xAB) udp"

lemma sample_resolver_listable: "listable sample_net sample_resolver"
  by (simp add: listable_def sample_net_def sample_resolver_def resolver_dummy_def resolver_new_def NUL_def
      plain_char_def csv_separator_def csv_quote_def)

theorem save_resolvers_round_trip_witness:
  "\<exists>txt rs'. save_resolvers sample_net [sample_resolver] = Inr txt
    \<and> parse_resolvers_list plain_box sample_net [] (Some txt) tcp = Inr rs'
    \<and> list_all2 (\<lambda>r r'. rs_address r' = rs_address r \<and> rs_host_name r' = rs_host_name r
        \<and> rs_pubkey r' = rs_pubkey r \<and> rs_proto r' = tcp \<and> \<not> rs_ready r' \<and> rs_dnssec r'
        \<and> ephemeral_keys (rs_encryptor r')) [sample_resolver] rs'"
  by (rule save_resolvers_round_trip) (simp_all add: plain_box_hex_law sample_resolver_listable)

end
