(* ===== verification/Certifier.thy ===== *)
theory Certifier
  imports Certificate Resolver Responder
begin

text \<open>
  \<^verbatim>\<open>dns::crypt::certifier\<close> (\<^verbatim>\<open>dns/crypt/certifier.hxx\<close>, \<^verbatim>\<open>dns/crypt/srcz/certifier.cpp\<close>): asks a DNSCrypt
  server for its certificates, chooses one and repeats this on a timer.

  The timer of libev is the record \<open>timer\<close>: whether it runs, whether it has expired while its callback
  was not called yet, and its period in seconds.  \<^verbatim>\<open>set\<close> of a timer that runs restarts it.  A
  construction of an upstream request that throws is the argument \<open>connect\<close>, with the exception; the
  random numbers and the time are arguments.  A function that may throw after it has changed its object
  returns the result and the object.
\<close>

section \<open>Definitions\<close>

subsection \<open>Choosing a certificate\<close>

text \<open>The loop over the texts: a certificate that is not valid is skipped.\<close>

fun best_certificate :: "sodium \<Rightarrow> int \<Rightarrow> byte list \<Rightarrow> byte list list \<Rightarrow> certificate option \<Rightarrow> certificate option" where
  "best_certificate lib tnow pk [] cert = cert"
| "best_certificate lib tnow pk (t # trv) cert =
     best_certificate lib tnow pk trv
       (case certificate_new lib tnow pk t of
          Inl _ \<Rightarrow> cert
        | Inr ci \<Rightarrow>
            (case cert of
               None \<Rightarrow> Some ci
             | Some c \<Rightarrow> if is_preferred_over ci c then Some ci else Some c))"

definition find_valid_certificate :: "sodium \<Rightarrow> int \<Rightarrow> byte list list \<Rightarrow> resolver \<Rightarrow> bool res \<times> resolver" where
  "find_valid_certificate lib tnow trv r0 =
     (let r = r0\<lparr>rs_ready := False\<rparr> in
      case best_certificate lib tnow (rs_pubkey r) trv None of
        None \<Rightarrow> (Inr False, r)
      | Some cert \<Rightarrow>
          if cert_cipher cert = cipher_undefined then (Inr False, r)
          else
            let key = server_publickey (c_data cert); magic = cd_magic_query (c_data cert);
                enc = set_magic_query magic (cert_cipher cert) (rs_encryptor r);
                (ok, enc') = set_resolver_publickey lib key enc;
                r = r\<lparr>rs_resolver_pubkey := key, rs_magic_query := magic, rs_encryptor := enc'\<rparr>
            in if \<not> ok then (Inl (Runtime_error ''Suspicious public key''), r)
               else (Inr True, r\<lparr>rs_ready := True\<rparr>))"

subsection \<open>The timer and the requests\<close>

record timer =
  tm_active :: bool
  tm_pending :: bool
  tm_repeat :: nat

record certifier =
  cf_timer :: timer
  cf_retry_step :: u32
  cf_resolver :: resolver
  cf_tcp_only :: proto
  cf_upstream :: "upstream_req option"
  cf_attempts :: nat

definition retry_min_delay :: u32 where "retry_min_delay = 17"
definition retry_max_delay :: u32 where "retry_max_delay = 5 * 60"
definition retry_steps :: u32 where "retry_steps = 100"
definition delay_after_success_min_delay :: nat where "delay_after_success_min_delay = 60 * 60"
definition delay_after_success_jitter :: nat where "delay_after_success_jitter = 100"

definition reschedule_query :: "nat \<Rightarrow> certifier \<Rightarrow> certifier" where
  "reschedule_query delay c =
     (if tm_pending (cf_timer c) then c else c\<lparr>cf_timer := (cf_timer c)\<lparr>tm_repeat := delay\<rparr>\<rparr>)"

definition reschedule_query_after_failure :: "certifier \<Rightarrow> certifier" where
  "reschedule_query_after_failure c =
     (if tm_pending (cf_timer c) then c
      else
        let delay = retry_min_delay + cf_retry_step c * (retry_max_delay - retry_min_delay) div retry_steps;
            c = (if cf_retry_step c < retry_steps then c\<lparr>cf_retry_step := cf_retry_step c + 1\<rparr> else c)
        in reschedule_query (unat delay) c)"

text \<open>The argument \<open>u\<close> is what \<^verbatim>\<open>randombytes_uniform\<close> returns.\<close>

definition reschedule_query_after_success :: "nat \<Rightarrow> certifier \<Rightarrow> certifier" where
  "reschedule_query_after_success u c =
     (if tm_pending (cf_timer c) then c else reschedule_query (delay_after_success_min_delay + u) c)"

definition process_response :: "sodium \<Rightarrow> int \<Rightarrow> nat \<Rightarrow> packet \<Rightarrow> certifier \<Rightarrow> unit res \<times> certifier" where
  "process_response lib tnow u q c =
     (case ebind (host_type_info q) (\<lambda>_. get_txt_answer q) of
        Inl e \<Rightarrow> (Inl e, c)
      | Inr txt_data \<Rightarrow>
          let (res, provider) = find_valid_certificate lib tnow txt_data (cf_resolver c);
              c = c\<lparr>cf_resolver := provider\<rparr>
          in case res of
               Inl e \<Rightarrow> (Inl e, c)
             | Inr True \<Rightarrow>
                 (Inr (), (reschedule_query_after_success u (c\<lparr>cf_retry_step := 0\<rparr>))\<lparr>cf_upstream := None\<rparr>)
             | Inr False \<Rightarrow> (Inr (), (reschedule_query_after_failure c)\<lparr>cf_upstream := None\<rparr>))"

definition certifier_stop :: "certifier \<Rightarrow> certifier" where
  "certifier_stop c = c\<lparr>cf_timer := (cf_timer c)\<lparr>tm_active := False, tm_pending := False\<rparr>\<rparr>"

text \<open>The handlers of \<^verbatim>\<open>update\<close>; \<^verbatim>\<open>network::error\<close> is a \<^verbatim>\<open>std::runtime_error\<close>.\<close>

fun is_runtime_error :: "exn \<Rightarrow> bool" where
  "is_runtime_error (Runtime_error m) \<longleftrightarrow> True"
| "is_runtime_error (Net_error m) \<longleftrightarrow> True"
| "is_runtime_error _ \<longleftrightarrow> False"

definition update_failed :: "exn \<Rightarrow> certifier \<Rightarrow> unit res \<times> certifier" where
  "update_failed e c =
     (if is_runtime_error e then (Inr (), reschedule_query_after_failure (c\<lparr>cf_upstream := None\<rparr>))
      else (Inl e, c))"

definition upstream_active :: "certifier \<Rightarrow> bool" where
  "upstream_active c = (case cf_upstream c of None \<Rightarrow> False | Some u \<Rightarrow> ur_active u)"

definition certifier_update :: "nat \<Rightarrow> exn option \<Rightarrow> certifier \<Rightarrow> unit res \<times> certifier" where
  "certifier_update rnd connect c =
     (if upstream_active c then (Inr (), c)
      else if 4 < cf_attempts c then (Inr (), certifier_stop (c\<lparr>cf_upstream := None\<rparr>))
      else case query_new_txt rnd (rs_host_name (cf_resolver c)) True of
          Inl e \<Rightarrow> update_failed e c
        | Inr q \<Rightarrow>
            let c = c\<lparr>cf_upstream := None\<rparr> in
            (case connect of
               Some e \<Rightarrow> update_failed e c
             | None \<Rightarrow> (Inr (), c\<lparr>cf_upstream := Some \<lparr>ur_message = q, ur_active = True\<rparr>,
                              cf_attempts := cf_attempts c + 1\<rparr>)))"

text \<open>The callback of the timer catches every exception.\<close>

definition retry_timer_callback :: "nat \<Rightarrow> exn option \<Rightarrow> certifier \<Rightarrow> unit res \<times> certifier" where
  "retry_timer_callback rnd connect c =
     (case certifier_update rnd connect c of
        (Inl Undefined_behaviour, c) \<Rightarrow> (Inl Undefined_behaviour, c)
      | (_, c) \<Rightarrow> (Inr (), c))"

definition certifier_new :: "resolver \<Rightarrow> proto \<Rightarrow> certifier" where
  "certifier_new r tcponly =
     \<lparr>cf_timer = \<lparr>tm_active = True, tm_pending = False, tm_repeat = unat retry_min_delay\<rparr>,
      cf_retry_step = 0, cf_resolver = r, cf_tcp_only = tcponly, cf_upstream = None, cf_attempts = 0\<rparr>"

fun exn_what :: "exn \<Rightarrow> string" where
  "exn_what (Runtime_error m) = m"
| "exn_what (Logic_error m) = m"
| "exn_what (Net_error m) = m"
| "exn_what Bad_cast = ''std::bad_cast''"
| "exn_what Undefined_behaviour = []"

definition certifier_start :: "nat \<Rightarrow> exn option \<Rightarrow> certifier \<Rightarrow> string res \<times> certifier" where
  "certifier_start rnd connect c =
     (case certifier_update rnd connect c of
        (Inr _, c) \<Rightarrow> (Inr [], c)
      | (Inl e, c) \<Rightarrow> (if is_runtime_error e then Inr (exn_what e) else Inl e, c))"

subsection \<open>Runs\<close>

text \<open>
  What can happen to a certifier: it is started, its timer expires, the callback of the timer is
  called, the upstream request receives a response, which closes the request before the response is
  passed on, or the request ends with a failure, or it is stopped.
\<close>

inductive certifier_run :: "sodium \<Rightarrow> certifier \<Rightarrow> certifier \<Rightarrow> bool" for lib where
  initial: "certifier_run lib c c"
| starts: "certifier_run lib c0 c \<Longrightarrow> certifier_start rnd connect c = (res, c') \<Longrightarrow> certifier_run lib c0 c'"
| expires: "certifier_run lib c0 c \<Longrightarrow> tm_active (cf_timer c) \<Longrightarrow>
    certifier_run lib c0 (c\<lparr>cf_timer := (cf_timer c)\<lparr>tm_pending := True\<rparr>\<rparr>)"
| callback: "certifier_run lib c0 c \<Longrightarrow> tm_pending (cf_timer c) \<Longrightarrow>
    retry_timer_callback rnd connect (c\<lparr>cf_timer := (cf_timer c)\<lparr>tm_pending := False\<rparr>\<rparr>) = (res, c') \<Longrightarrow>
    certifier_run lib c0 c'"
| response: "certifier_run lib c0 c \<Longrightarrow> cf_upstream c = Some u \<Longrightarrow> ur_active u \<Longrightarrow>
    n < delay_after_success_jitter \<Longrightarrow>
    process_response lib tnow n q (c\<lparr>cf_upstream := Some (u\<lparr>ur_active := False\<rparr>)\<rparr>) = (res, c') \<Longrightarrow>
    certifier_run lib c0 c'"
| failure: "certifier_run lib c0 c \<Longrightarrow> cf_upstream c = Some u \<Longrightarrow>
    certifier_run lib c0 (c\<lparr>cf_upstream := Some (u\<lparr>ur_active := False\<rparr>)\<rparr>)"
| stops: "certifier_run lib c0 c \<Longrightarrow> certifier_run lib c0 (certifier_stop c)"

section \<open>Lemmas\<close>

lemma best_certificate_None:
  "best_certificate lib tnow pk trv cert = None
     \<longleftrightarrow> cert = None \<and> (\<forall>s \<in> set trv. \<forall>c. certificate_new lib tnow pk s \<noteq> Inr c)"
  by (induction trv arbitrary: cert) (auto split: sum.split option.split)

lemma best_certificate_Some:
  assumes "best_certificate lib tnow pk trv cert = Some c"
  shows "cert = Some c \<or> (\<exists>s \<in> set trv. certificate_new lib tnow pk s = Inr c)"
    and "cert = Some d \<Longrightarrow> is_preferred_over c d"
    and "s \<in> set trv \<Longrightarrow> certificate_new lib tnow pk s = Inr e \<Longrightarrow> is_preferred_over c e"
proof -
  have "(cert = Some c \<or> (\<exists>s \<in> set trv. certificate_new lib tnow pk s = Inr c))
    \<and> (\<forall>d. cert = Some d \<longrightarrow> is_preferred_over c d)
    \<and> (\<forall>s \<in> set trv. \<forall>e. certificate_new lib tnow pk s = Inr e \<longrightarrow> is_preferred_over c e)"
    using assms
  proof (induction trv arbitrary: cert)
    case (Cons t trv)
    show ?case
    proof (cases "certificate_new lib tnow pk t")
      case (Inl e)
      with Cons show ?thesis by auto
    next
      case (Inr ci)
      show ?thesis
      proof (cases cert)
        case None
        with Cons.prems Cons.IH [of "Some ci"] Inr show ?thesis by auto
      next
        case (Some b)
        note t = is_preferred_over_trans [of c] is_preferred_over_total [of ci b]
        show ?thesis
          using Cons.prems Cons.IH [of "Some (if is_preferred_over ci b then ci else b)"] Inr Some
          by (cases "is_preferred_over ci b") (use t in auto)
      qed
    qed
  qed simp
  then show "cert = Some c \<or> (\<exists>s \<in> set trv. certificate_new lib tnow pk s = Inr c)"
    "cert = Some d \<Longrightarrow> is_preferred_over c d"
    "s \<in> set trv \<Longrightarrow> certificate_new lib tnow pk s = Inr e \<Longrightarrow> is_preferred_over c e" by auto
qed

lemma certificate_new_facts:
  assumes "certificate_new lib tnow pk s = Inr c"
  shows "cert_cipher c \<noteq> cipher_undefined" "length (cd_magic_query (c_data c)) = 8"
    "length (server_publickey (c_data c)) = 32"
  using assms
  by (auto simp: certificate_new_def Let_def cert_cipher_def cert_parse_version_def
      load_certificate_data_def split: if_splits option.splits)

subsection \<open>Preservation\<close>

text \<open>What holds of every certifier that was made with a resolver of the list.\<close>

definition wf_certifier :: "certifier \<Rightarrow> bool" where
  "wf_certifier c \<longleftrightarrow> cf_attempts c \<le> 5 \<and> cf_retry_step c \<le> retry_steps
     \<and> 17 \<le> tm_repeat (cf_timer c) \<and> tm_repeat (cf_timer c) < 3700
     \<and> ephemeral_keys (rs_encryptor (cf_resolver c))
     \<and> (rs_ready (cf_resolver c) \<longrightarrow> e_cipher (rs_encryptor (cf_resolver c)) \<noteq> cipher_undefined
         \<and> wf_encryptor (rs_encryptor (cf_resolver c)))"

lemma wf_certifier_cong:
  "wf_certifier c \<Longrightarrow> wf_certifier (c\<lparr>cf_upstream := u\<rparr>)"
  "wf_certifier c \<Longrightarrow> wf_certifier (c\<lparr>cf_timer := (cf_timer c)\<lparr>tm_pending := b\<rparr>\<rparr>)"
  "wf_certifier c \<Longrightarrow> wf_certifier (certifier_stop c)"
  "wf_certifier c \<Longrightarrow> wf_certifier (c\<lparr>cf_retry_step := 0\<rparr>)"
  by (simp_all add: wf_certifier_def certifier_stop_def)

lemma retry_delay:
  assumes "step \<le> retry_steps"
  shows "unat (retry_min_delay + step * (retry_max_delay - retry_min_delay) div retry_steps)
    = 17 + unat step * 283 div 100"
proof -
  have s: "unat step \<le> 100" using assms by (simp add: word_le_nat_alt retry_steps_def)
  have m: "unat (step * 283) = unat step * 283" using s by (simp add: unat_mult_lem [THEN iffD1])
  have d: "unat (step * 283 div 100) = unat step * 283 div 100" by (simp add: unat_div_distrib m)
  have "17 + unat step * 283 div 100 < 2 ^ 32" using s by simp
  then have "unat (17 + step * 283 div 100) = 17 + unat step * 283 div 100"
    using d by (simp add: unat_add_lem [THEN iffD1])
  then show ?thesis by (simp add: retry_min_delay_def retry_max_delay_def retry_steps_def)
qed

lemma wf_reschedule_after_failure: 
  assumes "wf_certifier c"
  shows "wf_certifier (reschedule_query_after_failure c)"
proof (cases "tm_pending (cf_timer c)")
  case False
  have s: "unat (cf_retry_step c) \<le> 100"
    using assms by (simp add: wf_certifier_def word_le_nat_alt retry_steps_def)
  have "cf_retry_step c + 1 \<le> retry_steps" if "cf_retry_step c < retry_steps"
    using that by (rule inc_le)
  then show ?thesis
    using assms False retry_delay [of "cf_retry_step c"] s
    by (auto simp: wf_certifier_def reschedule_query_after_failure_def reschedule_query_def Let_def)
qed (use assms in \<open>simp add: reschedule_query_after_failure_def\<close>)

lemma wf_reschedule_after_success:
  "wf_certifier c \<Longrightarrow> u < delay_after_success_jitter \<Longrightarrow> wf_certifier (reschedule_query_after_success u c)"
  by (simp add: wf_certifier_def reschedule_query_after_success_def reschedule_query_def
      delay_after_success_jitter_def delay_after_success_min_delay_def)

lemma reschedule_resolver [simp]:
  "cf_resolver (reschedule_query_after_failure c) = cf_resolver c"
  "cf_resolver (reschedule_query_after_success u c) = cf_resolver c"
  "cf_upstream (reschedule_query_after_failure c) = cf_upstream c"
  "cf_attempts (reschedule_query_after_failure c) = cf_attempts c"
  by (simp_all add: reschedule_query_after_failure_def reschedule_query_after_success_def
      reschedule_query_def Let_def)

lemma wf_update:
  assumes "wf_certifier c" "certifier_update rnd connect c = (res, c')"
  shows "wf_certifier c'" "cf_resolver c' = cf_resolver c"
proof -
  have "wf_certifier c' \<and> cf_resolver c' = cf_resolver c"
    using assms wf_reschedule_after_failure [of "c\<lparr>cf_upstream := None\<rparr>"]
    by (auto simp: certifier_update_def update_failed_def wf_certifier_cong Let_def certifier_stop_def
        split: if_splits sum.splits option.splits) (auto simp: wf_certifier_def)
  then show "wf_certifier c'" "cf_resolver c' = cf_resolver c" by simp_all
qed

lemma find_valid_certificate_frame:
  assumes "find_valid_certificate lib tnow trv r = (res, r')"
  shows "rs_host_name r' = rs_host_name r" "rs_pubkey r' = rs_pubkey r" "rs_address r' = rs_address r"
    "ephemeral_keys (rs_encryptor r') = ephemeral_keys (rs_encryptor r)"
  using assms
  by (auto simp: find_valid_certificate_def Let_def set_magic_query_def set_resolver_publickey_def
      split: option.splits if_splits prod.splits)

lemma wf_find_valid_certificate:
  assumes "find_valid_certificate lib tnow trv r = (res, r')" "ephemeral_keys (rs_encryptor r)"
  shows "rs_ready r' \<Longrightarrow> e_cipher (rs_encryptor r') \<noteq> cipher_undefined \<and> wf_encryptor (rs_encryptor r')"
proof -
  assume r: "rs_ready r'"
  then obtain c where c: "best_certificate lib tnow (rs_pubkey r) trv None = Some c"
    using assms(1) by (auto simp: find_valid_certificate_def Let_def split: option.splits)
  then obtain s where "certificate_new lib tnow (rs_pubkey r) s = Inr c"
    using best_certificate_Some(1) by blast
  from certificate_new_facts [OF this] r c assms
  show "e_cipher (rs_encryptor r') \<noteq> cipher_undefined \<and> wf_encryptor (rs_encryptor r')"
    by (auto simp: find_valid_certificate_def Let_def set_magic_query_def set_resolver_publickey_def wf_encryptor_def)
qed

lemma wf_process_response:
  assumes "wf_certifier c" "process_response lib tnow u q c = (res, c')" "u < delay_after_success_jitter"
  shows "wf_certifier c'" "rs_host_name (cf_resolver c') = rs_host_name (cf_resolver c)"
    "rs_pubkey (cf_resolver c') = rs_pubkey (cf_resolver c)"
    "rs_address (cf_resolver c') = rs_address (cf_resolver c)"
proof -
  have "wf_certifier c' \<and> rs_host_name (cf_resolver c') = rs_host_name (cf_resolver c)
    \<and> rs_pubkey (cf_resolver c') = rs_pubkey (cf_resolver c)
    \<and> rs_address (cf_resolver c') = rs_address (cf_resolver c)"
  proof (cases "ebind (host_type_info q) (\<lambda>_. get_txt_answer q)")
    case (Inr trv)
    obtain b r where f: "find_valid_certificate lib tnow trv (cf_resolver c) = (b, r)" by fastforce
    have r: "wf_certifier (c\<lparr>cf_resolver := r\<rparr>)"
      using assms(1) wf_find_valid_certificate [OF f] find_valid_certificate_frame [OF f]
      by (auto simp: wf_certifier_def)
    show ?thesis
      using assms(2) Inr f r find_valid_certificate_frame [OF f] wf_reschedule_after_failure [OF r]
        wf_reschedule_after_success [OF wf_certifier_cong(4) [OF r] assms(3)]
      by (auto simp: process_response_def Let_def wf_certifier_cong split: sum.splits bool.splits)
  qed (use assms in \<open>simp add: process_response_def\<close>)
  then show "wf_certifier c'" "rs_host_name (cf_resolver c') = rs_host_name (cf_resolver c)"
    "rs_pubkey (cf_resolver c') = rs_pubkey (cf_resolver c)"
    "rs_address (cf_resolver c') = rs_address (cf_resolver c)" by simp_all
qed

lemma wf_certifier_start:
  assumes "wf_certifier c" "certifier_start rnd connect c = (res, c')"
  shows "wf_certifier c'" "cf_resolver c' = cf_resolver c"
  using assms(2) wf_update [OF assms(1), of rnd connect]
  by (auto simp: certifier_start_def split: prod.splits sum.splits)

lemma wf_callback:
  assumes "wf_certifier c" "retry_timer_callback rnd connect c = (res, c')"
  shows "wf_certifier c'" "cf_resolver c' = cf_resolver c"
  using assms(2) wf_update [OF assms(1), of rnd connect]
  by (auto simp: retry_timer_callback_def split: prod.splits sum.splits exn.splits)

lemma certifier_run_wf:
  assumes "certifier_run lib c0 c" "wf_certifier c0"
  shows "wf_certifier c \<and> rs_host_name (cf_resolver c) = rs_host_name (cf_resolver c0)
    \<and> rs_pubkey (cf_resolver c) = rs_pubkey (cf_resolver c0)
    \<and> rs_address (cf_resolver c) = rs_address (cf_resolver c0)"
  using assms
proof (induction rule: certifier_run.induct)
  case (starts c0 c rnd connect res c')
  then show ?case using wf_certifier_start [of c] by simp
next
  case (expires c0 c)
  then show ?case by (simp add: wf_certifier_cong)
next
  case (callback c0 c rnd connect res c')
  then show ?case using wf_callback [OF wf_certifier_cong(2) [of c False]] by simp
next
  case (response c0 c u n tnow q res c')
  then show ?case using wf_process_response [OF wf_certifier_cong(1) [of c]] by simp
next
  case (failure c0 c u)
  then show ?case by (simp add: wf_certifier_cong)
next
  case (stops c0 c)
  then show ?case by (simp add: wf_certifier_cong) (simp add: certifier_stop_def)
qed simp

lemma wf_certifier_new:
  "wf_certifier (certifier_new (resolver_new rnd nm hn ks a t dnssec namecoin logg) tcponly)"
  by (simp add: wf_certifier_def certifier_new_def resolver_new_def encryptor_new_def retry_min_delay_def)

text \<open>A certifier that has made five requests makes no further request.\<close>

lemma exhausted_update:
  assumes "4 < cf_attempts c" "\<not> upstream_active c"
  shows "certifier_update rnd connect c = (Inr (), certifier_stop (c\<lparr>cf_upstream := None\<rparr>))"
  using assms by (simp add: certifier_update_def)

lemma exhausted_facts:
  "cf_attempts (certifier_stop c) = cf_attempts c" "cf_resolver (certifier_stop c) = cf_resolver c"
  "upstream_active (certifier_stop c) = upstream_active c" "\<not> upstream_active (c\<lparr>cf_upstream := None\<rparr>)"
  by (simp_all add: certifier_stop_def upstream_active_def)

section \<open>Properties\<close>

text \<open>
  C28. \<^verbatim>\<open>find_valid_certificate\<close> makes the resolver ready exactly if it returns true; it returns false
  exactly if no text is a valid certificate; otherwise it uses the certificate that is preferred over all
  other valid ones, the highest serial number of the highest version: magic, cipher, which is supported,
  and, with ephemeral keys, the public key of the encryptor are those of the certificate.  With ephemeral
  keys, which all resolvers have, it does not throw.
\<close>

theorem find_valid_certificate_correct:
  assumes "find_valid_certificate lib tnow trv r = (res, r')"
  shows "(rs_ready r' \<longleftrightarrow> res = Inr True)
    \<and> (res = Inr False \<longleftrightarrow> (\<forall>s \<in> set trv. \<forall>c. certificate_new lib tnow (rs_pubkey r) s \<noteq> Inr c))
    \<and> (res = Inr True \<longrightarrow> (\<exists>s \<in> set trv. \<exists>c. certificate_new lib tnow (rs_pubkey r) s = Inr c
         \<and> (\<forall>s' \<in> set trv. \<forall>d. certificate_new lib tnow (rs_pubkey r) s' = Inr d \<longrightarrow>
              cert_version d < cert_version c
              \<or> cert_version d = cert_version c \<and> cert_serial d \<le> cert_serial c)
         \<and> magic_query (rs_encryptor r') = cd_magic_query (c_data c)
         \<and> e_cipher (rs_encryptor r') = cert_cipher c \<and> cert_cipher c \<noteq> cipher_undefined
         \<and> (ephemeral_keys (rs_encryptor r) \<longrightarrow>
              publickey (rs_encryptor r') = server_publickey (c_data c))))
    \<and> (ephemeral_keys (rs_encryptor r) \<longrightarrow> \<not> isl res)"
proof (cases "best_certificate lib tnow (rs_pubkey r) trv None")
  case None
  then have "\<forall>s \<in> set trv. \<forall>c. certificate_new lib tnow (rs_pubkey r) s \<noteq> Inr c"
    by (simp add: best_certificate_None)
  with None assms show ?thesis by (auto simp: find_valid_certificate_def)
next
  case (Some c)
  from best_certificate_Some(1) [OF Some] obtain s where
    s: "s \<in> set trv" "certificate_new lib tnow (rs_pubkey r) s = Inr c" by auto
  have p: "cert_version d < cert_version c
      \<or> cert_version d = cert_version c \<and> cert_serial d \<le> cert_serial c"
    if "s' \<in> set trv" "certificate_new lib tnow (rs_pubkey r) s' = Inr d" for s' d
    using best_certificate_Some(3) [OF Some that] by (simp add: is_preferred_over_iff)
  define enc where "enc = set_magic_query (cd_magic_query (c_data c)) (cert_cipher c) (rs_encryptor r)"
  obtain ok enc' where e: "set_resolver_publickey lib (server_publickey (c_data c)) enc = (ok, enc')"
    by fastforce
  have f: "magic_query enc' = cd_magic_query (c_data c)" "e_cipher enc' = cert_cipher c"
    "ephemeral_keys (rs_encryptor r) \<Longrightarrow> ok \<and> publickey enc' = server_publickey (c_data c)"
    using e by (auto simp: enc_def set_magic_query_def set_resolver_publickey_def split: if_splits option.splits)
  have r: "(res, r') = (if ok then Inr True else Inl (Runtime_error ''Suspicious public key''),
      r\<lparr>rs_ready := ok, rs_resolver_pubkey := server_publickey (c_data c),
        rs_magic_query := cd_magic_query (c_data c), rs_encryptor := enc'\<rparr>)"
    using assms Some certificate_new_facts(1) [OF s(2)] e
    by (auto simp: find_valid_certificate_def Let_def enc_def split: if_splits)
  show ?thesis
    using r s p f certificate_new_facts(1) [OF s(2)] by (cases ok) auto
qed

definition sample_signed :: "byte \<Rightarrow> byte \<Rightarrow> byte list" where
  "sample_signed ver serial = str_bytes ''DNSC'' @ [0, ver, 0, 0] @ replicate 64 0 @ replicate 32 0
     @ replicate 8 1 @ [0, 0, 0, serial, 0, 0, 0, 2, 0, 0, 0, 9]"

lemma sample_signed_valid:
  assumes "ver \<in> {1, 2}"
  shows "\<exists>c. certificate_new plain_box 5 pk (sample_signed ver serial) = Inr c"
  using assms
  by (auto simp: certificate_new_def sample_signed_def Let_def cert_parse_version_def load_version_def
      cert_magic_cert_def str_bytes_def slice_def plain_box_def load_certificate_data_def cert_ts_def
      be_u32_def load_u32_def htonl_def)

theorem find_valid_certificate_correct_witness:
  "\<exists>r'. find_valid_certificate plain_box 5 [[1, 2, 3], sample_signed 1 7] sample_resolver = (Inr True, r')
     \<and> rs_ready r' \<and> e_cipher (rs_encryptor r') \<noteq> cipher_undefined"
proof -
  let ?l = "[[1, 2, 3], sample_signed 1 7]"
  obtain res r' where f: "find_valid_certificate plain_box 5 ?l sample_resolver = (res, r')" by fastforce
  have e: "ephemeral_keys (rs_encryptor sample_resolver)"
    by (simp add: sample_resolver_def resolver_dummy_def resolver_new_def encryptor_new_def)
  note t = find_valid_certificate_correct [OF f]
  from e t have "\<not> isl res" by blast
  moreover have "res \<noteq> Inr False"
    using t sample_signed_valid [of 1 "rs_pubkey sample_resolver" 7] by auto
  ultimately have "res = Inr True" by (cases res) auto
  with t f show ?thesis by auto
qed

text \<open>
  C29. In every run of a certifier that was made for a resolver, at most five requests are made, the delay
  until the next request is between 17 and 3699 seconds, the retry step, whose increment and use are
  32 bit arithmetic, does not exceed 100, the resolver keeps its name, key and address, and whenever it
  is ready, its encryptor has a supported cipher, a magic of 8 and a public key of 32 bytes.
\<close>

theorem certifier_run_invariant:
  assumes "certifier_run lib (certifier_new (resolver_new rnd nm hn ks a t dnssec namecoin logg) tcponly) c"
  shows "cf_attempts c \<le> 5 \<and> 17 \<le> tm_repeat (cf_timer c) \<and> tm_repeat (cf_timer c) < 3700
    \<and> cf_retry_step c \<le> 100
    \<and> rs_host_name (cf_resolver c) = hn \<and> rs_pubkey (cf_resolver c) = ks \<and> rs_address (cf_resolver c) = a
    \<and> (rs_ready (cf_resolver c) \<longrightarrow> e_cipher (rs_encryptor (cf_resolver c)) \<noteq> cipher_undefined
        \<and> length (magic_query (rs_encryptor (cf_resolver c))) = 8
        \<and> length (publickey (rs_encryptor (cf_resolver c))) = 32)"
  using certifier_run_wf [OF assms wf_certifier_new]
  by (auto simp: wf_certifier_def wf_encryptor_def retry_steps_def certifier_new_def resolver_new_def)

theorem certifier_run_invariant_witness:
  "cf_attempts (snd (certifier_start 0 None (certifier_new sample_resolver udp))) \<le> 5"
proof -
  let ?c = "certifier_new sample_resolver udp"
  have "certifier_run plain_box ?c (snd (certifier_start 0 None ?c))"
    by (rule certifier_run.starts [OF certifier_run.initial]) (rule prod.collapse [symmetric])
  then show ?thesis
    unfolding sample_resolver_def resolver_dummy_def by (rule certifier_run_invariant [THEN conjunct1])
qed

text \<open>
  A certifier that has made five requests never makes another one: whatever happens afterwards, the
  resolver keeps the certificate it has, even after its expiration, because the number of attempts is
  not reset when a request succeeds.
\<close>

theorem certifier_never_renews:
  assumes "certifier_run lib c0 c" "4 < cf_attempts c0" "\<not> upstream_active c0"
  shows "cf_resolver c = cf_resolver c0 \<and> \<not> upstream_active c \<and> 4 < cf_attempts c"
  using assms
proof (induction rule: certifier_run.induct)
  case (starts c0 c rnd connect res c')
  then show ?case using exhausted_update [of c rnd connect] by (auto simp: certifier_start_def exhausted_facts)
next
  case (callback c0 c rnd connect res c')
  let ?c = "c\<lparr>cf_timer := (cf_timer c)\<lparr>tm_pending := False\<rparr>\<rparr>"
  have "4 < cf_attempts ?c" "\<not> upstream_active ?c" "cf_resolver ?c = cf_resolver c0"
    using callback by (simp_all add: upstream_active_def)
  then show ?case
    using callback.hyps(3) exhausted_update [of ?c rnd connect]
    by (auto simp: retry_timer_callback_def exhausted_facts)
qed (auto simp: upstream_active_def certifier_stop_def split: option.splits)

theorem certifier_never_renews_witness:
  "let c = (certifier_new sample_resolver udp)\<lparr>cf_attempts := 5\<rparr> in
   cf_resolver (snd (certifier_start 0 None c)) = sample_resolver"
proof -
  let ?c = "(certifier_new sample_resolver udp)\<lparr>cf_attempts := 5\<rparr>"
  have "certifier_run plain_box ?c (snd (certifier_start 0 None ?c))"
    by (rule certifier_run.starts [OF certifier_run.initial]) (rule prod.collapse [symmetric])
  from certifier_never_renews [OF this] show ?thesis
    by (simp add: certifier_new_def upstream_active_def)
qed

end
