(* ===== verification/Cresponder.thy ===== *)
theory Cresponder
  imports Certifier Responder_Run
begin

text \<open>
  \<^verbatim>\<open>dns::crypt::cresponder\<close> (\<^verbatim>\<open>dns/crypt/cresponder.hxx\<close>, \<^verbatim>\<open>dns/crypt/srcz/cresponder.cpp\<close>) and
  \<^verbatim>\<open>dns::crypt::server::responder\<close> (\<^verbatim>\<open>dns/crypt/server_responder.hxx\<close>): the responder that forwards to
  DNSCrypt servers and that is itself a DNSCrypt server if it has a key and a certificate.

  The \<^verbatim>\<open>std::map\<close> of providers is the list of its pairs in the order of their keys.  A message is a
  packet and, if its dynamic type is \<^verbatim>\<open>emessage\<close>, the key and the nonce of its session.  The virtual
  functions that \<^verbatim>\<open>dns::responder::process\<close> calls are the ones of this class.  The number of failures of
  a DNSCrypt provider, which is only logged, is not modelled.
\<close>

section \<open>Definitions\<close>

record server_responder =
  sr_decryptor :: server_encryptor_data
  sr_certificate :: certificate
  sr_hostname :: string

record cresponder =
  cr_base :: responder
  cr_providers :: "(string \<times> certifier) list"
  cr_server :: "server_responder option"
  cr_random :: string

record emessage =
  em_query :: packet
  em_session :: "(byte list \<times> byte list) option"

datatype cprovider_ref = Plain provider_ref | Crypt string

text \<open>What becomes of a request; \<open>Sent\<close> has the bytes that the client receives.\<close>

datatype coutcome =
    Closed
  | Sent packet
  | Passed cprovider_ref emessage

record crypt_lib =
  cl_sodium :: sodium
  cl_env :: crypt_env

subsection \<open>The list of providers\<close>

fun string_less :: "string \<Rightarrow> string \<Rightarrow> bool" where
  "string_less s [] = False"
| "string_less [] (b # bs) = True"
| "string_less (a # as) (b # bs) =
     (char_code a < char_code b \<or> a = b \<and> string_less as bs)"

fun map_emplace :: "string \<Rightarrow> 'v \<Rightarrow> (string \<times> 'v) list \<Rightarrow> (string \<times> 'v) list" where
  "map_emplace k v [] = [(k, v)]"
| "map_emplace k v ((l, w) # m) =
     (if string_less k l then (k, v) # (l, w) # m
      else if k = l then (l, w) # m else (l, w) # map_emplace k v m)"

definition map_erase :: "string \<Rightarrow> (string \<times> 'v) list \<Rightarrow> (string \<times> 'v) list" where
  "map_erase k m = filter (\<lambda>(l, w). l \<noteq> k) m"

definition use_resolver :: "bool \<Rightarrow> resolver \<Rightarrow> bool" where
  "use_resolver noip r \<longleftrightarrow> \<not> (noip \<and> a_inet (rs_address r) = ipv6)"

text \<open>One resolver of the file: the providers and the number of resolvers that are used.\<close>

definition load_resolver :: "inet_lib \<Rightarrow> bool \<Rightarrow> proto \<Rightarrow> resolver
    \<Rightarrow> (string \<times> certifier) list \<times> nat \<Rightarrow> (string \<times> certifier) list \<times> nat" where
  "load_resolver net noip tcponly r = (\<lambda>(providers, used).
     let ipp = ip_port net (rs_address r); found = (map_of providers ipp \<noteq> None);
         use = use_resolver noip r;
         providers = (if use \<and> \<not> found then map_emplace ipp (certifier_new r tcponly) providers
                      else providers);
         providers = (if \<not> use \<and> found then map_erase ipp providers else providers)
     in (providers, used + (if use then 1 else 0)))"

definition load_providers :: "sodium \<Rightarrow> inet_lib \<Rightarrow> (byte list \<times> byte list) list \<Rightarrow> string option \<Rightarrow> bool
    \<Rightarrow> proto \<Rightarrow> cresponder \<Rightarrow> unit res \<times> cresponder" where
  "load_providers lib net rnds file noip tcponly cr =
     (case parse_resolvers_list lib net rnds file tcponly of
        Inl e \<Rightarrow> (if is_runtime_error e then Inr () else Inl e, cr)
      | Inr resolvers \<Rightarrow>
          let (providers, used) = fold (load_resolver net noip tcponly) resolvers (cr_providers cr, 0);
              providers = filter (\<lambda>(ipp, c). \<exists>r \<in> set resolvers. ip_port net (rs_address r) = ipp) providers;
              cr = cr\<lparr>cr_providers := providers\<rparr>
          in if length providers \<noteq> used
             then (Inl (Logic_error ''DNScrypt resolvers merging failed''), cr)
             else (Inr (), cr))"

definition cr_reload :: "sodium \<Rightarrow> inet_lib \<Rightarrow> (byte list \<times> byte list) list \<Rightarrow> responder_parameters
    \<Rightarrow> string option \<Rightarrow> cresponder \<Rightarrow> unit res \<times> cresponder" where
  "cr_reload lib net rnds p file cr =
     (case reload net p (cr_base cr) of
        Inl e \<Rightarrow> (Inl e, cr)
      | Inr r \<Rightarrow> load_providers lib net rnds file (rp_noipv6 p) (rp_proto p) (cr\<lparr>cr_base := r\<rparr>))"

definition cresponder_new :: "sodium \<Rightarrow> env \<Rightarrow> (byte list \<times> byte list) list \<Rightarrow> byte list option
    \<Rightarrow> responder_parameters \<Rightarrow> string option \<Rightarrow> server_responder option \<Rightarrow> cresponder res" where
  "cresponder_new lib env rnds cfile params file srv =
     ebind (start_responder env cfile params) (\<lambda>r.
       case load_providers lib (e_lib env) rnds file (rp_noipv6 params) (rp_proto params)
           \<lparr>cr_base = r, cr_providers = [], cr_server = srv, cr_random = []\<rparr> of
         (Inl e, cr) \<Rightarrow> Inl e
       | (Inr _, cr) \<Rightarrow> Inr cr)"

text \<open>
  \<^verbatim>\<open>update_certificates\<close>: the first exception ends the loop; \<open>inputs\<close> has for each provider the random
  number of its query and the exception of its upstream request, if there is one.
\<close>

fun update_certificates :: "(nat \<times> exn option) list \<Rightarrow> (string \<times> certifier) list
    \<Rightarrow> unit res \<times> (string \<times> certifier) list" where
  "update_certificates inputs [] = (Inr (), [])"
| "update_certificates inputs ((k, c) # m) =
     (case certifier_start (fst (hd (inputs @ [(0, None)]))) (snd (hd (inputs @ [(0, None)]))) c of
        (Inl e, c) \<Rightarrow> (Inl e, (k, c) # m)
      | (Inr errmsg, c) \<Rightarrow>
          let c = (if errmsg \<noteq> [] then certifier_stop c else c);
              (res, m) = update_certificates (tl inputs) m
          in (res, (k, c) # m))"

subsection \<open>Choosing a provider\<close>

definition ready_providers :: "cresponder \<Rightarrow> string list" where
  "ready_providers cr = map fst (filter (\<lambda>(k, c). rs_ready (cf_resolver c)) (cr_providers cr))"

definition cr_select_random_provider :: "env \<Rightarrow> cresponder \<Rightarrow> cresponder" where
  "cr_select_random_provider env cr =
     (let ready = ready_providers cr in
      if ready \<noteq> [] then
        let m = (if length ready > rand_max then rand_max else length ready);
            mx = (if m = 0 then 1 else m)
        in cr\<lparr>cr_random := ready ! (e_rand env mod mx)\<rparr>
      else cr\<lparr>cr_random := []\<rparr>)"

definition cr_random_provider :: "env \<Rightarrow> packet \<Rightarrow> cresponder \<Rightarrow> (cprovider_ref option \<times> cresponder) res" where
  "cr_random_provider env q cr =
     ebind (zone_provider q (cr_base cr)) (\<lambda>z.
       case z of
         Some p \<Rightarrow> Inr (Some (Plain p), cr)
       | None \<Rightarrow>
           if cr_providers cr = [] then
             ebind (random_provider env q (cr_base cr)) (\<lambda>(p, r).
               Inr (map_option Plain p, cr\<lparr>cr_base := r\<rparr>))
           else
             let cr = cr_select_random_provider env cr in
             if cr_random cr = [] then Inr (None, cr)
             else case map_of (cr_providers cr) (cr_random cr) of
                 Some c \<Rightarrow> Inr (Some (Crypt (cr_random cr)), cr)
               | None \<Rightarrow> Inr (None, cr))"

subsection \<open>Requests\<close>

definition cr_respond :: "crypt_lib \<Rightarrow> emessage \<Rightarrow> cresponder \<Rightarrow> packet res" where
  "cr_respond cl req cr =
     (case (cr_server cr, em_session req) of
        (Some srv, Some (pubkey, nonce)) \<Rightarrow>
          server_curve (cl_sodium cl) (cl_env cl) (sr_decryptor srv) nonce pubkey (em_query req)
      | _ \<Rightarrow> Inr (em_query req))"

definition cr_increment_failures :: "cprovider_ref \<Rightarrow> cresponder \<Rightarrow> cresponder" where
  "cr_increment_failures p cr =
     (case p of Plain ref \<Rightarrow> cr\<lparr>cr_base := increment_failures ref (cr_base cr)\<rparr> | Crypt _ \<Rightarrow> cr)"

text \<open>
  \<^verbatim>\<open>dns::responder::process\<close> with the functions of this class: the copy of the message that the
  filters work on is a \<^verbatim>\<open>query\<close>, without a session; the copy that is used for failures has the type
  of the request.
\<close>

definition cr_send_upstream :: "crypt_lib \<Rightarrow> env \<Rightarrow> (cprovider_ref \<Rightarrow> bool) \<Rightarrow> emessage \<Rightarrow> cresponder
    \<Rightarrow> (coutcome \<times> cresponder) res" where
  "cr_send_upstream cl env connect req cr =
     ebind (cr_random_provider env (em_query req) cr) (\<lambda>(prov, cr).
       case prov of
         Some p \<Rightarrow>
           let cr = cr\<lparr>cr_base := collect_requests (cr_base cr)\<rparr> in
           if connect p then
             Inr (Passed p req, cr\<lparr>cr_base := (cr_base cr)\<lparr>upstream_requests :=
               upstream_requests (cr_base cr) @ [\<lparr>ur_message = em_query req, ur_active = True\<rparr>]\<rparr>\<rparr>)
           else
             ebind (mark_servfail (em_query req)) (\<lambda>resp.
               let cr = cr_increment_failures p cr in
               ebind (cr_respond cl (req\<lparr>em_query := resp\<rparr>) cr) (\<lambda>out. Inr (Sent out, cr)))
       | None \<Rightarrow>
           ebind (mark_servfail (em_query req)) (\<lambda>resp.
             ebind (cr_respond cl (req\<lparr>em_query := resp\<rparr>) cr) (\<lambda>out. Inr (Sent out, cr))))"

definition cr_base_process :: "crypt_lib \<Rightarrow> env \<Rightarrow> (cprovider_ref \<Rightarrow> bool) \<Rightarrow> emessage \<Rightarrow> cresponder
    \<Rightarrow> (coutcome \<times> cresponder) res" where
  "cr_base_process cl env connect req cr0 =
     (if \<not> is_dns (em_query req) then Inr (Closed, cr0)
      else
        let r = (cr_base cr0)\<lparr>processed_count := processed_count (cr_base cr0) + 1\<rparr> in
        ebind (pre_filter env (em_query req) r) (\<lambda>(fr, fmsg, r).
          let reply = \<lparr>em_query = fmsg, em_session = None\<rparr> in
          if fr = 1 then
            let cr = cr0\<lparr>cr_base := r\<rparr> in ebind (cr_respond cl reply cr) (\<lambda>out. Inr (Sent out, cr))
          else if fr = 2 then
            ebind (resp_store env fmsg r) (\<lambda>r.
              let cr = cr0\<lparr>cr_base := r\<rparr> in ebind (cr_respond cl reply cr) (\<lambda>out. Inr (Sent out, cr)))
          else cr_send_upstream cl env connect req (cr0\<lparr>cr_base := r\<rparr>)))"

definition cr_process :: "crypt_lib \<Rightarrow> env \<Rightarrow> (cprovider_ref \<Rightarrow> bool) \<Rightarrow> packet \<Rightarrow> cresponder
    \<Rightarrow> (coutcome \<times> cresponder) res" where
  "cr_process cl env connect msg cr =
     (case cr_server cr of
        None \<Rightarrow> cr_base_process cl env connect \<lparr>em_query = msg, em_session = None\<rparr> cr
      | Some srv \<Rightarrow>
          ebind (is_dnscrypt_message (sr_certificate srv) msg) (\<lambda>encrypted.
            if encrypted then
              ebind (server_uncurve (cl_sodium cl) (sr_decryptor srv) msg) (\<lambda>(pubkey, nonce, qr).
                cr_base_process cl env connect \<lparr>em_query = qr, em_session = Some (pubkey, nonce)\<rparr> cr)
            else if is_dns msg then
              ebind (is_dnscrypt_certificate_request (sr_hostname srv) msg) (\<lambda>cert_request.
                if cert_request then
                  ebind (get_question msg) (\<lambda>_.
                  ebind (set_txt_answer (raw_signed (sr_certificate srv)) 10 msg) (\<lambda>cert.
                    Inr (Sent cert, cr)))
                else cr_base_process cl env connect \<lparr>em_query = msg, em_session = None\<rparr> cr)
            else cr_base_process cl env connect \<lparr>em_query = msg, em_session = None\<rparr> cr))"

text \<open>
  \<^verbatim>\<open>pass_answer_downstream\<close>: the request takes the type of the message that was sent upstream, which
  is the one of the request for a plain provider (\<^verbatim>\<open>provider::adapt_message\<close> makes a clone) and another one
  for a DNSCrypt provider (\<^verbatim>\<open>resolver::adapt_message\<close>).
\<close>

definition upstream_session :: "cprovider_ref \<Rightarrow> emessage \<Rightarrow> (byte list \<times> byte list) option" where
  "upstream_session p req = (case p of Plain _ \<Rightarrow> em_session req | Crypt _ \<Rightarrow> None)"

definition cr_pass_answer_downstream :: "crypt_lib \<Rightarrow> env \<Rightarrow> cprovider_ref \<Rightarrow> emessage \<Rightarrow> packet
    \<Rightarrow> cresponder \<Rightarrow> (coutcome \<times> cresponder) res" where
  "cr_pass_answer_downstream cl env p req answer cr =
     ebind (short_info (e_lib env) answer) (\<lambda>_.
     ebind (rcode answer) (\<lambda>rc.
     ebind (if rc = rcode_word noerror \<or> rc = rcode_word nxdomain then resp_store env answer (cr_base cr)
            else Inr (cr_base cr)) (\<lambda>r.
       let cr = cr\<lparr>cr_base := r\<rparr> in
       ebind (cr_respond cl \<lparr>em_query = answer, em_session = upstream_session p req\<rparr> cr) (\<lambda>out.
         Inr (Sent out, cr)))))"

text \<open>The text that \<^verbatim>\<open>save_providers\<close> writes.\<close>

definition save_providers :: "inet_lib \<Rightarrow> cresponder \<Rightarrow> string res" where
  "save_providers net cr =
     ebind (resolver_lines net (map (\<lambda>(k, c). cf_resolver c)
         (filter (\<lambda>(k, c). rs_ready (cf_resolver c)) (cr_providers cr)))) (\<lambda>ls.
       Inr (''Resolver address,Provider name,Provider public key'' @ [CHR 0x0A] @ ls))"

section \<open>The map of providers\<close>

lemma string_less_irrefl [simp]: "\<not> string_less s s"
  by (induction s) auto

lemma string_less_trans: "string_less a b \<Longrightarrow> string_less b c \<Longrightarrow> string_less a c"
proof (induction a b arbitrary: c rule: string_less.induct)
  case (2 b bs)
  then show ?case by (cases c) auto
next
  case (3 a as b bs)
  then show ?case by (cases c) auto
qed simp

lemma string_less_total: "a \<noteq> b \<Longrightarrow> string_less a b \<or> string_less b a"
proof (induction a b rule: string_less.induct)
  case (1 s)
  then show ?case by (cases s) auto
next
  case (3 a as b bs)
  show ?case
  proof (cases "a = b")
    case False
    then have "char_code a < char_code b \<or> char_code b < char_code a"
      by (metis char_of_char linorder_neqE_nat)
    then show ?thesis by auto
  qed (use 3 in auto)
qed simp

definition ordered :: "(string \<times> 'v) list \<Rightarrow> bool" where
  "ordered m \<longleftrightarrow> sorted_wrt string_less (map fst m)"

lemma ordered_distinct: "ordered m \<Longrightarrow> distinct (map fst m)"
  by (induction m) (auto simp: ordered_def)

lemma ordered_filter: "ordered m \<Longrightarrow> ordered (filter P m)"
  by (induction m) (auto simp: ordered_def)

lemma set_map_emplace: "set (map_emplace k v m) \<subseteq> insert (k, v) (set m)"
  by (induction k v m rule: map_emplace.induct) auto

lemma map_emplace_keys: "fst ` set (map_emplace k v m) = insert k (fst ` set m)"
  by (induction k v m rule: map_emplace.induct) auto

lemma map_emplace_ordered: "ordered m \<Longrightarrow> ordered (map_emplace k v m)"
proof (induction k v m rule: map_emplace.induct)
  case (2 k v l w m)
  have "string_less l x" if "x \<in> fst ` set (map_emplace k v m)" "\<not> string_less k l" "k \<noteq> l" for x
    using that 2(2) string_less_total [of k l] by (auto simp: map_emplace_keys ordered_def)
  moreover have "ordered m" using 2(2) by (simp add: ordered_def)
  moreover have "string_less k x" if "string_less k l" "x \<in> fst ` set m" for x
    using that 2(2) by (auto simp: ordered_def intro: string_less_trans)
  ultimately show ?case using 2 by (auto simp: ordered_def)
qed (simp add: ordered_def)

lemma map_emplace_lookup:
  assumes "ordered m" "map_of m k = None"
  shows "map_of (map_emplace k v m) = (map_of m)(k \<mapsto> v)"
  using assms
proof (induction k v m rule: map_emplace.induct)
  case (2 k v l w m)
  then show ?case by (auto simp: ordered_def split: if_splits)
qed simp

lemma lookup_filter_key: "map_of (filter (\<lambda>(k, v). P k) m) k = (if P k then map_of m k else None)"
  by (induction m) auto

lemma keys_iff: "k \<in> fst ` set m \<longleftrightarrow> map_of m k \<noteq> None"
  by (simp add: map_of_eq_None_iff)

lemma length_ordered: "ordered m \<Longrightarrow> length m = card (fst ` set m)"
  using distinct_card [OF ordered_distinct, of m] by simp

section \<open>Loading\<close>

text \<open>
  The result of the first loop: of the old and the loaded providers those that are not switched off;
  an address that was there keeps its certifier.
\<close>

definition loaded :: "inet_lib \<Rightarrow> bool \<Rightarrow> proto \<Rightarrow> (string \<rightharpoonup> certifier) \<Rightarrow> resolver list \<Rightarrow> string \<rightharpoonup> certifier" where
  "loaded net noip tcponly old rs k =
     (case find (\<lambda>r. ip_port net (rs_address r) = k) rs of
        None \<Rightarrow> old k
      | Some r \<Rightarrow>
          if \<not> use_resolver noip r then None
          else case old k of Some c \<Rightarrow> Some c | None \<Rightarrow> Some (certifier_new r tcponly))"

text \<open>The text of an IPv4 address does not look like the one of an IPv6 address with brackets.\<close>

definition ntop_law :: "inet_lib \<Rightarrow> bool" where
  "ntop_law net \<longleftrightarrow> (\<forall>b. CHR ''['' \<notin> set (inet_ntop net ipv4 b))"

lemma ip_port_inet:
  assumes "ntop_law net" "ip_port net a = ip_port net b"
  shows "a_inet a = a_inet b"
proof -
  have "CHR ''['' \<in> set (ip_port net c) \<longleftrightarrow> a_inet c = ipv6" for c
    using assms(1) show_nat_digits [of "unat (a_port c)"]
    by (cases "a_inet c") (auto simp: ntop_law_def list_all_iff is_digit_def ip_port_def address_ip_def)
  then have "a_inet a = ipv6 \<longleftrightarrow> a_inet b = ipv6" using assms(2) by metis
  then show ?thesis by (cases "a_inet a"; cases "a_inet b") auto
qed

lemma load_resolver_step:
  assumes "ordered m"
  shows "ordered (fst (load_resolver net noip tcponly r (m, u)))"
    and "snd (load_resolver net noip tcponly r (m, u)) = u + (if use_resolver noip r then 1 else 0)"
    and "map_of (fst (load_resolver net noip tcponly r (m, u))) =
      (let k = ip_port net (rs_address r) in
       (map_of m)(k := if \<not> use_resolver noip r then None
                       else case map_of m k of Some c \<Rightarrow> Some c | None \<Rightarrow> Some (certifier_new r tcponly)))"
proof -
  let ?k = "ip_port net (rs_address r)"
  show "ordered (fst (load_resolver net noip tcponly r (m, u)))"
    using assms by (simp add: load_resolver_def Let_def map_emplace_ordered map_erase_def ordered_filter)
  show "snd (load_resolver net noip tcponly r (m, u)) = u + (if use_resolver noip r then 1 else 0)"
    by (simp add: load_resolver_def Let_def)
  have "map_of (map_erase ?k m) = (map_of m)(?k := None)"
    by (rule ext) (simp add: map_erase_def lookup_filter_key)
  then show "map_of (fst (load_resolver net noip tcponly r (m, u))) =
      (let k = ip_port net (rs_address r) in
       (map_of m)(k := if \<not> use_resolver noip r then None
                       else case map_of m k of Some c \<Rightarrow> Some c | None \<Rightarrow> Some (certifier_new r tcponly)))"
    using map_emplace_lookup [OF assms, of ?k "certifier_new r tcponly"]
    by (auto simp: load_resolver_def Let_def split: option.split)
qed

lemma fold_load_resolver:
  assumes "ordered m" "ntop_law net" "fold (load_resolver net noip tcponly) rs (m, u) = (m', u')"
  shows "ordered m' \<and> u' = u + length (filter (use_resolver noip) rs)
    \<and> map_of m' = loaded net noip tcponly (map_of m) rs"
  using assms(1,3)
proof (induction rs arbitrary: m u)
  case (Cons r rs)
  obtain m1 u1 where s: "load_resolver net noip tcponly r (m, u) = (m1, u1)" by fastforce
  note st = load_resolver_step [OF Cons.prems(1), of net noip tcponly r u, unfolded s fst_conv snd_conv]
  have ih: "ordered m'" "u' = u1 + length (filter (use_resolver noip) rs)"
    "map_of m' = loaded net noip tcponly (map_of m1) rs"
    using Cons.IH [OF st(1)] Cons.prems(2) s by simp_all
  have same: "use_resolver noip r' = use_resolver noip r"
    if "find (\<lambda>r'. ip_port net (rs_address r') = ip_port net (rs_address r)) rs = Some r'" for r'
    using that ip_port_inet [OF assms(2), of "rs_address r'" "rs_address r"]
    by (auto simp: find_Some_iff use_resolver_def)
  have "map_of m' k = loaded net noip tcponly (map_of m) (r # rs) k" for k
    using same by (auto simp: ih(3) loaded_def st(3) Let_def split: option.split)
  with ih st(2) show ?case by (simp add: fun_eq_iff)
qed (auto simp: loaded_def)

lemma loaded_at:
  assumes "ntop_law net" "r0 \<in> set rs"
  shows "\<exists>r' \<in> set rs. ip_port net (rs_address r') = ip_port net (rs_address r0)
    \<and> loaded net noip tcponly old rs (ip_port net (rs_address r0)) =
      (if \<not> use_resolver noip r0 then None
       else case old (ip_port net (rs_address r0)) of Some c \<Rightarrow> Some c | None \<Rightarrow> Some (certifier_new r' tcponly))"
proof (cases "find (\<lambda>r. ip_port net (rs_address r) = ip_port net (rs_address r0)) rs")
  case None
  then show ?thesis using assms(2) by (auto simp: find_None_iff)
next
  case (Some r')
  then have r': "r' \<in> set rs" "ip_port net (rs_address r') = ip_port net (rs_address r0)"
    by (auto simp: find_Some_iff)
  then have "use_resolver noip r' = use_resolver noip r0"
    using ip_port_inet [OF assms(1) r'(2)] by (simp add: use_resolver_def)
  then show ?thesis using r' Some by (auto simp: loaded_def)
qed

lemma load_providers_result:
  assumes "parse_resolvers_list lib net rnds file tcponly = Inr rs" "ordered (cr_providers cr)" "ntop_law net"
  obtains m where "ordered m"
    "snd (load_providers lib net rnds file noip tcponly cr) = cr\<lparr>cr_providers := m\<rparr>"
    "fst ` set m = (\<lambda>r. ip_port net (rs_address r)) ` {r \<in> set rs. use_resolver noip r}"
    "\<And>k c. map_of m k = Some c \<Longrightarrow> map_of (cr_providers cr) k = Some c \<or>
       map_of (cr_providers cr) k = None \<and>
       (\<exists>r \<in> set rs. ip_port net (rs_address r) = k \<and> c = certifier_new r tcponly)"
    "fst (load_providers lib net rnds file noip tcponly cr) =
      (if length m = length (filter (use_resolver noip) rs) then Inr ()
       else Inl (Logic_error ''DNScrypt resolvers merging failed''))"
proof -
  let ?ipp = "\<lambda>r. ip_port net (rs_address r)"
  let ?old = "map_of (cr_providers cr)"
  obtain m0 used where f: "fold (load_resolver net noip tcponly) rs (cr_providers cr, 0) = (m0, used)" by fastforce
  have l: "ordered m0" "used = length (filter (use_resolver noip) rs)"
    "map_of m0 = loaded net noip tcponly ?old rs"
    using fold_load_resolver [OF assms(2,3) f] by simp_all
  define m where "m = filter (\<lambda>(ipp, c). \<exists>r \<in> set rs. ?ipp r = ipp) m0"
  have mo: "map_of m k = (if \<exists>r \<in> set rs. ?ipp r = k then loaded net noip tcponly ?old rs k else None)" for k
    unfolding m_def lookup_filter_key [where P = "\<lambda>k. \<exists>r \<in> set rs. ?ipp r = k"] l(3) ..
  have at: "\<exists>r' \<in> set rs. ?ipp r' = ?ipp r \<and> map_of m (?ipp r) = (if \<not> use_resolver noip r then None
       else case ?old (?ipp r) of Some c \<Rightarrow> Some c | None \<Rightarrow> Some (certifier_new r' tcponly))"
    if "r \<in> set rs" for r
  proof -
    have "map_of m (?ipp r) = loaded net noip tcponly ?old rs (?ipp r)" using mo that by auto
    with loaded_at [OF assms(3) that, of noip tcponly ?old] show ?thesis by simp
  qed
  have ex: "\<exists>r \<in> set rs. ?ipp r = k" if "map_of m k \<noteq> None" for k
    using that mo [of k] by (meson option.discI)
  have "k \<in> fst ` set m \<longleftrightarrow> (\<exists>r \<in> set rs. use_resolver noip r \<and> ?ipp r = k)" for k
  proof
    assume "k \<in> fst ` set m"
    then have k: "map_of m k \<noteq> None" by (simp add: keys_iff)
    with ex obtain r where r: "r \<in> set rs" "?ipp r = k" by blast
    with at [OF r(1)] k have "use_resolver noip r" by (auto split: if_splits)
    with r show "\<exists>r \<in> set rs. use_resolver noip r \<and> ?ipp r = k" by blast
  next
    assume "\<exists>r \<in> set rs. use_resolver noip r \<and> ?ipp r = k"
    then obtain r where r: "r \<in> set rs" "use_resolver noip r" "?ipp r = k" by blast
    with at [OF r(1)] have "map_of m k \<noteq> None" by (auto split: option.splits)
    then show "k \<in> fst ` set m" by (simp add: keys_iff)
  qed
  then have keys: "fst ` set m = ?ipp ` {r \<in> set rs. use_resolver noip r}"
    by (intro set_eqI) (auto simp: image_iff)
  have entries: "?old k = Some c \<or> ?old k = None \<and> (\<exists>r \<in> set rs. ?ipp r = k \<and> c = certifier_new r tcponly)"
    if c: "map_of m k = Some c" for k c
  proof -
    obtain r where r: "r \<in> set rs" "?ipp r = k" using ex [of k] c by auto
    with at [OF r(1)] c show ?thesis by (cases "?old k") (auto split: if_splits)
  qed
  have m: "ordered m" unfolding m_def by (rule ordered_filter [OF l(1)])
  have "load_providers lib net rnds file noip tcponly cr =
      (if length m = length (filter (use_resolver noip) rs) then Inr ()
       else Inl (Logic_error ''DNScrypt resolvers merging failed''), cr\<lparr>cr_providers := m\<rparr>)"
    unfolding load_providers_def Let_def assms(1) sum.case f prod.case m_def [symmetric] l(2) by simp
  then show thesis using that [OF m _ keys entries] by simp
qed

section \<open>Requests\<close>

lemma is_dnscrypt_message_iff:
  assumes "wf_packet q" "68 < pkt_size q"
  shows "is_dnscrypt_message cert q = Inr (take 8 (content q) = cd_magic_query (c_data cert))"
proof -
  note w = wf_packetD [OF assms(1)]
  have "take 8 (content q) = slice 0 8 (slice 0 52 (pkt_bytes q))"
    using assms(2) by (simp add: content_def slice_def min_def)
  then show ?thesis
    using assms(2) w by (simp add: is_dnscrypt_message_def read_block_def load_query_header_def)
qed

text \<open>The fields of the base class that forwarding depends on.\<close>

lemma cr_respond_plain [simp]: "cr_respond cl \<lparr>em_query = q, em_session = None\<rparr> cr = Inr q"
  by (simp add: cr_respond_def split: option.split)

lemma ready_providers_Crypt:
  assumes "ordered (cr_providers cr)" "k \<in> set (ready_providers cr)"
  shows "\<exists>c. map_of (cr_providers cr) k = Some c \<and> rs_ready (cf_resolver c)"
  using assms ordered_distinct [OF assms(1)] by (fastforce simp: ready_providers_def dest: map_of_is_SomeI)

fun lift_outcome :: "outcome \<Rightarrow> coutcome" where
  "lift_outcome Dropped = Closed"
| "lift_outcome (Responded p) = Sent p"
| "lift_outcome (Forwarded ref p) = Passed (Plain ref) \<lparr>em_query = p, em_session = None\<rparr>"

lemma cr_send_upstream_plain:
  assumes "cr_providers cr = []"
  shows "cr_send_upstream cl env connect \<lparr>em_query = msg, em_session = None\<rparr> cr =
    ebind (send_upstream env (\<lambda>ref. connect (Plain ref)) msg (cr_base cr)) (\<lambda>(out, r).
      Inr (lift_outcome out, cr\<lparr>cr_base := r\<rparr>))"
proof (cases "zone_provider msg (cr_base cr)")
  case (Inr z)
  show ?thesis
  proof (cases z)
    case None
    then show ?thesis
      using Inr assms
      by (cases "random_provider env msg (cr_base cr)")
        (auto simp: cr_send_upstream_def cr_random_provider_def send_upstream_def ebind_assoc Let_def
          cr_increment_failures_def split: option.split simp del: ebind_eq_Inr_iff intro!: ebind_cong)
  next
    case (Some ref)
    then show ?thesis
      using Inr
      by (auto simp: cr_send_upstream_def cr_random_provider_def random_provider_def send_upstream_def
          ebind_assoc Let_def cr_increment_failures_def simp del: ebind_eq_Inr_iff intro!: ebind_cong)
  qed
qed (simp add: cr_send_upstream_def cr_random_provider_def send_upstream_def random_provider_def)

section \<open>Properties\<close>

text \<open>
  Queries go to DNSCrypt servers that are ready, and to nobody else: if DNSCrypt providers are
  configured and the name has no provider of its own, \<^verbatim>\<open>random_provider\<close> does not throw, chooses one
  whose certificate was accepted, and chooses none only if none is ready; it never falls back to the
  providers without encryption.
\<close>

theorem cr_random_provider_is_ready:
  assumes "ordered (cr_providers cr)" "[] \<notin> fst ` set (cr_providers cr)" "cr_providers cr \<noteq> []"
    "zone_provider q (cr_base cr) = Inr None"
  shows "\<exists>cr'. cr_random_provider env q cr = Inr (None, cr') \<and> ready_providers cr = []
    \<or> (\<exists>k c. cr_random_provider env q cr = Inr (Some (Crypt k), cr') \<and> map_of (cr_providers cr) k = Some c
         \<and> rs_ready (cf_resolver c) \<and> cr' = cr\<lparr>cr_random := k\<rparr>)"
proof (cases "ready_providers cr = []")
  case True
  then show ?thesis
    using assms(3,4) by (simp add: cr_random_provider_def cr_select_random_provider_def Let_def)
next
  case False
  define mx where "mx = (if length (ready_providers cr) > rand_max then rand_max else length (ready_providers cr))"
  define k where "k = ready_providers cr ! (e_rand env mod mx)"
  have "0 < mx" "mx \<le> length (ready_providers cr)" using False by (auto simp: mx_def rand_max_def)
  then have k: "k \<in> set (ready_providers cr)"
    unfolding k_def by (meson mod_less_divisor nth_mem order_less_le_trans)
  with assms(2) have "k \<noteq> []" by (auto simp: ready_providers_def image_iff)
  moreover from ready_providers_Crypt [OF assms(1) k] obtain c where
    c: "map_of (cr_providers cr) k = Some c" "rs_ready (cf_resolver c)" by blast
  moreover have "cr_select_random_provider env cr = cr\<lparr>cr_random := k\<rparr>"
    using False \<open>0 < mx\<close> by (simp add: cr_select_random_provider_def k_def mx_def Let_def)
  ultimately show ?thesis using assms(3,4) by (auto simp: cr_random_provider_def)
qed

definition sample_cresponder :: cresponder where
  "sample_cresponder = \<lparr>cr_base = sample_responder,
     cr_providers = [(''127.0.0.1:443'', certifier_new (sample_resolver\<lparr>rs_ready := True\<rparr>) udp)],
     cr_server = None, cr_random = []\<rparr>"

definition sample_cl :: crypt_lib where
  "sample_cl = \<lparr>cl_sodium = plain_box,
     cl_env = \<lparr>ce_time = 5, ce_random1 = 6, ce_random2 = 7, ce_uniform = \<lambda>n. n div 2\<rparr>\<rparr>"

theorem cr_random_provider_is_ready_witness:
  "\<exists>cr' k c. cr_random_provider sample_env sample_query sample_cresponder = Inr (Some (Crypt k), cr')
    \<and> map_of (cr_providers sample_cresponder) k = Some c \<and> rs_ready (cf_resolver c)"
proof -
  have "zone_provider sample_query (cr_base sample_cresponder) = Inr None"
    by (simp add: zone_provider_def sample_cresponder_def responder_eval)
  moreover have "ready_providers sample_cresponder \<noteq> []"
    by (simp add: ready_providers_def sample_cresponder_def certifier_new_def)
  moreover have "ordered (cr_providers sample_cresponder)" "[] \<notin> fst ` set (cr_providers sample_cresponder)"
    "cr_providers sample_cresponder \<noteq> []"
    by (simp_all add: sample_cresponder_def ordered_def)
  ultimately show ?thesis
    using cr_random_provider_is_ready [of sample_cresponder sample_query sample_env] by blast
qed

text \<open>
  Without DNSCrypt providers and without a server key the class behaves as its base class: on every
  message \<^verbatim>\<open>process\<close> has the same outcome and the same effect on the state, errors included.
\<close>

theorem cr_process_is_process:
  assumes "cr_server cr = None" "cr_providers cr = []"
  shows "cr_process cl env connect msg cr =
    ebind (process env (\<lambda>ref. connect (Plain ref)) msg (cr_base cr)) (\<lambda>(out, r).
      Inr (lift_outcome out, cr\<lparr>cr_base := r\<rparr>))"
proof (cases "is_dns msg")
  case True
  let ?r = "(cr_base cr)\<lparr>processed_count := processed_count (cr_base cr) + 1\<rparr>"
  show ?thesis
  proof (cases "pre_filter env msg ?r")
    case (Inr x)
    obtain fr fmsg r where x: "x = (fr, fmsg, r)" by (cases x)
    have up: "cr_send_upstream cl env connect \<lparr>em_query = msg, em_session = None\<rparr> (cr\<lparr>cr_base := r\<rparr>) =
        ebind (send_upstream env (\<lambda>ref. connect (Plain ref)) msg r) (\<lambda>(out, r).
          Inr (lift_outcome out, cr\<lparr>cr_base := r\<rparr>))"
      using cr_send_upstream_plain [of "cr\<lparr>cr_base := r\<rparr>" cl env connect msg] assms(2) by simp
    show ?thesis
      using True assms(1) Inr up
      by (simp add: x cr_process_def cr_base_process_def process_def Let_def ebind_assoc
          del: ebind_eq_Inr_iff)
  qed (use True assms(1) in \<open>simp add: cr_process_def cr_base_process_def process_def Let_def\<close>)
qed (use assms(1) in \<open>simp add: cr_process_def cr_base_process_def process_def\<close>)

theorem cr_process_is_process_witness:
  "cr_process sample_cl sample_env (\<lambda>_. True) sample_query (sample_cresponder\<lparr>cr_providers := []\<rparr>) =
    ebind (process sample_env (\<lambda>_. True) sample_query sample_responder) (\<lambda>(out, r).
      Inr (lift_outcome out, sample_cresponder\<lparr>cr_providers := [], cr_base := r\<rparr>))"
  using cr_process_is_process [of "sample_cresponder\<lparr>cr_providers := []\<rparr>" sample_cl sample_env "\<lambda>_. True" sample_query]
  by (simp add: sample_cresponder_def)

text \<open>
  C30. Loading a list of resolvers replaces the providers by the ones of the list: afterwards there is
  exactly one provider for each address that is used, ordered by address; a provider that was there
  before keeps its certifier with its certificate, the others get a new one.  It succeeds exactly if no
  two of the used resolvers have the same address; otherwise it throws a \<^verbatim>\<open>std::logic_error\<close>, after the
  providers have been replaced.
\<close>

theorem load_merges_resolvers:
  assumes "parse_resolvers_list lib net rnds file tcponly = Inr rs" "ordered (cr_providers cr)" "ntop_law net"
  shows "\<exists>m. snd (load_providers lib net rnds file noip tcponly cr) = cr\<lparr>cr_providers := m\<rparr> \<and> ordered m
    \<and> fst ` set m = (\<lambda>r. ip_port net (rs_address r)) ` {r \<in> set rs. use_resolver noip r}
    \<and> (\<forall>k c. map_of m k = Some c \<longrightarrow> map_of (cr_providers cr) k = Some c
        \<or> map_of (cr_providers cr) k = None
          \<and> (\<exists>r \<in> set rs. ip_port net (rs_address r) = k \<and> c = certifier_new r tcponly))
    \<and> fst (load_providers lib net rnds file noip tcponly cr) =
       (if distinct (map (\<lambda>r. ip_port net (rs_address r)) (filter (use_resolver noip) rs)) then Inr ()
        else Inl (Logic_error ''DNScrypt resolvers merging failed''))"
proof -
  let ?ipp = "\<lambda>r. ip_port net (rs_address r)" and ?rs = "filter (use_resolver noip) rs"
  obtain m where m: "ordered m"
    "snd (load_providers lib net rnds file noip tcponly cr) = cr\<lparr>cr_providers := m\<rparr>"
    "fst ` set m = ?ipp ` {r \<in> set rs. use_resolver noip r}"
    "\<And>k c. map_of m k = Some c \<Longrightarrow> map_of (cr_providers cr) k = Some c \<or>
       map_of (cr_providers cr) k = None \<and> (\<exists>r \<in> set rs. ?ipp r = k \<and> c = certifier_new r tcponly)"
    "fst (load_providers lib net rnds file noip tcponly cr) =
      (if length m = length ?rs then Inr () else Inl (Logic_error ''DNScrypt resolvers merging failed''))"
    by (rule load_providers_result [OF assms]) blast
  have "length m = card (set (map ?ipp ?rs))" using length_ordered [OF m(1)] m(3) by simp
  moreover have "distinct (map ?ipp ?rs) \<longleftrightarrow> card (set (map ?ipp ?rs)) = length ?rs"
    by (metis card_distinct distinct_card length_map)
  ultimately show ?thesis using m by (intro exI [of _ m]) auto
qed

theorem load_merges_resolvers_witness:
  "\<exists>file rs m. parse_resolvers_list plain_box sample_net [] file udp = Inr rs \<and> rs \<noteq> []
    \<and> snd (load_providers plain_box sample_net [] file False udp sample_cresponder)
       = sample_cresponder\<lparr>cr_providers := m\<rparr> \<and> ordered m"
proof -
  obtain inp rs where p: "parse_resolvers_list plain_box sample_net [] (Some inp) udp = Inr rs" "rs \<noteq> []"
    using save_resolvers_result [OF plain_box_hex_law, of sample_net "[sample_resolver]" "[]" udp]
    by (fastforce simp: sample_resolver_listable)
  have "ordered (cr_providers sample_cresponder)" by (simp add: sample_cresponder_def ordered_def)
  moreover have "ntop_law sample_net" by (simp add: ntop_law_def sample_net_def)
  ultimately show ?thesis using load_merges_resolvers [OF p(1)] p by blast
qed

end
