(* ===== verification/Encrypted_Service.thy ===== *)
theory Encrypted_Service
  imports Cresponder
begin

text \<open>
  The client side (\<^verbatim>\<open>certifier\<close>, \<^verbatim>\<open>encryptor\<close>) and the server side (\<^verbatim>\<open>cresponder\<close> with a server key) of the
  program against each other: how a client gets the certificate of a server, and what happens to an
  encrypted query.
\<close>

section \<open>Messages with the same content\<close>

lemma same_content:
  assumes "wf_packet p" "wf_packet q" "content q = content p"
  shows "pkt_size q = pkt_size p" "\<And>k. k < pkt_size p \<Longrightarrow> pkt_bytes q ! k = pkt_bytes p ! k"
proof -
  show s: "pkt_size q = pkt_size p" using assms length_content by metis
  show "pkt_bytes q ! k = pkt_bytes p ! k" if "k < pkt_size p" for k
    using that s arg_cong [OF assms(3), of "\<lambda>l. l ! k"] by (simp add: content_def)
qed

lemma header_content:
  assumes "wf_packet p" "wf_packet q" "content q = content p" "12 \<le> pkt_size p"
  shows "header q = header p"
proof -
  have "slice 0 12 (pkt_bytes x) = take 12 (content x)" if "12 \<le> pkt_size x" for x
    using that by (simp add: content_def min_def)
  with same_content(1) [OF assms(1-3)] assms(3,4) wf_packetD [OF assms(1)] wf_packetD [OF assms(2)]
  show ?thesis by (intro header_cong) auto
qed

lemma is_dns_content:
  assumes "wf_packet p" "wf_packet q" "content q = content p"
  shows "is_dns q = is_dns p"
  using same_content [OF assms] by (auto simp: is_dns_def)

lemma get_question_content:
  assumes "wf_packet p" "wf_packet q" "content q = content p" "12 \<le> pkt_size p" "get_question p = Inr x"
  shows "get_question q = Inr x"
proof -
  from assms(5) obtain h off owner rr where g: "header p = Inr h" "h_qdcount h = 1"
    "get_rr_question p 12 = Inr (off, owner, rr)" "x = (owner, rr_class rr, rr_type rr)"
    by (auto simp: get_question_def split: if_splits)
  note b = question_reader.rd_progress [OF assms(1) g(3)]
  have "get_rr_question q 12 = Inr (off, owner, rr)"
    by (rule question_reader.rd_local [OF assms(1,2) g(3)])
      (use same_content [OF assms(1-3)] b in auto)
  with g header_content [OF assms(1-4)] show ?thesis by (simp add: get_question_def)
qed

lemma regular_content:
  assumes "regular env r p owner qtype" "wf_packet q" "content q = content p"
  shows "regular env r q owner qtype"
proof -
  have p: "wf_packet p" "is_dns p" using assms(1) by (simp_all add: regular_def)
  then have "12 \<le> pkt_size p" by (simp add: is_dns_def)
  then show ?thesis
    using assms is_dns_content [OF p(1) assms(2,3)] get_question_content [OF p(1) assms(2,3)]
    by (auto simp: regular_def)
qed

section \<open>Certificates\<close>

text \<open>The answer of a server to the request for its certificate.\<close>

lemma host_question:
  assumes "list_all valid_label ls" "ls \<noteq> []" "length (dotted ls) \<le> 256"
  obtains q where "query_new_txt rnd (host_of ls dot) is_txt = Inr q" "wf_packet q"
    "content q = wire_query ls (if is_txt then type_txt else type_a) (word_of_nat (1 + rnd mod 65500))"
    "length (pkt_bytes q) = max_size"
proof -
  have l: "length (host_of ls dot) \<le> 256" using assms(3) by (cases dot) (simp_all add: host_of_def)
  have nul: "NUL \<notin> set (host_of ls dot)"
  proof -
    have "NUL \<notin> set (dotted ls)"
      using assms(1) by (induction ls) (auto simp: valid_label_def list_all_iff NUL_def is_dns_char_def is_digit_def)
    then show ?thesis by (auto simp: host_of_def dest: in_set_butlastD)
  qed
  then have "c_str (host_of ls dot) = host_of ls dot" by (simp add: c_str_def takeWhile_eq_all_conv, metis)
  moreover obtain q where "query_new (host_of ls dot) (if is_txt then type_txt else type_a) (word_of_nat (1 + rnd mod 65500)) = Inr q"
    "content q = wire_query ls (if is_txt then type_txt else type_a) (word_of_nat (1 + rnd mod 65500))" "wf_packet q"
    "length (pkt_bytes q) = max_size"
    by (rule query_new_host_of [OF assms(1,2) l])
  ultimately show thesis using that by (simp add: query_new_txt_def query_new_random_def)
qed

lemmas certificate_request = host_question [where is_txt = True, unfolded if_True]

lemma host_name_with_dot:
  assumes "ls \<noteq> []" "list_all valid_label ls"
  shows "host_of ls dot \<noteq> []"
    "(if last (host_of ls dot) \<noteq> CHR ''.'' then host_of ls dot @ ''.'' else host_of ls dot) = dotted ls"
proof -
  obtain ms l where ls: "ls = ms @ [l]" using assms(1) by (metis rev_exhaust)
  then have l: "valid_label l" using assms(2) by simp
  then obtain t c where t: "l = t @ [c]" "is_dns_char c"
    by (cases l rule: rev_cases) (auto simp: valid_label_def)
  have d: "dotted ls = dotted ms @ t @ [c, CHR ''.'']" by (simp add: ls t dotted_append)
  have "c \<noteq> CHR ''.''" using dot_not_dns_char [OF t(2)] .
  then show "host_of ls dot \<noteq> []"
    "(if last (host_of ls dot) \<noteq> CHR ''.'' then host_of ls dot @ ''.'' else host_of ls dot) = dotted ls"
    by (simp_all add: host_of_def d butlast_append)
qed

lemma wire_query_reads:
  assumes "content q = wire_query ls typ tid" "wf_packet q" "list_all valid_label ls" "length (dotted ls) \<le> 256"
  shows "get_question q = Inr (dotted ls, 1, typ)" "find_txt_answers q = Inr []"
    "answers_end q (question_header tid) (pkt_size q)"
    "ls \<noteq> [] \<Longrightarrow> is_dnscrypt_certificate_request (host_of ls dot) q = Inr (typ = type_txt)"
proof -
  note g = get_rr_question_wire_query [OF assms]
  show "get_question q = Inr (dotted ls, 1, typ)" "find_txt_answers q = Inr []"
    "answers_end q (question_header tid) (pkt_size q)"
    using g by (simp_all add: get_question_def find_txt_answers_def answers_end_def skip_questions_def
        skip_answers_def question_header_def question_rr_def zero_header_def)
  assume "ls \<noteq> []"
  from host_name_with_dot [OF this assms(3), of dot] g
  show "is_dnscrypt_certificate_request (host_of ls dot) q = Inr (typ = type_txt)"
    by (simp add: is_dnscrypt_certificate_request_def question_header_def question_rr_def Let_def)
qed

lemma server_sends_certificate:
  assumes "content q = wire_query ls type_txt tid" "wf_packet q" "list_all valid_label ls" "ls \<noteq> []"
    "length (dotted ls) \<le> 256" "cr_server cr = Some srv" "sr_hostname srv = host_of ls dot"
    "length (raw_signed (sr_certificate srv)) \<le> 255"
    "slice 4 4 (cd_magic_query (c_data (sr_certificate srv))) \<noteq> [0, 1, 0, 0]"
  shows "\<exists>a. cr_process cl env connect q cr = Inr (Sent a, cr) \<and> wf_packet a
    \<and> get_txt_answer a = Inr [raw_signed (sr_certificate srv)] \<and> (\<exists>i. host_type_info a = Inr i)"
proof -
  let ?raw = "raw_signed (sr_certificate srv)"
  note w = wire_query_reads [OF assms(1,2,3,5)]
  have size: "pkt_size q = 17 + length (dotted ls)" by (rule wire_query_parts(1) [OF assms(1,2)])
  obtain a where a: "set_txt_answer ?raw 10 q = Inr a" "wf_packet a" "get_txt_answer a = Inr [?raw]"
    "get_question a = get_question q"
    using set_txt_answer_result [OF assms(2) w(3) w(2) assms(8), of 10] size assms(5,8)
    by (auto simp: max_size_eq)
  have enc: "is_dnscrypt_message (sr_certificate srv) q = Inr False"
  proof (cases "68 < pkt_size q")
    case True
    have "slice 4 4 (take 8 (content q)) = [0, 1, 0, 0]"
      using wire_query_is_dns(2) [OF assms(1,2)] True by (simp add: content_def slice_def take_drop min_def)
    with assms(9) is_dnscrypt_message_iff [OF assms(2) True] show ?thesis by auto
  qed (simp add: is_dnscrypt_message_def)
  have p: "cr_process cl env connect q cr = Inr (Sent a, cr)"
    using enc w(1) w(4) [OF assms(4), of dot] a(1) wire_query_is_dns(1) [OF assms(1,2)] assms(6,7)
    by (simp add: cr_process_def del: ebind_eq_Inr_iff)
  from a(4) w(1) obtain h off o' rr where "header a = Inr h" "h_qdcount h = 1"
    "get_rr_question a 12 = Inr (off, o', rr)"
    by (auto simp: get_question_def split: if_splits)
  then have "\<exists>i. host_type_info a = Inr i" by (simp add: host_type_info_def)
  with p a show ?thesis by blast
qed

text \<open>The certificate of a server makes a resolver ready that has the key of the provider.\<close>

lemma server_certificate_accepted:
  assumes cert: "certificate_new lib tnow (rs_pubkey r) (raw_signed cert) = Inr cert"
    and server: "server_cipher dec = cert_cipher cert"
      "server_publickey (c_data cert) = scalarmult_base lib (crypt_secretkey dec)"
    and keys: "ephemeral_keys (rs_encryptor r)"
      "\<forall>sk. box_beforenm lib (cert_cipher cert) (server_publickey (c_data cert)) sk \<noteq> None"
  obtains r' where "find_valid_certificate lib tnow [raw_signed cert] r = (Inr True, r')" "rs_ready r'"
    "magic_query (rs_encryptor r') = cd_magic_query (c_data cert)" "paired lib (rs_encryptor r') dec"
    "rs_proto r' = rs_proto r" "rs_address r' = rs_address r"
proof -
  have best: "best_certificate lib tnow (rs_pubkey r) [raw_signed cert] None = Some cert"
    using cert by simp
  note f = certificate_new_facts [OF cert]
  define enc where "enc = (rs_encryptor r)\<lparr>magic_query := cd_magic_query (c_data cert),
    e_cipher := cert_cipher cert, publickey := server_publickey (c_data cert)\<rparr>"
  define r' where "r' = r\<lparr>rs_ready := True, rs_resolver_pubkey := server_publickey (c_data cert),
    rs_magic_query := cd_magic_query (c_data cert), rs_encryptor := enc\<rparr>"
  have "find_valid_certificate lib tnow [raw_signed cert] r = (Inr True, r')"
    using best f(1) keys(1)
    by (simp add: find_valid_certificate_def Let_def set_resolver_publickey_def set_magic_query_def r'_def enc_def)
  moreover have "paired lib enc dec" using keys server f(2) by (simp add: paired_def enc_def)
  ultimately show thesis using that by (simp add: r'_def enc_def)
qed

section \<open>Properties\<close>

text \<open>
  C8. Client and server of the program find each other: if a certifier that may still make a request is
  started for the name of a server whose certificate the key of the provider has signed, is valid now and
  names the key and the cipher of the server, then it sends a query; the server answers it with its
  certificate; and the response makes the resolver ready, with the magic of the certificate and an
  encryptor that is paired with the server, so that encrypted messages are exchanged correctly.  The
  bytes 4 to 7 of the magic must not be the ones of the query, which the server would otherwise take for an
  encrypted message.
\<close>

theorem certificate_exchange:
  assumes names: "list_all valid_label ls" "ls \<noteq> []" "length (dotted ls) \<le> 256"
      "rs_host_name (cf_resolver c) = host_of ls d1" "sr_hostname srv = host_of ls d2"
    and idle: "\<not> upstream_active c" "cf_attempts c \<le> 4"
    and cert: "certificate_new lib tnow (rs_pubkey (cf_resolver c)) (raw_signed (sr_certificate srv))
        = Inr (sr_certificate srv)" "length (raw_signed (sr_certificate srv)) \<le> 255"
      "slice 4 4 (cd_magic_query (c_data (sr_certificate srv))) \<noteq> [0, 1, 0, 0]"
    and server: "cr_server cr = Some srv" "server_cipher (sr_decryptor srv) = cert_cipher (sr_certificate srv)"
      "server_publickey (c_data (sr_certificate srv)) = scalarmult_base lib (crypt_secretkey (sr_decryptor srv))"
    and keys: "ephemeral_keys (rs_encryptor (cf_resolver c))"
      "\<forall>sk. box_beforenm lib (cert_cipher (sr_certificate srv))
         (server_publickey (c_data (sr_certificate srv))) sk \<noteq> None"
  shows "\<exists>q a c1 c2. certifier_start rnd None c = (Inr [], c1)
    \<and> cf_upstream c1 = Some \<lparr>ur_message = q, ur_active = True\<rparr>
    \<and> cr_process cl env connect q cr = Inr (Sent a, cr)
    \<and> process_response lib tnow u a c1 = (Inr (), c2) \<and> rs_ready (cf_resolver c2)
    \<and> magic_query (rs_encryptor (cf_resolver c2)) = cd_magic_query (c_data (sr_certificate srv))
    \<and> paired lib (rs_encryptor (cf_resolver c2)) (sr_decryptor srv)"
proof -
  let ?cert = "sr_certificate srv" and ?r = "cf_resolver c"
  obtain q where q: "query_new_txt rnd (host_of ls d1) True = Inr q" "wf_packet q"
    "content q = wire_query ls type_txt (word_of_nat (1 + rnd mod 65500))"
    by (rule certificate_request [OF names(1-3)])
  define c1 where "c1 = c\<lparr>cf_upstream := Some \<lparr>ur_message = q, ur_active = True\<rparr>, cf_attempts := cf_attempts c + 1\<rparr>"
  have s: "certifier_start rnd None c = (Inr [], c1)"
    using idle q(1) names(4) by (simp add: certifier_start_def certifier_update_def c1_def)
  obtain a i where a: "cr_process cl env connect q cr = Inr (Sent a, cr)"
    "get_txt_answer a = Inr [raw_signed ?cert]" "host_type_info a = Inr i"
    using server_sends_certificate [OF q(3,2) names(1-3) server(1) names(5) cert(2,3), of cl env connect] by blast
  obtain r' where r': "find_valid_certificate lib tnow [raw_signed ?cert] ?r = (Inr True, r')" "rs_ready r'"
    "magic_query (rs_encryptor r') = cd_magic_query (c_data ?cert)" "paired lib (rs_encryptor r') (sr_decryptor srv)"
    using server_certificate_accepted [OF cert(1) server(2,3) keys] by blast
  obtain c2 where c2: "process_response lib tnow u a c1 = (Inr (), c2)" "cf_resolver c2 = r'"
    using a r'(1) by (auto simp: process_response_def c1_def)
  then show ?thesis
    using s a(1) r' by (auto simp: c1_def)
qed

definition sample_cert :: certificate where
  "sample_cert = \<lparr>c_version = load_version (take 8 (sample_signed 1 7)),
     c_data = load_certificate_data (drop 72 (sample_signed 1 7)), raw_signed = sample_signed 1 7\<rparr>"

definition sample_server :: server_responder where
  "sample_server = \<lparr>sr_decryptor = plain_server, sr_certificate = sample_cert,
     sr_hostname = ''2.dnscrypt-cert.example.org.''\<rparr>"

lemma sample_cert_facts:
  "certificate_new plain_box 5 pk (raw_signed sample_cert) = Inr sample_cert"
  "length (raw_signed sample_cert) = 124" "cd_magic_query (c_data sample_cert) = replicate 8 1"
  "server_publickey (c_data sample_cert) = replicate 32 0" "cert_cipher sample_cert = xsalsa20poly1305"
  by (simp_all add: sample_cert_def certificate_new_def sample_signed_def Let_def cert_parse_version_def
      load_version_def cert_magic_cert_def str_bytes_def slice_def plain_box_def load_certificate_data_def
      cert_ts_def be_u32_def load_u32_def htonl_def cert_cipher_def)

theorem certificate_exchange_witness:
  "\<exists>q a c1 c2. certifier_start 3 None (certifier_new sample_resolver udp) = (Inr [], c1)
    \<and> cf_upstream c1 = Some \<lparr>ur_message = q, ur_active = True\<rparr>
    \<and> cr_process sample_cl sample_env (\<lambda>_. True) q (sample_cresponder\<lparr>cr_server := Some sample_server\<rparr>)
       = Inr (Sent a, sample_cresponder\<lparr>cr_server := Some sample_server\<rparr>)
    \<and> process_response plain_box 5 50 a c1 = (Inr (), c2) \<and> rs_ready (cf_resolver c2)
    \<and> paired plain_box (rs_encryptor (cf_resolver c2)) plain_server"
proof -
  let ?c = "certifier_new sample_resolver udp" and ?cr = "sample_cresponder\<lparr>cr_server := Some sample_server\<rparr>"
  let ?ls = "[''2'', ''dnscrypt-cert'', ''example'', ''org'']"
  have n: "list_all valid_label ?ls" "length (dotted ?ls) \<le> 256"
    "rs_host_name (cf_resolver ?c) = host_of ?ls False" "sr_hostname sample_server = host_of ?ls True"
    by (simp_all add: valid_label_def is_dns_char_def is_digit_def certifier_new_def sample_resolver_def
        resolver_dummy_def resolver_new_def host_of_def sample_server_def)
  have c: "\<not> upstream_active ?c" "cf_attempts ?c \<le> 4" "ephemeral_keys (rs_encryptor (cf_resolver ?c))"
    by (simp_all add: upstream_active_def certifier_new_def sample_resolver_def resolver_dummy_def
        resolver_new_def encryptor_new_def)
  have "sr_certificate sample_server = sample_cert" "sr_decryptor sample_server = plain_server"
    "server_cipher plain_server = xsalsa20poly1305" "scalarmult_base plain_box sk = replicate 32 0"
    "box_beforenm plain_box ci pk sk \<noteq> None" for sk ci pk
    by (simp_all add: sample_server_def plain_server_def server_encryptor_def server_cipher_def is_chacha_def
        plain_box_def)
  then show ?thesis
    using certificate_exchange [OF n(1) _ n(2,3,4) c(1,2), of plain_box 5 ?cr 3 sample_cl sample_env "\<lambda>_. True" 50]
      c(3) sample_cert_facts by (fastforce simp: slice_def replicate_numeral)
qed

text \<open>
  C3. The way of an encrypted query: a query of a paired client is decrypted by the server and treated as
  the query itself; if it is forwarded to a provider without encryption, the provider gets exactly the
  query, and the answer that is passed down, whatever it is, is encrypted for this client, which decrypts
  it to exactly the answer; if there is no provider, the client decrypts what it gets to its own query
  with the code SERVFAIL.
\<close>

theorem encrypted_query_service:
  assumes laws: "sodium_laws lib" and pair: "paired lib enc (sr_decryptor srv)"
    and server: "cr_server cr = Some srv" "magic_query enc = cd_magic_query (c_data (sr_certificate srv))"
    and msg: "wf_packet msg" "max_size \<le> length (pkt_bytes msg)" "12 \<le> pkt_size msg" "pkt_size msg + 78 \<le> max_size"
    and rnd: "\<forall>n > 0. ce_uniform ce n < n"
  shows "\<exists>q m k. curve lib ce enc msg = Inr (env_nonce ce, q) \<and> content m = content msg
    \<and> cr_process \<lparr>cl_sodium = lib, cl_env = ce'\<rparr> env connect q cr = cr_base_process \<lparr>cl_sodium = lib, cl_env = ce'\<rparr>
        env connect \<lparr>em_query = m, em_session = Some (k, env_nonce ce)\<rparr> cr
    \<and> (\<forall>req. em_session req = Some (k, env_nonce ce) \<longrightarrow>
        (\<forall>ref env' answer cr1 out cr2. cr_server cr1 = Some srv \<and> wf_packet answer
           \<and> max_size \<le> length (pkt_bytes answer) \<and> 12 \<le> pkt_size answer \<and> pkt_size answer + 78 \<le> max_size
           \<and> cr_pass_answer_downstream \<lparr>cl_sodium = lib, cl_env = ce'\<rparr> env' (Plain ref) req answer cr1 = Inr (Sent out, cr2)
           \<longrightarrow> (\<exists>r. uncurve lib enc (env_nonce ce) out = Inr r \<and> content r = content answer)))
    \<and> (\<forall>h cr1 cr2. cr_random_provider env m cr1 = Inr (None, cr2) \<and> cr_server cr2 = Some srv
         \<and> header m = Inr h \<longrightarrow>
        (\<exists>out r resp. cr_send_upstream \<lparr>cl_sodium = lib, cl_env = ce'\<rparr> env connect
             \<lparr>em_query = m, em_session = Some (k, env_nonce ce)\<rparr> cr1 = Inr (Sent out, cr2)
           \<and> uncurve lib enc (env_nonce ce) out = Inr r \<and> content r = content resp
           \<and> updates_header m (Inr resp) (h\<lparr>h_rcode := rcode_word servfail, h_qr := True\<rparr>)))"
proof -
  let ?cl = "\<lparr>cl_sodium = lib, cl_env = ce'\<rparr>" and ?n = "env_nonce ce"
  obtain q k m where q: "curve lib ce enc msg = Inr (?n, q)" "wf_packet q" "68 < pkt_size q"
    "take 8 (content q) = magic_query enc" "server_uncurve lib (sr_decryptor srv) q = Inr (k, ?n, m)"
    "content m = content msg" "wf_packet m" "length (pkt_bytes m) = length (pkt_bytes msg)"
    "session_key lib enc (sr_decryptor srv) ?n k"
    by (rule encrypted_query [OF laws pair msg rnd])
  have p: "cr_process ?cl env connect q cr
      = cr_base_process ?cl env connect \<lparr>em_query = m, em_session = Some (k, ?n)\<rparr> cr"
    using is_dnscrypt_message_iff [OF q(2,3), of "sr_certificate srv"] q(4,5) server
    by (simp add: cr_process_def del: ebind_eq_Inr_iff)
  have resp: "\<exists>r r'. server_curve lib ce' (sr_decryptor srv) ?n k a = Inr r \<and> uncurve lib enc ?n r = Inr r'
      \<and> content r' = content a"
    if "wf_packet a" "max_size \<le> length (pkt_bytes a)" "12 \<le> pkt_size a" "pkt_size a + 78 \<le> max_size" for a
    by (rule encrypted_response [OF laws pair q(9) length_env_nonce that])
  have down: "\<exists>r. uncurve lib enc ?n out = Inr r \<and> content r = content a"
    if "em_session req = Some (k, ?n)" "cr_server cr1 = Some srv" "wf_packet a" "max_size \<le> length (pkt_bytes a)"
      "12 \<le> pkt_size a" "pkt_size a + 78 \<le> max_size"
      "cr_pass_answer_downstream ?cl env' (Plain ref) req a cr1 = Inr (Sent out, cr2)"
    for req cr1 a env' ref out cr2
    using resp [OF that(3-6)] that(1,2,7)
    by (auto simp: cr_pass_answer_downstream_def upstream_session_def cr_respond_def Let_def)
  have fail: "\<exists>out r s. cr_send_upstream ?cl env connect \<lparr>em_query = m, em_session = Some (k, ?n)\<rparr> cr1 = Inr (Sent out, cr2)
      \<and> uncurve lib enc ?n out = Inr r \<and> content r = content s
      \<and> updates_header m (Inr s) (h\<lparr>h_rcode := rcode_word servfail, h_qr := True\<rparr>)"
    if a: "cr_random_provider env m cr1 = Inr (None, cr2)" "cr_server cr2 = Some srv" "header m = Inr h"
    for cr1 cr2 h
  proof -
    obtain s where s: "mark_servfail m = Inr s"
      using mark_servfail_updates [OF a(3)] by (auto elim: updates_headerD)
    have u: "updates_header m (Inr s) (h\<lparr>h_rcode := rcode_word servfail, h_qr := True\<rparr>)"
      using mark_servfail_updates [OF a(3)] s by simp
    then have "pkt_size s = pkt_size m" "length (pkt_bytes s) = length (pkt_bytes m)"
      by (auto elim: updates_headerD)
    moreover have "pkt_size m = pkt_size msg" using q(6,7) msg(1) length_content by metis
    ultimately have "wf_packet s" "max_size \<le> length (pkt_bytes s)" "12 \<le> pkt_size s" "pkt_size s + 78 \<le> max_size"
      using q(7,8) msg by (auto simp: wf_packet_def)
    from resp [OF this] a s u show ?thesis
      by (auto simp: cr_send_upstream_def cr_respond_def)
  qed
  show ?thesis using q(1,6) p down fail by blast
qed

lemma plain_client_server:
  "paired plain_box plain_client (sr_decryptor sample_server)"
  "magic_query plain_client = cd_magic_query (c_data (sr_certificate sample_server))"
  using plain_paired sample_cert_facts(3)
  by (simp_all add: sample_server_def plain_client_def set_magic_query_def)

theorem encrypted_query_service_witness:
  "\<exists>q m k. curve plain_box (cl_env sample_cl) plain_client (query_of_bytes (replicate 12 9)) = Inr (env_nonce (cl_env sample_cl), q)
    \<and> content m = replicate 12 9
    \<and> cr_process sample_cl sample_env (\<lambda>_. True) q (sample_cresponder\<lparr>cr_server := Some sample_server\<rparr>)
      = cr_base_process sample_cl sample_env (\<lambda>_. True)
          \<lparr>em_query = m, em_session = Some (k, env_nonce (cl_env sample_cl))\<rparr>
          (sample_cresponder\<lparr>cr_server := Some sample_server\<rparr>)"
proof -
  let ?cr = "sample_cresponder\<lparr>cr_server := Some sample_server\<rparr>"
  have "length (replicate 12 (9::byte)) \<le> max_size" by (simp add: max_size_eq)
  note f = query_of_bytes_facts [OF this]
  have cl: "sample_cl = \<lparr>cl_sodium = plain_box, cl_env = cl_env sample_cl\<rparr>" by (simp add: sample_cl_def)
  have "\<forall>n > 0. ce_uniform (cl_env sample_cl) n < n" by (simp add: sample_cl_def)
  from encrypted_query_service [OF plain_box_laws plain_client_server(1) _ plain_client_server(2) f(1) _ _ _ this,
      of ?cr "cl_env sample_cl" sample_env "\<lambda>_. True"] f(2-4) cl
  show ?thesis by (simp add: max_size_eq) metis
qed

text \<open>
  C40. Not every answer to an encrypted query is encrypted: if the name is blocked, the client gets the
  decrypted query with the code REFUSED back in the clear (the filters work on a copy of the message that
  has lost the session; the same holds for answers from the cache and the hosts file), and the answer of a
  DNSCrypt provider is sent in the clear, too, because the message that was sent upstream is another one
  than the request.
\<close>

theorem encrypted_query_answered_in_clear:
  assumes "cr_server cr = Some srv" "is_dnscrypt_message (sr_certificate srv) q = Inr True"
    "server_uncurve (cl_sodium cl) (sr_decryptor srv) q = Inr (k, n, m)"
    "regular env (cr_base cr) m owner qtype" "header m = Inr h"
  shows "(blocked (cr_base cr) (strip_dot owner) qtype \<longrightarrow>
      (\<exists>out cr'. cr_process cl env connect q cr = Inr (Sent out, cr')
        \<and> updates_header m (Inr out) (h\<lparr>h_rcode := rcode_word refused, h_qr := True\<rparr>)
        \<and> get_question out = get_question m))
    \<and> (\<forall>out cr1 cr2 answer. cr_pass_answer_downstream cl env (Crypt name)
         \<lparr>em_query = m, em_session = Some (k, n)\<rparr> answer cr1 = Inr (Sent out, cr2) \<longrightarrow> out = answer)"
proof (intro conjI impI)
  let ?r = "counted (cr_base cr)"
  assume b: "blocked (cr_base cr) (strip_dot owner) qtype"
  obtain out where out: "mark_refused m = Inr out"
    using mark_refused_updates [OF assms(5)] by (auto elim: updates_headerD)
  have u: "updates_header m (Inr out) (h\<lparr>h_rcode := rcode_word refused, h_qr := True\<rparr>)"
    using mark_refused_updates [OF assms(5)] out by simp
  have g: "get_question out = get_question m"
    using get_question_updates_header [OF _ assms(5) u] assms(4) by (auto simp: regular_def)
  have "regular env ?r m owner qtype" "blocked ?r (strip_dot owner) qtype"
    using assms(4) b by (simp_all add: regular_def blocked_def)
  from pre_filter_eq [OF this(1)] this(2) out
  have f: "pre_filter env m ?r = Inr (1, out, ?r\<lparr>blacklisted_count := blacklisted_count ?r + 1\<rparr>)" by simp
  have "cr_process cl env connect q cr
      = Inr (Sent out, cr\<lparr>cr_base := ?r\<lparr>blacklisted_count := blacklisted_count ?r + 1\<rparr>\<rparr>)"
    using assms(1-4) f by (simp add: cr_process_def cr_base_process_def regular_def)
  with u g show "\<exists>out cr'. cr_process cl env connect q cr = Inr (Sent out, cr')
      \<and> updates_header m (Inr out) (h\<lparr>h_rcode := rcode_word refused, h_qr := True\<rparr>)
      \<and> get_question out = get_question m" by blast
qed (auto simp: cr_pass_answer_downstream_def upstream_session_def cr_respond_def Let_def split: option.splits)

theorem encrypted_query_answered_in_clear_witness:
  "\<exists>q out cr'. cr_process sample_cl sample_env (\<lambda>_. True) q (sample_cresponder\<lparr>cr_server := Some sample_server,
      cr_base := sample_responder\<lparr>blacklist := empty_filter\<lparr>f_exact := [''a'']\<rparr>\<rparr>\<rparr>) = Inr (Sent out, cr')
    \<and> curve plain_box (cl_env sample_cl) plain_client (query_of_bytes (content sample_query))
      = Inr (env_nonce (cl_env sample_cl), q)
    \<and> get_question out = Inr (''a.'', 1, 1)"
proof -
  let ?r = "sample_responder\<lparr>blacklist := empty_filter\<lparr>f_exact := [''a'']\<rparr>\<rparr>"
  let ?cr = "sample_cresponder\<lparr>cr_server := Some sample_server, cr_base := ?r\<rparr>"
  let ?msg = "query_of_bytes (content sample_query)" and ?ce = "cl_env sample_cl"
  have len: "length (content sample_query) = 19" using sample_query_facts(1) by (simp add: sample_query_def packet_of_def)
  then have "length (content sample_query) \<le> max_size" by (simp add: max_size_eq)
  note f = query_of_bytes_facts [OF this]
  have rnd: "\<forall>n > 0. ce_uniform ?ce n < n" by (simp add: sample_cl_def)
  obtain q k m where q: "curve plain_box ?ce plain_client ?msg = Inr (env_nonce ?ce, q)" "wf_packet q"
    "68 < pkt_size q" "take 8 (content q) = magic_query plain_client"
    "server_uncurve plain_box (sr_decryptor sample_server) q = Inr (k, env_nonce ?ce, m)"
    "content m = content ?msg" "wf_packet m"
    by (rule encrypted_query [OF plain_box_laws plain_client_server(1) f(1) _ _ _ rnd])
      (use f(2,3) len in \<open>auto simp: max_size_eq\<close>)
  have d: "is_dnscrypt_message (sr_certificate sample_server) q = Inr True"
    using is_dnscrypt_message_iff [OF q(2,3)] q(4) plain_client_server(2) by simp
  have c: "content m = content sample_query" using q(6) f(4) by simp
  have "regular sample_env ?r sample_query ''a.'' 1"
    using sample_regular by (simp add: regular_def wf_filter_def empty_filter_def wf_words_def)
  then have r: "regular sample_env ?r m ''a.'' 1" by (rule regular_content [OF _ q(7) c])
  have g: "get_question m = Inr (''a.'', 1, 1)"
    by (rule get_question_content [OF sample_query_facts(1) q(7) c _ sample_query_facts(3)])
      (simp add: sample_query_def packet_of_def)
  then obtain h where h: "header m = Inr h" by (auto simp: get_question_def)
  have b: "blocked ?r (strip_dot ''a.'') 1"
    by (simp add: blocked_def responder_eval strip_dot_def scan_def rule_matches_def ascii_tolower_def to_lower_def)
  have cl: "server_uncurve (cl_sodium sample_cl) (sr_decryptor sample_server) q = Inr (k, env_nonce ?ce, m)"
    using q(5) by (simp add: sample_cl_def)
  have cr: "cr_server ?cr = Some sample_server" "cr_base ?cr = ?r" by simp_all
  have "\<exists>out cr'. cr_process sample_cl sample_env (\<lambda>_. True) q ?cr = Inr (Sent out, cr')
      \<and> get_question out = get_question m"
  proof -
    have r': "regular sample_env (cr_base ?cr) m ''a.'' 1" "blocked (cr_base ?cr) (strip_dot ''a.'') 1"
      using r b by simp_all
    from encrypted_query_answered_in_clear [OF cr(1) d cl r'(1) h, THEN conjunct1, THEN mp, OF r'(2)]
    show ?thesis by blast
  qed
  then show ?thesis unfolding g using q(1) by blast
qed

end
