(* ===== verification/Encrypted_Clients.thy ===== *)
theory Encrypted_Clients
  imports Client_Service Encrypted_Service
begin

text \<open>
  The service of clients of the encrypting daemon: the listeners with the \<^verbatim>\<open>dns::crypt::cresponder\<close>
  behind them.  Clients may ask in the clear, ask for the certificate, or ask encrypted.
\<close>

section \<open>Memory safety of the encrypting responder\<close>

text \<open>A decrypted query leaves room in its buffer for the header of the response.\<close>

lemma server_uncurve_ensures:
  assumes laws: "sodium_laws lib" and wf: "wf_packet q"
  shows "ensures (server_uncurve lib keys q) (\<lambda>(k, n, q'). length n = 12 \<and> wf_packet q' \<and> 12 \<le> pkt_size q' \<and> pkt_size q' + 68 \<le> length (pkt_bytes q'))"
proof (cases "pkt_size q \<le> query_head_size")
  case False
  let ?B = "pkt_bytes q"
  have B: "68 < pkt_size q" "pkt_size q \<le> length ?B" "length ?B < 65536" using False wf_packetD [OF wf] by simp_all
  have tail: "ensures (ebind (write_block ?B 0 out) (\<lambda>b. ebind (find_end b (pkt_size q - 68)) (\<lambda>n.
      if n < 12 then Inl (Runtime_error ''too short decrypted DNS message'')
      else Inr (k, h, set_size (cast_u16 n) (q\<lparr>pkt_bytes := b\<rparr>)))))
      (\<lambda>(k, n, q'). length n = 12 \<and> wf_packet q' \<and> 12 \<le> pkt_size q' \<and> pkt_size q' + 68 \<le> length (pkt_bytes q'))"
    if "box_open_easy_afternm lib c (slice 52 (pkt_size q - 52) ?B) n k' = Some out" "length h = 12" for c n k k' h out
  proof -
    have o: "length out \<le> length ?B" using sodium_lawsD(2) [OF laws that(1)] B by simp
    have "ensures (find_end (overwrite 0 out ?B) (pkt_size q - 68)) (\<lambda>i. i < pkt_size q - 68 \<or> i = 0)"
      by (rule find_end_ensures) (use B o in \<open>auto simp: overwrite_def\<close>)
    then show ?thesis
      using B o that(2) by (auto simp: write_block_def ensures_iff wf_packet_def set_size_def intro!: ensures_ebind)
  qed
  have half: "length (first_half (full_nonce_1 n)) = 12" for n
    by (simp add: first_half_def full_nonce_1_def)
  show ?thesis
    unfolding server_uncurve_def Let_def if_not_P [OF False] using B
    by (auto simp: read_block_def split: option.split simp del: slice_zero intro!: tail half)
qed (simp add: server_uncurve_def)

lemma seal_tail_ensures:
  assumes laws: "sodium_laws lib" and room: "plen + 48 \<le> length b" "length rh = 32"
  shows "ensures (ebind (read_block b 48 plen) (\<lambda>inp.
      case box_easy_afternm lib c inp n k of
        None \<Rightarrow> Inl (Runtime_error ''encryption failed'')
      | Some out \<Rightarrow>
          ebind (write_block b sizeof_response_header out) (\<lambda>b. ebind (write_block b 0 rh) (\<lambda>b. Inr (f b))))) (\<lambda>_. True)"
  using room sodium_lawsD(5) [OF laws] by (auto simp: read_block_def write_block_def split: option.split)

lemma safe_server_curve:
  assumes laws: "sodium_laws lib" and q: "wf_packet q" "12 \<le> pkt_size q" "pkt_size q + 68 \<le> length (pkt_bytes q)"
    and nonce: "length nonce = 12"
  shows "safe (server_curve lib ce keys nonce k q)"
proof -
  let ?len = "pkt_size q" and ?B = "pkt_bytes q"
  let ?rnd = "\<lambda>ub. crypto_random lib nonce (crypt_secretkey keys) mod ub"
  have B: "length ?B < 65536" "reserved_size q = length ?B"
    using q(1) by (auto simp: wf_packet_def reserved_size_def)
  define mx where "mx = min (length ?B) (?len * 3 + 204)"
  have mx: "70 \<le> mx" "mx \<le> length ?B" using q by (auto simp: mx_def)
  define b1 where "b1 = overwrite 48 (take ?len ?B) ?B"
  have lb1: "length b1 = length ?B" using q by (simp add: b1_def)
  have pad: "ensures (pad_buffer b1 48 ?len (mx - 70) ?rnd) (\<lambda>(b', plen). length b' = length b1 \<and> plen \<le> max ?len (mx - 70))"
    by (rule pad_buffer_ensures) (use mx lb1 q B in auto)
  have sub: "u32_sub mx 70 = mx - 70" using mx B by (simp add: u32_sub_eq)
  have hd: "length (store_response_header \<lparr>rh_magic = magic_response, rh_client_nonce = first_half (full_nonce_2 nonce (env_nonce ce)),
      rh_server_nonce = second_half (full_nonce_2 nonce (env_nonce ce))\<rparr>) = 32"
    using nonce by (simp add: store_response_header_def)
  have eq: "server_curve lib ce keys nonce k q = ebind (pad_buffer b1 48 ?len (mx - 70) ?rnd) (\<lambda>(b, plen).
      ebind (read_block b 48 plen) (\<lambda>inp.
      case box_easy_afternm lib (server_cipher keys) inp (full_nonce_2 nonce (env_nonce ce)) k of
        None \<Rightarrow> Inl (Runtime_error ''encryption failed'')
      | Some out \<Rightarrow>
          ebind (write_block b sizeof_response_header out) (\<lambda>b. ebind (write_block b 0 (store_response_header
            \<lparr>rh_magic = magic_response, rh_client_nonce = first_half (full_nonce_2 nonce (env_nonce ce)),
             rh_server_nonce = second_half (full_nonce_2 nonce (env_nonce ce))\<rparr>)) (\<lambda>b.
            Inr (set_size (cast_u16 (plen + response_head_size)) (q\<lparr>pkt_bytes := b\<rparr>))))))"
    using q B sub by (simp add: server_curve_def Let_def read_block_def [of ?B] write_block_def [of ?B] b1_def mx_def)
  show ?thesis
    unfolding eq
  proof (rule ensures_safe, rule ensures_ebind [OF pad])
    fix x :: "byte list \<times> nat"
    assume x: "case x of (b', plen) \<Rightarrow> length b' = length b1 \<and> plen \<le> max ?len (mx - 70)"
    obtain b plen where [simp]: "x = (b, plen)" by (cases x)
    have bp: "length b = length b1" "plen \<le> max ?len (mx - 70)" using x by simp_all
    show "ensures (case x of (b, plen) \<Rightarrow> ebind (read_block b 48 plen) (\<lambda>inp.
      case box_easy_afternm lib (server_cipher keys) inp (full_nonce_2 nonce (env_nonce ce)) k of
        None \<Rightarrow> Inl (Runtime_error ''encryption failed'')
      | Some out \<Rightarrow>
          ebind (write_block b sizeof_response_header out) (\<lambda>b. ebind (write_block b 0 (store_response_header
            \<lparr>rh_magic = magic_response, rh_client_nonce = first_half (full_nonce_2 nonce (env_nonce ce)),
             rh_server_nonce = second_half (full_nonce_2 nonce (env_nonce ce))\<rparr>)) (\<lambda>b.
            Inr (set_size (cast_u16 (plen + response_head_size)) (q\<lparr>pkt_bytes := b\<rparr>)))))) (\<lambda>_. True)"
      unfolding \<open>x = (b, plen)\<close> split_conv
      by (rule seal_tail_ensures [OF laws _ hd]) (use bp mx lb1 q in auto)
  qed
qed

text \<open>A request that can be answered encrypted: its message leaves room in its buffer.\<close>

definition has_room :: "emessage \<Rightarrow> bool" where
  "has_room req \<longleftrightarrow> (\<forall>k nonce. em_session req = Some (k, nonce) \<longrightarrow>
     length nonce = 12 \<and> 12 \<le> pkt_size (em_query req) \<and> pkt_size (em_query req) + 68 \<le> length (pkt_bytes (em_query req)))"

lemma safe_cr_respond:
  assumes "sodium_laws (cl_sodium cl)" "wf_packet (em_query req)" "has_room req"
  shows "safe (cr_respond cl req cr)"
  using assms by (auto simp: cr_respond_def has_room_def intro!: safe_server_curve split: option.split prod.split)

lemma servfail_keeps:
  assumes "12 \<le> length (pkt_bytes p)" "mark_servfail p = Inr q" "wf_packet p"
  shows "wf_packet q" "pkt_size q = pkt_size p" "length (pkt_bytes q) = length (pkt_bytes p)"
proof -
  obtain h where "header p = Inr h" using assms(1) by (simp add: header_eq)
  from mark_servfail_updates [OF this] assms(2,3)
  show "wf_packet q" "pkt_size q = pkt_size p" "length (pkt_bytes q) = length (pkt_bytes p)"
    by (auto simp: updates_header_def wf_packet_def)
qed

lemma safe_servfail_reply:
  assumes laws: "sodium_laws (cl_sodium cl)" and req: "wf_packet (em_query req)" "12 \<le> length (pkt_bytes (em_query req))" "has_room req"
  shows "safe (ebind (mark_servfail (em_query req)) (\<lambda>resp. ebind (cr_respond cl (req\<lparr>em_query := resp\<rparr>) cr) (\<lambda>out. Inr (f out))))"
proof (rule safe_ebind)
  show "safe (mark_servfail (em_query req))" by (rule safe_mark [OF req(2)])
  fix resp assume r: "mark_servfail (em_query req) = Inr resp"
  note k = servfail_keeps [OF req(2) r req(1)]
  have "has_room (req\<lparr>em_query := resp\<rparr>)" using req(3) k by (simp add: has_room_def)
  then have "safe (cr_respond cl (req\<lparr>em_query := resp\<rparr>) cr)" using safe_cr_respond [OF laws] k(1) by simp
  then show "safe (ebind (cr_respond cl (req\<lparr>em_query := resp\<rparr>) cr) (\<lambda>out. Inr (f out)))" by auto
qed

lemma safe_cr_random_provider:
  assumes "wf_packet p" "12 \<le> length (pkt_bytes p)"
  shows "safe (cr_random_provider env p cr)"
  using safe_hostname [OF assms(1)] safe_random_provider [OF assms]
  unfolding cr_random_provider_def zone_provider_def Let_def
  by (auto simp: assms intro!: safe_hostname split: option.split)

lemma safe_cr_send_upstream:
  assumes laws: "sodium_laws (cl_sodium cl)" and req: "wf_packet (em_query req)" "12 \<le> length (pkt_bytes (em_query req))" "has_room req"
  shows "safe (cr_send_upstream cl env connect req cr)"
  unfolding cr_send_upstream_def Let_def
proof (rule safe_ebind, rule safe_cr_random_provider [OF req(1,2)], goal_cases)
  case (1 x)
  show ?case
    unfolding split_beta by (cases "fst x") (auto intro!: safe_servfail_reply [OF laws req])
qed

lemma safe_cr_base_process:
  assumes laws: "sodium_laws (cl_sodium cl)" and req: "wf_packet (em_query req)" "has_room req"
  shows "safe (cr_base_process cl env connect req cr)"
proof (cases "is_dns (em_query req)")
  case True
  note p = req(1) is_dnsD [OF True req(1)]
  show ?thesis
    unfolding cr_base_process_def Let_def
    using True ensures_safe [OF pre_filter_ensures [OF p]] ensuresD [OF pre_filter_ensures [OF p]]
      safe_cr_send_upstream [OF laws p req(2)]
    by (fastforce intro: safe_resp_store split: prod.split)
qed (simp add: cr_base_process_def)

lemma cr_process_safe:
  assumes laws: "sodium_laws (cl_sodium cl)" and msg: "wf_packet msg"
  shows "safe (cr_process cl env connect msg cr)"
proof -
  have plain: "safe (cr_base_process cl env connect \<lparr>em_query = msg, em_session = None\<rparr> cr)"
    by (rule safe_cr_base_process [OF laws]) (simp_all add: msg has_room_def)
  have crypt: "safe (ebind (server_uncurve (cl_sodium cl) keys msg) (\<lambda>(pubkey, nonce, qr).
      cr_base_process cl env connect \<lparr>em_query = qr, em_session = Some (pubkey, nonce)\<rparr> cr))" for keys
    using ensures_safe [OF server_uncurve_ensures [OF laws msg]] ensuresD [OF server_uncurve_ensures [OF laws msg]]
    by (fastforce intro!: safe_cr_base_process [OF laws] simp: has_room_def)
  have cert: "safe (ebind (get_question msg) (\<lambda>_. ebind (set_txt_answer data ttl msg) (\<lambda>c. Inr (Sent c, cr))))"
    if "is_dns msg" for data ttl
    using msg is_dnsD [OF that msg] ensures_safe [OF add_answer_data_ensures]
    by (auto simp: set_txt_answer_def intro!: safe_get_question)
  have mag: "safe (is_dnscrypt_message c msg)" for c
    using wf_packetD [OF msg] by (auto simp: is_dnscrypt_message_def read_block_def)
  have crq: "safe (is_dnscrypt_certificate_request name msg)" if "is_dns msg" for name
    by (rule safe_is_dnscrypt_certificate_request [OF msg is_dnsD [OF that msg]])
  show ?thesis
    unfolding cr_process_def by (cases "cr_server cr") (auto intro!: plain crypt cert mag crq)
qed

text \<open>
  What is not safe: the answer of a plain provider to an encrypted query is moved in its buffer without
  a check, so an answer that fills the buffer is written past its end.
\<close>

lemma long_answer_overruns:
  assumes "cr_server cr = Some srv" "em_session req = Some (k, nonce)" "wf_packet answer"
    "pkt_size answer + 48 > length (pkt_bytes answer)" "short_info (e_lib env) answer = Inr s" "rcode answer = Inr rc"
    "rc \<noteq> rcode_word noerror" "rc \<noteq> rcode_word nxdomain"
  shows "cr_pass_answer_downstream cl env (Plain p) req answer cr = Inl Undefined_behaviour"
  using assms wf_packetD [OF assms(3)]
  by (simp add: cr_pass_answer_downstream_def cr_respond_def upstream_session_def server_curve_def Let_def read_block_def
      write_block_def)

section \<open>The invariant\<close>

lemma cr_random_provider_state:
  assumes "cr_random_provider env q cr = Inr (prov, cr')"
  shows "\<exists>i. cr_base cr' = (cr_base cr)\<lparr>random_provider_idx := i\<rparr>"
proof -
  have same: "\<exists>i. cr_base cr = (cr_base cr)\<lparr>random_provider_idx := i\<rparr>"
    by (rule exI [of _ "random_provider_idx (cr_base cr)"]) simp
  have sel: "cr_base (cr_select_random_provider env cr) = cr_base cr" by (simp add: cr_select_random_provider_def Let_def)
  show ?thesis
    using assms same sel random_provider_state
    by (fastforce simp: cr_random_provider_def Let_def split: option.splits if_splits)
qed

lemma wf_cr_send_upstream:
  assumes "cr_send_upstream cl env connect req cr = Inr (out, cr')" "cr_base cr = counted r" "wf_responder r"
  shows "wf_responder (cr_base cr')"
proof -
  from assms(1) obtain prov cr1 where "cr_random_provider env (em_query req) cr = Inr (prov, cr1)"
    by (auto simp: cr_send_upstream_def)
  moreover from cr_random_provider_state [OF this] obtain i where "cr_base cr1 = (counted r)\<lparr>random_provider_idx := i\<rparr>"
    using assms(2) by auto
  ultimately show ?thesis
    using assms(1,3) length_garbage_loop [of ur_active "upstream_requests r" 0 0]
    by (auto simp: cr_send_upstream_def Let_def wf_responder_def collect_requests_def cr_increment_failures_def
        split: option.splits if_splits cprovider_ref.splits)
qed

lemma wf_cr_base_process:
  assumes "cr_base_process cl env connect req cr = Inr (out, cr')" "wf_responder (cr_base cr)"
  shows "wf_responder (cr_base cr')"
proof (cases "is_dns (em_query req)")
  case True
  with assms(1) obtain fr q r1 where pf: "pre_filter env (em_query req) (counted (cr_base cr)) = Inr (fr, q, r1)"
    and eq: "(if fr = 1 then Inr (Sent q, cr\<lparr>cr_base := r1\<rparr>)
       else if fr = 2 then ebind (resp_store env q r1) (\<lambda>r. Inr (Sent q, cr\<lparr>cr_base := r\<rparr>))
       else cr_send_upstream cl env connect req (cr\<lparr>cr_base := r1\<rparr>)) = Inr (out, cr')"
    unfolding cr_base_process_def Let_def cr_respond_plain ebind_simps by auto
  note w = wf_pre_filter [OF pf assms(2)]
  show ?thesis
  proof (cases "fr = 1 \<or> fr = 2")
    case True
    then show ?thesis using eq w by (auto dest: wf_resp_store split: if_splits)
  next
    case False
    then show ?thesis using eq w by (auto intro: wf_cr_send_upstream [OF _ _ assms(2)])
  qed
qed (use assms in \<open>auto simp: cr_base_process_def\<close>)

lemma wf_cr_process:
  assumes "cr_process cl env connect msg cr = Inr (out, cr')" "wf_responder (cr_base cr)"
  shows "wf_responder (cr_base cr')"
  using assms wf_cr_base_process [OF _ assms(2)]
  by (auto simp: cr_process_def split: option.splits if_splits)

lemma wf_cr_pass_answer:
  "cr_pass_answer_downstream cl env p req answer cr = Inr (out, cr') \<Longrightarrow> wf_responder (cr_base cr) \<Longrightarrow> wf_responder (cr_base cr')"
  by (auto simp: cr_pass_answer_downstream_def Let_def dest: wf_resp_store split: if_splits)

section \<open>The encrypting responder as the service of a listener\<close>

fun crypt_reply :: "coutcome \<Rightarrow> reply" where
  "crypt_reply Closed = Close_request"
| "crypt_reply (Sent msg) = Send_reply msg"
| "crypt_reply (Passed p req) = Keep_request"

definition crypt_process :: "crypt_lib \<Rightarrow> env \<Rightarrow> (cprovider_ref \<Rightarrow> bool) \<Rightarrow> packet \<Rightarrow> cresponder \<Rightarrow> (reply \<times> cresponder) res" where
  "crypt_process cl env connect msg cr = ebind (cr_process cl env connect msg cr) (\<lambda>(out, cr). Inr (crypt_reply out, cr))"

definition crypt_pass :: "crypt_lib \<Rightarrow> env \<Rightarrow> cprovider_ref \<Rightarrow> emessage \<Rightarrow> packet \<Rightarrow> cresponder \<Rightarrow> (reply \<times> cresponder) res" where
  "crypt_pass cl env p req msg cr = ebind (cr_pass_answer_downstream cl env p req msg cr) (\<lambda>(out, cr). Inr (crypt_reply out, cr))"

text \<open>The laws of the library of ciphers are part of the invariant.\<close>

definition wf_cresponder :: "sodium \<Rightarrow> cresponder \<Rightarrow> bool" where
  "wf_cresponder lib cr \<longleftrightarrow> sodium_laws lib \<and> wf_responder (cr_base cr)"

interpretation crypt_service: query_service "crypt_process \<lparr>cl_sodium = lib, cl_env = ce\<rparr> env connect"
    "crypt_pass \<lparr>cl_sodium = lib, cl_env = ce\<rparr> env p req" "wf_cresponder lib"
  for lib ce env connect p req
  by unfold_locales
    (auto simp: crypt_process_def crypt_pass_def wf_cresponder_def intro: cr_process_safe wf_cr_process wf_cr_pass_answer)

text \<open>
  A run: every event has the random numbers of the ciphers, the environment, the reachability of the
  providers and, for an answer, the provider and the request that it is for.
\<close>

type_synonym crypt_event = "crypt_env \<times> env \<times> (cprovider_ref \<Rightarrow> bool) \<times> cprovider_ref \<times> emessage \<times> ls_event"

fun crypt_step :: "sodium \<Rightarrow> real \<Rightarrow> crypt_event \<Rightarrow> cresponder listener \<times> exn option \<Rightarrow> cresponder listener \<times> exn option" where
  "crypt_step lib secs (ce, env, connect, p, req, e) =
     ls_step (e_lib env) (crypt_process \<lparr>cl_sodium = lib, cl_env = ce\<rparr> env connect)
       (crypt_pass \<lparr>cl_sodium = lib, cl_env = ce\<rparr> env p req) secs e"

fun crypt_enabled :: "sodium \<Rightarrow> crypt_event \<Rightarrow> cresponder listener \<times> exn option \<Rightarrow> bool" where
  "crypt_enabled lib (ce, env, connect, p, req, e) = ls_enabled (crypt_pass \<lparr>cl_sodium = lib, cl_env = ce\<rparr> env p req) e"

interpretation crypt_clients: machine "crypt_enabled lib" "crypt_step lib secs"
    "\<lambda>(l, x). wf_listener (wf_cresponder lib) l \<and> x \<noteq> Some Undefined_behaviour" for lib secs
proof
  fix ev :: crypt_event and s :: "cresponder listener \<times> exn option"
  obtain ce env connect p req e l x where *: "ev = (ce, env, connect, p, req, e)" "s = (l, x)"
    by (metis prod_cases6 surj_pair)
  assume "crypt_enabled lib ev s" "case s of (l, x) \<Rightarrow> wf_listener (wf_cresponder lib) l \<and> x \<noteq> Some Undefined_behaviour"
  then show "case crypt_step lib secs ev s of (l, x) \<Rightarrow> wf_listener (wf_cresponder lib) l \<and> x \<noteq> Some Undefined_behaviour"
    using crypt_service.ls_step_preserves [of lib ce env p req e l x "e_lib env" connect secs]
    by (auto simp: * split: prod.splits)
qed

section \<open>Properties\<close>



end
