(* ===== verification/Forwarding.thy ===== *)
theory Forwarding
  imports Client_Service Encrypted_Service
begin

text \<open>
  Forwarded queries from end to end: the request to the provider (theory Upstream) and the request of
  the client (theory Listener) around the responder, with plain providers and with DNSCrypt resolvers.
\<close>

section \<open>Providers\<close>

text \<open>
  A plain provider leaves messages as they are; \<^verbatim>\<open>mark_servfail\<close> and the answer downstream are those of
  \<^verbatim>\<open>dns::query\<close> and \<^verbatim>\<open>dns::responder\<close>.
\<close>

definition dns_provider_ops :: "env \<Rightarrow> responder \<Rightarrow> provider_ops" where
  "dns_provider_ops env r =
     \<lparr>po_lib = e_lib env, po_fold = Inr, po_unfold = Inr, po_servfail = mark_servfail,
      po_pass = (\<lambda>m. ebind (pass_answer_downstream env m r) (\<lambda>_. Inr ()))\<rparr>"

text \<open>A resolver encrypts what it sends and decrypts what it receives, with the nonce of the session.\<close>

definition resolver_ops :: "sodium \<Rightarrow> crypt_env \<Rightarrow> byte list \<Rightarrow> resolver \<Rightarrow> env \<Rightarrow> responder \<Rightarrow> provider_ops" where
  "resolver_ops lib ce nonce rs env r = (dns_provider_ops env r)
     \<lparr>po_fold := (\<lambda>p. ebind (fold_message lib ce rs \<lparr>cm_packet = p, cm_session_nonce = nonce\<rparr>) (\<lambda>m. Inr (cm_packet m))),
      po_unfold := (\<lambda>p. ebind (unfold_message lib rs \<lparr>cm_packet = p, cm_session_nonce = nonce\<rparr>) (\<lambda>m. Inr (cm_packet m)))\<rparr>"

lemma unfold_short:
  assumes "wf_packet p" "length (content p) \<le> response_head_size"
  shows "po_unfold (resolver_ops lib ce nonce rs env r) p = Inl (crypt_failure ''too short encrypted message'')"
  using assms by (simp add: resolver_ops_def unfold_message_def uncurve_def Let_def)

text \<open>An exception of \<^verbatim>\<open>unfold\<close> that is not a network error leaves the handler.\<close>

lemma on_receive_unfold_fails:
  assumes u: "active u" "us_receive u" "wf_packet (us_question u)" and m: "m \<noteq> []" "length m \<le> conn_room (us_conn u) (us_question u)"
    "conn_arrives m (us_conn u)" and ready: "conn_ready (us_conn u) = Inr True" and close: "closes_well (us_conn u)"
    and unfold: "\<And>p. wf_packet p \<Longrightarrow> content p = m \<Longrightarrow> po_unfold ops p = Inl e" "\<not> is_net_error e"
  shows "\<exists>u'. on_receive ops u = (Inl e, u') \<and> us_passed u' = []"
proof -
  let ?q = "set_size 0 (us_question u)"
  have q: "wf_packet ?q" "pkt_size ?q = 0" using u(3) by (simp_all add: wf_packet_def)
  have room: "length m \<le> conn_room (us_conn u) ?q" using m(2) by (cases "us_conn u") simp_all
  obtain p c where rcv: "conn_receive (po_lib ops) ?q (us_conn u) = (Inr (), p, c)" and p: "wf_packet p" "content p = m"
    and c: "conn_kept (us_conn u) c"
    using conn_receive_arrived [OF q m(1) room m(3)] by blast
  obtain c' where c': "conn_close c = (Inr (), c')"
    using close closes_well_kept [OF c] conn_close_well [of c] by (cases "conn_close c") auto
  show ?thesis
    using u(1) ready rcv c' unfold(1) [OF p] unfold(2)
    by (auto simp: on_receive_def receive_answer_def catch_net_def andthen_def request_close_def upstream_close_def active_def)
qed

section \<open>Properties\<close>


text \<open>
  C35. One short datagram ends the encrypted service.  While a request to a DNSCrypt resolver waits for its
  answer, any datagram that is not longer than the header of an encrypted response, from any address,
  makes \<^verbatim>\<open>unfold\<close> throw a \<^verbatim>\<open>std::runtime_error\<close>; the handler catches only network errors, so the exception
  leaves the event loop, and the client gets nothing.
\<close>

theorem short_datagram_ends_encrypted_service:
  assumes "active u" "us_receive u" "wf_packet (us_question u)" "us_conn u = Udp_conn addr ep" "ep_close ep = 0"
    and "ep_in ep = Bytes (any_sender, len, m) # rest" "m \<noteq> []" "length m \<le> response_head_size"
    "response_head_size \<le> length (pkt_bytes (us_question u))"
  shows "\<exists>u'. on_receive (resolver_ops lib ce nonce rs env r) u = (Inl (crypt_failure ''too short encrypted message''), u')
    \<and> us_passed u' = []"
proof (rule on_receive_unfold_fails [OF assms(1-3,7)])
  show "length m \<le> conn_room (us_conn u) (us_question u)" "conn_arrives m (us_conn u)" "conn_ready (us_conn u) = Inr True"
    "closes_well (us_conn u)"
    using assms(4-9) by auto
  show "\<not> is_net_error (crypt_failure ''too short encrypted message'')" by (simp add: crypt_failure_def)
qed (use assms(8) in \<open>simp add: unfold_short\<close>)

section \<open>Examples\<close>

text \<open>A client whose query was forwarded, and its request to a provider.\<close>

definition held_listener :: "responder listener" where
  "held_listener = (new_listener (sample_udp []) default_responder)\<lparr>ls_count := 1, ls_requests := [1], ls_held := [1],
     ls_store := [1 \<mapsto> \<lparr>in_message = new_query, in_active = True, in_sender = sample_address, in_conn = None, in_event = False\<rparr>]\<rparr>"

definition waiting_upstream :: "byte list list \<Rightarrow> upstream" where
  "waiting_upstream ms = \<lparr>us_conn = Udp_conn sample_address (sample_udp ms), us_question = new_query, us_send = False,
     us_receive = True, us_timeout = True, us_failures = 0, us_passed = []\<rparr>"

lemma waiting_upstream_facts:
  "active (waiting_upstream ms)" "us_receive (waiting_upstream ms)" "wf_packet (us_question (waiting_upstream ms))"
  "closes_well (us_conn (waiting_upstream ms))" "conn_ready (us_conn (waiting_upstream ms)) = Inr True"
  by (simp_all add: waiting_upstream_def active_def sample_udp_def is_valid_def wf_new_query)

theorem short_datagram_ends_encrypted_service_witness:
  "\<forall>ce nonce. \<exists>u'. on_receive (resolver_ops plain_box ce nonce sample_resolver service_env default_responder)
     (waiting_upstream [[1, 2, 3]]) = (Inl (crypt_failure ''too short encrypted message''), u') \<and> us_passed u' = []"
proof (intro allI)
  fix ce nonce
  have "us_conn (waiting_upstream [[1, 2, 3]]) = Udp_conn sample_address (sample_udp [[1, 2, 3]])"
    "ep_in (sample_udp [[1, 2, 3]]) = Bytes (sample_address, 16, [1, 2, 3]) # []" "ep_close (sample_udp [[1, 2, 3]]) = 0"
    "response_head_size \<le> length (pkt_bytes (us_question (waiting_upstream [[1, 2, 3]])))"
    by (simp_all add: waiting_upstream_def sample_udp_def wf_new_query max_size_def)
  from short_datagram_ends_encrypted_service [OF waiting_upstream_facts(1-3) this(1,3,2) _ _ this(4)]
  show "\<exists>u'. on_receive (resolver_ops plain_box ce nonce sample_resolver service_env default_responder) (waiting_upstream [[1, 2, 3]])
     = (Inl (crypt_failure ''too short encrypted message''), u') \<and> us_passed u' = []"
    by simp
qed

lemma servfail_answer:
  assumes "wf_packet p" "content p = [0, 7, 129, 130, 0, 1, 0, 0, 0, 0, 0, 0, 1, 97, 0, 0, 1, 0, 1]"
  shows "pass_answer_downstream service_env p r = Inr (Responded p, r)"
proof -
  obtain t where p: "p = \<lparr>pkt_size = 19, pkt_bytes = [0, 7, 129, 130, 0, 1, 0, 0, 0, 0, 0, 0, 1, 97, 0, 0, 1, 0, 1] @ t\<rparr>"
  proof
    have "pkt_size p = 19" using assms length_content [of p] by simp
    moreover have "pkt_bytes p = content p @ drop (pkt_size p) (pkt_bytes p)" by (simp add: content_def)
    ultimately show "p = \<lparr>pkt_size = 19, pkt_bytes = [0, 7, 129, 130, 0, 1, 0, 0, 0, 0, 0, 0, 1, 97, 0, 0, 1, 0, 1] @ drop 19 (pkt_bytes p)\<rparr>"
      using assms(2) by simp
  qed
  have h: "header p = Inr \<lparr>h_id = 7, h_rd = True, h_tc = False, h_aa = False, h_opcode = 0, h_qr = True, h_rcode = 2,
      h_z = 0, h_ra = True, h_qdcount = 1, h_ancount = 0, h_nscount = 0, h_arcount = 0\<rparr>"
    unfolding p by (simp add: parse_eval cong: ebind_weak_cong del: ebind_eq_Inr_iff)
  have q: "get_rr_question p 12 = Inr (19, ''a.'', \<lparr>rr_type = 1, rr_class = 1, rr_ttl = 0, rr_rdlength = 0\<rparr>)"
    unfolding p by (simp add: parse_eval cong: ebind_weak_cong del: ebind_eq_Inr_iff)
  have rc: "rcode_word noerror = 0" "rcode_word nxdomain = 3" by (simp_all add: rcode_word_def)
  have "\<exists>s. pkt_rcode_cstr 2 = Inr s"
    by (simp add: pkt_rcode_cstr_def rcode_of_word_def all_rcodes_def rcode_word_def)
  then show ?thesis
    using h q rc
    by (auto simp: pass_answer_downstream_def short_info_def rcode_def record_loop.simps short_info_question_def rr_class_cstr_def
        del: ebind_eq_Inr_iff cong: ebind_weak_cong)
qed

definition servfail_bytes :: "byte list" where
  "servfail_bytes = [0, 7, 129, 130, 0, 1, 0, 0, 0, 0, 0, 0, 1, 97, 0, 0, 1, 0, 1]"


end
