(* ===== verification/System.thy ===== *)
theory System
  imports Address
begin

text \<open>
  The log (\<^verbatim>\<open>sys/logger.hxx\<close>, \<^verbatim>\<open>sys/srcz/logger.cpp\<close>) and the services of the operating system that
  a daemon uses (\<^verbatim>\<open>sys/srcz/sysunix.cpp\<close>, \<^verbatim>\<open>sys/srcz/entropy.cpp\<close>): sockets from \<^verbatim>\<open>systemd\<close>,
  users and privileges, running in the background.  What system calls return are arguments of the
  definitions; what they do to the process is part of the model.
\<close>

section \<open>The log\<close>

datatype severity = emergency | alert | critical | log_error | warning | notice | log_info | debug

fun severity_num :: "severity \<Rightarrow> nat" where
  "severity_num emergency = 0"
| "severity_num alert = 1"
| "severity_num critical = 2"
| "severity_num log_error = 3"
| "severity_num warning = 4"
| "severity_num notice = 5"
| "severity_num log_info = 6"
| "severity_num debug = 7"

text \<open>Severities are compared by their numbers: the most severe is the least.\<close>

instantiation severity :: linorder
begin

definition less_eq_severity :: "severity \<Rightarrow> severity \<Rightarrow> bool" where
  "s \<le> t \<longleftrightarrow> severity_num s \<le> severity_num t"

definition less_severity :: "severity \<Rightarrow> severity \<Rightarrow> bool" where
  "s < t \<longleftrightarrow> severity_num s < severity_num t"

instance
proof
  fix s t u :: severity
  show "s < t \<longleftrightarrow> s \<le> t \<and> \<not> t \<le> s" by (auto simp: less_eq_severity_def less_severity_def)
  show "s \<le> s" by (simp add: less_eq_severity_def)
  show "s \<le> t \<Longrightarrow> t \<le> u \<Longrightarrow> s \<le> u" by (simp add: less_eq_severity_def)
  show "s \<le> t \<or> t \<le> s" by (auto simp: less_eq_severity_def)
  show "s \<le> t \<Longrightarrow> t \<le> s \<Longrightarrow> s = t" by (cases s; cases t) (simp_all add: less_eq_severity_def)
qed

end

fun severity_cstr :: "severity \<Rightarrow> string" where
  "severity_cstr emergency = ''EMERGENCY''"
| "severity_cstr alert = ''ALERT''"
| "severity_cstr critical = ''CRITICAL''"
| "severity_cstr log_error = ''ERROR ''"
| "severity_cstr warning = ''WARNING''"
| "severity_cstr notice = ''NOTICE''"
| "severity_cstr log_info = ''INFO''"
| "severity_cstr debug = ''DEBUG''"

datatype sink = Syslog nat | Stdout | Stderr

text \<open>The level is a number: an option may set it to any 16 bit value.\<close>

record logger =
  lg_level :: nat
  lg_syslog :: bool
  lg_lines :: "(sink \<times> string) list"

definition set_severity :: "nat \<Rightarrow> logger \<Rightarrow> logger" where
  "set_severity n lg = lg\<lparr>lg_level := n\<rparr>"

definition set_system :: "bool \<Rightarrow> logger \<Rightarrow> logger" where
  "set_system v lg = lg\<lparr>lg_syslog := v\<rparr>"

definition logger_init :: "u16 \<Rightarrow> bool \<Rightarrow> logger \<Rightarrow> logger" where
  "logger_init loglevel syslog lg = set_severity (unat loglevel) (set_system syslog lg)"

text \<open>
  \<^verbatim>\<open>println\<close>; the time is the text of \<^verbatim>\<open>std::put_time\<close>, or \<open>None\<close> when the local time is not available.
\<close>

definition println :: "string option \<Rightarrow> severity \<Rightarrow> string \<Rightarrow> logger \<Rightarrow> unit res \<times> logger" where
  "println now s line lg =
     (if severity_num s \<le> lg_level lg then
        if lg_syslog lg then (Inr (), lg\<lparr>lg_lines := lg_lines lg @ [(Syslog (severity_num s), line)]\<rparr>)
        else case now of
            None \<Rightarrow> (Inl (Runtime_error ''Failed to get system time''), lg)
          | Some t \<Rightarrow>
              (Inr (), lg\<lparr>lg_lines := lg_lines lg
                 @ [(if s \<ge> notice then Stdout else Stderr,
                     t @ '' ['' @ severity_cstr s @ ''] '' @ line @ [CHR 0x0A])]\<rparr>)
      else (Inr (), lg))"

text \<open>\<^verbatim>\<open>slog\<close>: the values are printed one after the other; a line ends at a zero byte.\<close>

definition slog :: "string option \<Rightarrow> severity \<Rightarrow> string list \<Rightarrow> logger \<Rightarrow> unit res \<times> logger" where
  "slog now s values lg =
     (if severity_num s \<le> lg_level lg
      then println now s (takeWhile (\<lambda>c. c \<noteq> CHR 0x00) (concat values)) lg else (Inr (), lg))"

section \<open>Sockets from systemd\<close>

definition sd_listen_fds_start :: int where "sd_listen_fds_start = 3"

text \<open>
  What \<^verbatim>\<open>sd_is_socket\<close> tells of a descriptor: a datagram socket or a listening stream socket of an
  internet family.
\<close>

record sd_kind =
  sd_dgram :: bool
  sd_stream :: bool

fun sd_scan :: "(int \<Rightarrow> sd_kind) \<Rightarrow> int list \<Rightarrow> int \<times> int \<Rightarrow> int \<times> int" where
  "sd_scan kind [] found = found"
| "sd_scan kind (s # ss) (u, t) =
     sd_scan kind ss (if sd_dgram (kind s) then s else u, if sd_stream (kind s) then s else t)"

definition systemd_init_descriptors :: "int \<Rightarrow> (int \<Rightarrow> sd_kind) \<Rightarrow> (int \<times> int) res" where
  "systemd_init_descriptors num_sd_fds kind =
     (if num_sd_fds = 0 then Inr (-1, -1)
      else if 0 > num_sd_fds then Inl (Runtime_error ''[system error]'')
      else if 2 \<noteq> num_sd_fds then Inl (Runtime_error ''Wrong number of systemd sockets: '')
      else
        let (u, t) = sd_scan kind [sd_listen_fds_start, sd_listen_fds_start + 1] (-1, -1) in
        if u < 0 then Inl (Runtime_error ''No systemd UDP socket passed in'')
        else if t < 0 then Inl (Runtime_error ''No systemd TCP socket passed in'')
        else Inr (u, t))"

section \<open>Users and privileges\<close>

record user =
  u_name :: string
  u_id :: nat
  u_group :: nat
  u_dir :: string

text \<open>\<^verbatim>\<open>getpwnam\<close>: the entry, or the error number.\<close>

definition get_user :: "(string \<Rightarrow> nat + user) \<Rightarrow> string \<Rightarrow> user res" where
  "get_user getpwnam uname =
     (if uname = [] then Inl (Logic_error ''User name is blank'')
      else case getpwnam uname of
          Inr u \<Rightarrow> Inr u
        | Inl errno \<Rightarrow>
            if errno \<noteq> 0 then Inl (Runtime_error ''Bad user: '') else Inl (Runtime_error ''Unknown user: ''))"

record credentials =
  cr_uid :: nat
  cr_euid :: nat
  cr_gid :: nat
  cr_groups :: "nat set"

record priv_results =
  pv_initgroups :: bool
  pv_setuid :: bool
  pv_seteuid :: bool

text \<open>
  \<open>member\<close> gives the groups of a user for \<^verbatim>\<open>initgroups\<close>, which adds the given one.  \<^verbatim>\<open>setuid\<close> of a
  privileged process sets the real and the effective user.
\<close>

definition revoke_privileges :: "(string \<Rightarrow> nat + user) \<Rightarrow> (string \<Rightarrow> nat set) \<Rightarrow> priv_results \<Rightarrow> string \<Rightarrow> credentials
    \<Rightarrow> unit res \<times> credentials" where
  "revoke_privileges getpwnam member pv uname c =
     (case get_user getpwnam uname of
        Inl e \<Rightarrow> (Inl e, c)
      | Inr u \<Rightarrow>
          if 0 \<noteq> u_id u then
            if \<not> pv_initgroups pv then (Inl (Runtime_error ''Unable to initialize groups for: ''), c)
            else
              let c = c\<lparr>cr_groups := insert (u_group u) (member (u_name u))\<rparr> in
              if \<not> pv_setuid pv then (Inl (Runtime_error ''Can't switch user to: ''), c)
              else
                let c = c\<lparr>cr_uid := u_id u, cr_euid := u_id u\<rparr> in
                if \<not> pv_seteuid pv then (Inl (Runtime_error ''Can't switch user to: ''), c) else (Inr (), c)
          else (Inr (), c))"

section \<open>Running in the background\<close>

text \<open>The open descriptors of a process and what they refer to.\<close>

type_synonym fd_table = "nat \<rightharpoonup> string"

definition dup2 :: "nat \<Rightarrow> nat \<Rightarrow> fd_table \<Rightarrow> fd_table" where
  "dup2 a b t = (case t a of None \<Rightarrow> t | Some f \<Rightarrow> t(b \<mapsto> f))"

definition path_devnull :: string where "path_devnull = ''/dev/null''"

definition open_max :: "int \<Rightarrow> u32" where
  "open_max z = (if 0 > z then 2 else word_of_int z)"

text \<open>
  \<^verbatim>\<open>closedesc_all\<close>: \<open>op\<close> is what \<^verbatim>\<open>open\<close> of the null device gives, for reading or writing, in a table.
\<close>

definition closedesc_all :: "(bool \<Rightarrow> fd_table \<Rightarrow> nat option) \<Rightarrow> fd_table \<Rightarrow> unit res \<times> fd_table" where
  "closedesc_all op t =
     (let t = t(0 := None) in
      case op False t of
        None \<Rightarrow> (Inl (Runtime_error ''/dev/null duplication''), t)
      | Some f \<Rightarrow>
          let t = dup2 f 0 (t(f \<mapsto> path_devnull));
              t = (if f > 0 then t(f := None) else t)
          in case op True t of
               None \<Rightarrow> (Inl (Runtime_error ''/dev/null duplication''), t)
             | Some f \<Rightarrow>
                 let t = dup2 1 2 (dup2 f 1 (t(f \<mapsto> path_devnull))) in
                 (Inr (), if f > 2 then t(f := None) else t))"

text \<open>The loop that closes terminals, down from the largest descriptor; the counter is unsigned.\<close>

function close_terminals :: "(nat \<Rightarrow> bool) \<Rightarrow> u32 \<Rightarrow> fd_table \<Rightarrow> fd_table" where
  "close_terminals isatty i t =
     (let t = (if isatty (unat i) then t(unat i := None) else t); i = i - 1 in
      if 2 < i then close_terminals isatty i t else t)"
  by pat_completeness auto
termination
proof (relation "measure (\<lambda>(isatty, i, t). unat (i - 1))", goal_cases)
  case (2 isatty i t t' j)
  then have "j \<noteq> 0" by (auto simp: word_less_def)
  then have "unat (j - 1) < unat j" by (simp add: measure_unat)
  then show ?case using 2 by simp
qed simp

declare close_terminals.simps [simp del]

datatype daemonized = Parent_exits | Child "unit res"

definition do_daemonize :: "int \<Rightarrow> int \<Rightarrow> int \<Rightarrow> (nat \<Rightarrow> bool) \<Rightarrow> (bool \<Rightarrow> fd_table \<Rightarrow> nat option) \<Rightarrow> fd_table
    \<Rightarrow> daemonized \<times> fd_table" where
  "do_daemonize child sid sysconf isatty op t =
     (if child = -1 then (Child (Inl (Runtime_error ''Unable to fork() in order to daemonize'')), t)
      else if child \<noteq> 0 then (Parent_exits, t)
      else if sid = -1 then (Child (Inl (Runtime_error ''Unable to setsid()'')), t)
      else map_prod Child id (closedesc_all op (close_terminals isatty (open_max sysconf) t)))"

definition entropy :: "bool \<Rightarrow> int option \<Rightarrow> u32" where
  "entropy opened count =
     (if opened then word_of_int (case count of None \<Rightarrow> 0 | Some c \<Rightarrow> if 0 > c then 0 else c) else 0)"

section \<open>Correctness\<close>

text \<open>A message goes out once, to one sink, exactly when its severity is within the level.\<close>

lemma slog_lines:
  "lg_lines (snd (slog (Some t) s vs lg)) =
     lg_lines lg @ (if severity_num s \<le> lg_level lg
       then [let line = takeWhile (\<lambda>c. c \<noteq> CHR 0x00) (concat vs) in
             if lg_syslog lg then (Syslog (severity_num s), line)
             else (if s \<ge> notice then Stdout else Stderr,
                   t @ '' ['' @ severity_cstr s @ ''] '' @ line @ [CHR 0x0A])]
       else [])"
  by (simp add: slog_def println_def Let_def)

lemma slog_level [simp]: "lg_level (snd (slog now s vs lg)) = lg_level lg"
  by (simp add: slog_def println_def split: option.split)

lemma logger_init_lines [simp]: "lg_lines (logger_init n b lg) = lg_lines lg"
  by (simp add: logger_init_def set_severity_def set_system_def)

lemma close_terminals_lookup:
  "2 < i \<Longrightarrow> close_terminals isatty i t n = (if 2 < n \<and> n \<le> unat i \<and> isatty n then None else t n)"
proof (induction isatty i t rule: close_terminals.induct)
  case (1 isatty i t)
  define t' where "t' = (if isatty (unat i) then t(unat i := None) else t)"
  have i: "2 < unat i" using 1(2) by (simp add: word_less_nat_alt)
  then have i1: "unat (i - 1) = unat i - 1" by (intro unat_minus_one) auto
  have step: "close_terminals isatty i t = (if 2 < i - 1 then close_terminals isatty (i - 1) t' else t')"
    by (subst close_terminals.simps) (simp only: Let_def t'_def)
  show ?case
  proof (cases "2 < i - 1")
    case True
    then have "close_terminals isatty (i - 1) t' n = (if 2 < n \<and> n \<le> unat (i - 1) \<and> isatty n then None else t' n)"
      using 1(1) [OF t'_def refl] by simp
    then show ?thesis using True step i i1 by (auto simp: t'_def)
  next
    case False
    then have "unat i = 3" using i i1 by (simp add: word_less_nat_alt)
    then show ?thesis using False step by (auto simp: t'_def)
  qed
qed

lemma closedesc_all_table:
  assumes fresh: "\<And>b s n. op b s = Some n \<Longrightarrow> s n = None"
    and run: "closedesc_all op t = (Inr (), t')"
  shows "t' n = (if n \<le> 2 then Some path_devnull else t n)"
proof -
  obtain f where f: "op False (t(0 := None)) = Some f"
    using run by (auto simp: closedesc_all_def Let_def split: option.splits)
  define t1 where "t1 = (let u = dup2 f 0 (t(0 := None, f \<mapsto> path_devnull)) in if f > 0 then u(f := None) else u)"
  obtain w where w: "op True t1 = Some w"
    and t': "t' = (let u = dup2 1 2 (dup2 w 1 (t1(w \<mapsto> path_devnull))) in if w > 2 then u(w := None) else u)"
    using run f by (auto simp: closedesc_all_def Let_def t1_def split: option.splits)
  have "t1 = t(0 \<mapsto> path_devnull)"
    using fresh [OF f] by (auto simp: t1_def Let_def dup2_def fun_eq_iff)
  then show ?thesis
    using fresh [OF w] by (auto simp: t' Let_def dup2_def)
qed

lemma daemonize_result:
  assumes fresh: "\<And>b s m. op b s = Some m \<Longrightarrow> s m = None"
    and limit: "2 < limit" "limit < 2 ^ 32"
    and run: "fst (do_daemonize child sid limit isatty op t) = Child (Inr ())"
  shows "snd (do_daemonize child sid limit isatty op t) n =
    (if n \<le> 2 then Some path_devnull else if int n \<le> limit \<and> isatty n then None else t n)"
proof -
  let ?i = "open_max limit"
  obtain t' where c: "closedesc_all op (close_terminals isatty ?i t) = (Inr (), t')"
    and snd: "snd (do_daemonize child sid limit isatty op t) = t'"
    using run by (cases "closedesc_all op (close_terminals isatty ?i t)")
      (auto simp: do_daemonize_def split: if_splits)
  have u: "unat ?i = nat limit"
    using limit by (simp add: open_max_def unat_eq_nat_uint uint_word_of_int take_bit_int_eq_self)
  then have "2 < ?i" using limit by (simp add: word_less_nat_alt)
  then show ?thesis
    using closedesc_all_table [of op _ t' n, OF _ c] fresh close_terminals_lookup u limit
    unfolding snd by auto
qed

text \<open>
  Running in the background: when \<^verbatim>\<open>do_daemonize\<close> returns in the child, the three standard
  descriptors refer to the null device, no descriptor from 3 to the limit of the process refers to a
  terminal, and every other descriptor is as it was. \<^verbatim>\<open>open\<close> is only assumed to give a descriptor that
  was not in use.
\<close>

theorem daemonize_detaches:
  assumes fresh: "\<And>b s m. op b s = Some m \<Longrightarrow> s m = None"
    and limit: "2 < limit" "limit < 2 ^ 32"
    and run: "fst (do_daemonize child sid limit isatty op t) = Child (Inr ())"
  shows "snd (do_daemonize child sid limit isatty op t) n =
    (if n \<le> 2 then Some path_devnull else if int n \<le> limit \<and> isatty n then None else t n)"
  using assms by (rule daemonize_result)

theorem daemonize_detaches_witness:
  "let op = (\<lambda>_ s. if s 0 = None then Some 0 else if s 5 = None then Some 5 else None);
       isatty = (\<lambda>n. n \<le> 3); t = (\<lambda>n. if n \<le> 4 then Some ''file'' else None)
   in snd (do_daemonize 0 77 1024 isatty op t) 1 = Some ''/dev/null''
     \<and> snd (do_daemonize 0 77 1024 isatty op t) 3 = None
     \<and> snd (do_daemonize 0 77 1024 isatty op t) 4 = Some ''file''"
proof -
  define op :: "bool \<Rightarrow> fd_table \<Rightarrow> nat option" where
    "op = (\<lambda>_ s. if s 0 = None then Some 0 else if s 5 = None then Some 5 else None)"
  define t :: fd_table where "t = (\<lambda>n. if n \<le> 4 then Some ''file'' else None)"
  have "2 < open_max 1024" by (simp add: open_max_def)
  then have "fst (do_daemonize 0 77 1024 (\<lambda>n. n \<le> 3) op t) = Child (Inr ())"
    by (simp add: do_daemonize_def closedesc_all_def op_def t_def dup2_def close_terminals_lookup Let_def)
  moreover have "op b s = Some m \<Longrightarrow> s m = None" for b s m by (auto simp: op_def split: if_splits)
  ultimately have "snd (do_daemonize 0 77 1024 (\<lambda>n. n \<le> 3) op t) n =
      (if n \<le> 2 then Some path_devnull else if int n \<le> 1024 \<and> n \<le> 3 then None else t n)" for n
    by (intro daemonize_detaches) auto
  then show ?thesis by (simp add: op_def [symmetric] t_def [symmetric] Let_def) (simp add: t_def path_devnull_def)
qed

text \<open>
  Privileges are revoked only in part: after \<^verbatim>\<open>revoke_privileges\<close> for a user other than root the
  process runs as that user with that user's supplementary groups, but its primary group is still the
  one it was started with (the comment in the code asks \<open>change group as well?\<close>).  Whenever it throws,
  the process has never gained anything: its group is unchanged and its users are the old ones or the
  user's.
\<close>

theorem privileges_keep_group:
  assumes entry: "getpwnam name = Inr u" and user: "u_id u \<noteq> 0"
  shows "case revoke_privileges getpwnam member pv name c of
      (Inr _, c') \<Rightarrow> cr_uid c' = u_id u \<and> cr_euid c' = u_id u
        \<and> cr_groups c' = insert (u_group u) (member (u_name u)) \<and> cr_gid c' = cr_gid c
    | (Inl _, c') \<Rightarrow> cr_gid c' = cr_gid c
        \<and> (cr_uid c', cr_euid c') \<in> {(cr_uid c, cr_euid c), (u_id u, u_id u)}"
  using assms by (simp add: revoke_privileges_def get_user_def Let_def)

theorem privileges_keep_group_witness:
  "\<exists>c'. revoke_privileges (\<lambda>_. Inr \<lparr>u_name = ''nobody'', u_id = 99, u_group = 98, u_dir = ''/''\<rparr>) (\<lambda>_. {})
        \<lparr>pv_initgroups = True, pv_setuid = True, pv_seteuid = True\<rparr> ''nobody''
        \<lparr>cr_uid = 0, cr_euid = 0, cr_gid = 0, cr_groups = {0}\<rparr> = (Inr (), c')
     \<and> cr_uid c' = 99 \<and> cr_gid c' = 0 \<and> cr_groups c' = {98}"
  using privileges_keep_group
    [where getpwnam = "\<lambda>_. Inr \<lparr>u_name = ''nobody'', u_id = 99, u_group = 98, u_dir = ''/''\<rparr>"
       and name = "''nobody''" and member = "\<lambda>_. {}"
       and pv = "\<lparr>pv_initgroups = True, pv_setuid = True, pv_seteuid = True\<rparr>"
       and c = "\<lparr>cr_uid = 0, cr_euid = 0, cr_gid = 0, cr_groups = {0}\<rparr>", OF refl]
  by (simp add: revoke_privileges_def get_user_def)

end
