(* ===== verification/Error_Report.thy ===== *)
theory Error_Report
  imports System
begin

text \<open>
  How an exception that leaves the program is reported: back traces (\<^verbatim>\<open>backtrace/src/backtrace.cpp\<close>,
  \<^verbatim>\<open>backtrace/exceptions.hxx\<close>), network errors (\<^verbatim>\<open>network/net_error.hxx\<close>), the handlers around the main
  functions (\<^verbatim>\<open>backtrace/src/catch.cpp\<close>), the log of the daemons (\<^verbatim>\<open>dns-main.cpp\<close>, \<^verbatim>\<open>dns-example.cpp\<close>) and the
  handler of fatal signals.  The rest of the development tells exceptions apart as far as the code
  does; here the classes matter.  The frames of the stack, the demangler of the C++ library and the
  texts of system errors are arguments.
\<close>

section \<open>Definitions\<close>

subsection \<open>Back traces\<close>

text \<open>
  \<^verbatim>\<open>demangle\<close> of a line \<^verbatim>\<open>module(function+offset) [address]\<close>; the demangler gives nothing for a name that
  is not mangled.
\<close>

definition demangle :: "(string \<Rightarrow> string option) \<Rightarrow> string \<Rightarrow> string" where
  "demangle cxa_demangle frame =
     (case find_char CHR 0x28 frame of
        None \<Rightarrow> frame
      | Some i \<Rightarrow>
          let naddr = i + 1 in
          case find_char CHR 0x2B (drop naddr frame) of
            None \<Rightarrow> frame
          | Some k \<Rightarrow>
              let func = take k (drop naddr frame) in
              if func \<noteq> [] then
                case cxa_demangle (c_str func) of
                  None \<Rightarrow> frame
                | Some d \<Rightarrow> take naddr frame @ d @ drop (naddr + k) frame
              else frame)"

text \<open>
  The stack: what \<^verbatim>\<open>backtrace\<close> returns, and the lines of \<^verbatim>\<open>backtrace_symbols\<close>, which is a null pointer when
  there is no memory.
\<close>

record stack =
  st_count :: int
  st_symbols :: "string list option"

definition bt_frames :: "stack \<Rightarrow> nat" where
  "bt_frames st = (if st_count st < 0 \<or> st_count st > 1000 then 0 else nat (st_count st))"

definition bt_write :: "(string \<Rightarrow> string option) \<Rightarrow> stack \<Rightarrow> string res" where
  "bt_write cxa_demangle st =
     (let n = bt_frames st; start = [CHR 0x0A] @ ''Call stack backtrace:'' @ [CHR 0x0A] in
      if 1 < n then
        case st_symbols st of
          None \<Rightarrow> Inl Undefined_behaviour
        | Some symbols \<Rightarrow>
            if n \<le> length symbols then
              Inr (start @ concat (map (\<lambda>i. [CHR 0x09] @ demangle cxa_demangle (symbols ! i) @ [CHR 0x0A]) [1..<n]))
            else Inl Undefined_behaviour
      else Inr start)"

definition add_backtrace_string :: "(string \<Rightarrow> string option) \<Rightarrow> stack \<Rightarrow> string \<Rightarrow> string res" where
  "add_backtrace_string cxa_demangle st msg =
     ebind (bt_write cxa_demangle st) (\<lambda>b. Inr (msg @ [CHR 0x0A] @ b))"

subsection \<open>Classes of exceptions\<close>

text \<open>The classes of the standard library, those of the namespace \<^verbatim>\<open>trace\<close>, network errors, and objects of no class.\<close>

datatype cxx_class =
    Std_exception
  | Std_bad_cast
  | Std_logic_error | Std_domain_error | Std_invalid_argument | Std_length_error | Std_out_of_range
  | Std_runtime_error | Std_range_error | Std_overflow_error | Std_underflow_error | Std_system_error
  | Trace_logic_error | Trace_domain_error | Trace_invalid_argument | Trace_length_error | Trace_out_of_range
  | Trace_runtime_error | Trace_range_error | Trace_overflow_error | Trace_underflow_error
  | Network_error
  | Char_pointer
  | Anything

fun cxx_base :: "cxx_class \<Rightarrow> cxx_class option" where
  "cxx_base Std_exception = None"
| "cxx_base Char_pointer = None"
| "cxx_base Anything = None"
| "cxx_base Std_bad_cast = Some Std_exception"
| "cxx_base Std_logic_error = Some Std_exception"
| "cxx_base Std_runtime_error = Some Std_exception"
| "cxx_base Std_domain_error = Some Std_logic_error"
| "cxx_base Std_invalid_argument = Some Std_logic_error"
| "cxx_base Std_length_error = Some Std_logic_error"
| "cxx_base Std_out_of_range = Some Std_logic_error"
| "cxx_base Std_range_error = Some Std_runtime_error"
| "cxx_base Std_overflow_error = Some Std_runtime_error"
| "cxx_base Std_underflow_error = Some Std_runtime_error"
| "cxx_base Std_system_error = Some Std_runtime_error"
| "cxx_base Trace_logic_error = Some Std_logic_error"
| "cxx_base Trace_domain_error = Some Std_domain_error"
| "cxx_base Trace_invalid_argument = Some Std_invalid_argument"
| "cxx_base Trace_length_error = Some Std_length_error"
| "cxx_base Trace_out_of_range = Some Std_out_of_range"
| "cxx_base Trace_runtime_error = Some Std_runtime_error"
| "cxx_base Trace_range_error = Some Std_range_error"
| "cxx_base Trace_overflow_error = Some Std_overflow_error"
| "cxx_base Trace_underflow_error = Some Std_underflow_error"
| "cxx_base Network_error = Some Std_system_error"

text \<open>The hierarchy has at most four levels above a class, so that the classes above it can be listed.\<close>

fun cxx_depth :: "cxx_class \<Rightarrow> nat" where
  "cxx_depth Std_exception = 0"
| "cxx_depth Char_pointer = 0"
| "cxx_depth Anything = 0"
| "cxx_depth Std_logic_error = 1"
| "cxx_depth Std_runtime_error = 1"
| "cxx_depth Std_bad_cast = 1"
| "cxx_depth Trace_domain_error = 3"
| "cxx_depth Trace_invalid_argument = 3"
| "cxx_depth Trace_length_error = 3"
| "cxx_depth Trace_out_of_range = 3"
| "cxx_depth Trace_range_error = 3"
| "cxx_depth Trace_overflow_error = 3"
| "cxx_depth Trace_underflow_error = 3"
| "cxx_depth Network_error = 3"
| "cxx_depth c = 2"

lemma cxx_depth_base: "cxx_base c = Some b \<Longrightarrow> cxx_depth b < cxx_depth c"
  by (cases c) auto

function is_a :: "cxx_class \<Rightarrow> cxx_class \<Rightarrow> bool" where
  "is_a c d \<longleftrightarrow> c = d \<or> (case cxx_base c of None \<Rightarrow> False | Some b \<Rightarrow> is_a b d)"
  by pat_completeness auto
termination by (relation "measure (cxx_depth \<circ> fst)") (auto dest: cxx_depth_base)

text \<open>An object that is thrown: its class, \<^verbatim>\<open>what()\<close>, the back trace it carries, and the category of its code.\<close>

record thrown =
  th_class :: cxx_class
  th_what :: string
  th_backtrace :: string
  th_category :: string

definition std_exception :: "cxx_class \<Rightarrow> string \<Rightarrow> thrown" where
  "std_exception c msg = \<lparr>th_class = c, th_what = msg, th_backtrace = [], th_category = []\<rparr>"

text \<open>The constructors of the namespace \<^verbatim>\<open>trace\<close>: two classes keep the trace apart, the others append it to the text.\<close>

definition trace_exception :: "(string \<Rightarrow> string option) \<Rightarrow> stack \<Rightarrow> cxx_class \<Rightarrow> string \<Rightarrow> thrown res" where
  "trace_exception cxa_demangle st c msg =
     (if c = Trace_runtime_error \<or> c = Trace_logic_error then
        ebind (add_backtrace_string cxa_demangle st []) (\<lambda>b. Inr ((std_exception c msg)\<lparr>th_backtrace := b\<rparr>))
      else ebind (add_backtrace_string cxa_demangle st msg) (\<lambda>m. Inr (std_exception c m)))"

text \<open>\<^verbatim>\<open>std::system_error\<close> appends the text of the code; the texts of the category \<^verbatim>\<open>network\<close> are those of the system.\<close>

definition system_error :: "string \<Rightarrow> string \<Rightarrow> string \<Rightarrow> thrown" where
  "system_error category message msg =
     \<lparr>th_class = Std_system_error, th_what = msg @ '': '' @ message, th_backtrace = [], th_category = category\<rparr>"

definition network_error :: "(int \<Rightarrow> string) \<Rightarrow> int \<Rightarrow> string \<Rightarrow> thrown" where
  "network_error system_message errno msg =
     (system_error ''network'' (system_message errno) (c_str msg))\<lparr>th_class := Network_error\<rparr>"

subsection \<open>The handlers around a main function\<close>

text \<open>
  \<^verbatim>\<open>errors::print_\<close> and the overloads of \<^verbatim>\<open>print\<close>; the arguments of the command are \<open>None\<close> where a pointer is
  null.  The handlers for the two classes with a back trace of their own print it, too.
\<close>

definition errors_print_prefix :: "string option list \<Rightarrow> string \<Rightarrow> string \<Rightarrow> string" where
  "errors_print_prefix argv e desc =
     [CHR 0x0A] @ desc @ '' '' @ e
     @ (if argv \<noteq> [] then [CHR 0x0A] @ ''Command: '' @ concat (map (\<lambda>a. case a of None \<Rightarrow> [] | Some t \<Rightarrow> t @ '' '') argv)
        else [])"

definition errors_print :: "string option list \<Rightarrow> cxx_class \<Rightarrow> thrown \<Rightarrow> string \<Rightarrow> string" where
  "errors_print argv h e desc =
     errors_print_prefix argv (th_what e) desc
     @ (if h = Trace_logic_error \<or> h = Trace_runtime_error then [CHR 0x0A] @ th_backtrace e else []) @ [CHR 0x0A]"

text \<open>The handlers of \<^verbatim>\<open>catch_all_\<close> in their order, with the text and the result of each.\<close>

definition range_text :: string where
  "range_text = ''INTERNAL PROGRAM ERROR (out of range)'' @ [CHR 0x0A]
     @ [CHR 0x09] @ ''This represents an argument whose value is not within the'' @ [CHR 0x0A]
     @ [CHR 0x09] @ ''expected range (e.g., boundary checks in basic_string).'' @ [CHR 0x0A]"

definition length_text :: string where
  "length_text = ''INTERNAL PROGRAM ERROR (length)!'' @ [CHR 0x0A]
     @ ''An object is constructed that exceeds its maximum permitted size (e.g., a basic_string instance).'' @ [CHR 0x0A]"

definition pointer_text :: string where
  "pointer_text = ''INTERNAL PROGRAM ERROR (const char*)! '' @ [CHR 0x0A]
     @ ''Using const char* as an exception is VERY UGLY !!!'' @ [CHR 0x0A]"

definition handlers :: "(cxx_class \<times> string \<times> nat) list" where
  "handlers =
     [(Trace_out_of_range, range_text, 24),
      (Trace_length_error, length_text, 23),
      (Trace_invalid_argument, ''INTERNAL PROGRAM ERROR (invalid argument)!'', 22),
      (Trace_domain_error, ''INTERNAL PROGRAM ERROR (domain)!'', 21),
      (Trace_logic_error, ''INTERNAL PROGRAM ERROR (logic)!'', 20),
      (Trace_range_error, ''RUNTIME ERROR (range)!'', 13),
      (Trace_overflow_error, ''RUNTIME ERROR (overflow)!'', 12),
      (Trace_underflow_error, ''RUNTIME ERROR (underflow)!'', 11),
      (Trace_runtime_error, ''RUNTIME ERROR!'', 10),
      (Std_out_of_range, range_text, 44),
      (Std_length_error, length_text, 43),
      (Std_invalid_argument, ''INTERNAL PROGRAM ERROR (invalid argument)!'', 42),
      (Std_domain_error, ''INTERNAL PROGRAM ERROR (domain)!'', 41),
      (Std_logic_error, ''INTERNAL PROGRAM ERROR (logic)!'', 40),
      (Std_range_error, ''RUNTIME ERROR (range)!'', 33),
      (Std_overflow_error, ''RUNTIME ERROR (overflow)!'', 32),
      (Std_underflow_error, ''RUNTIME ERROR (underflow)!'', 31),
      (Std_system_error, ''SYSTEM ERROR!'', 34),
      (Std_runtime_error, ''RUNTIME ERROR!'', 30),
      (Std_exception, ''ERROR!'', 3),
      (Char_pointer, pointer_text, 2)]"

fun find_handler :: "cxx_class \<Rightarrow> (cxx_class \<times> string \<times> nat) list \<Rightarrow> (cxx_class \<times> string \<times> nat) option" where
  "find_handler c [] = None"
| "find_handler c ((h, desc, code) # hs) = (if is_a c h then Some (h, desc, code) else find_handler c hs)"

text \<open>
  The end of a process: the status that \<^verbatim>\<open>main\<close> returns, or \<^verbatim>\<open>std::exit (EXIT_FAILURE)\<close>, and what was written to
  the standard error.  The last handler prints a back trace.
\<close>

datatype process_end = Returned int | Exit_failure

definition catch_all_errors :: "(string \<Rightarrow> string option) \<Rightarrow> stack \<Rightarrow> string option list \<Rightarrow> thrown + int
    \<Rightarrow> (process_end \<times> string) res" where
  "catch_all_errors cxa_demangle st argv result =
     (case result of
        Inr r \<Rightarrow> Inr (Returned r, [])
      | Inl e \<Rightarrow>
          (case find_handler (th_class e) handlers of
             Some (h, desc, code) \<Rightarrow>
               Inr (Returned (int code), errors_print argv h e
                 (if h = Std_system_error then desc @ '' ('' @ th_category e @ '')'' else desc))
           | None \<Rightarrow>
               ebind (bt_write cxa_demangle st) (\<lambda>b.
                 Inr (Exit_failure, errors_print_prefix argv [] ''INTERNAL PROGRAM ERROR (...): unspecified!!!''
                   @ [CHR 0x0A] @ b))))"

subsection \<open>The log of the daemons\<close>

text \<open>
  \<^verbatim>\<open>log_errors\<close> of both programs: the exception is logged at a level that depends on its class and is thrown
  again; when the log fails, its exception is thrown instead.  \<open>system_failure\<close> is the exception of the log.
\<close>

definition log_level_of :: "cxx_class \<Rightarrow> severity" where
  "log_level_of c =
     (if is_a c Std_runtime_error then log_error
      else if is_a c Std_logic_error then critical
      else if is_a c Std_exception then alert
      else emergency)"

definition log_line_of :: "thrown \<Rightarrow> string" where
  "log_line_of e = (if is_a (th_class e) Std_exception then th_what e else ''Critical BUG!'')"

definition log_errors :: "string option \<Rightarrow> thrown \<Rightarrow> thrown option \<Rightarrow> logger \<Rightarrow> (thrown + int) \<times> logger" where
  "log_errors now system_failure body lg =
     (case body of
        None \<Rightarrow> (Inr 0, lg)
      | Some e \<Rightarrow>
          (case slog now (log_level_of (th_class e)) [log_line_of e] lg of
             (Inl _, lg) \<Rightarrow> (Inl system_failure, lg)
           | (Inr _, lg) \<Rightarrow> (Inl e, lg)))"

subsection \<open>Fatal signals\<close>

datatype fatal_signal = SIGSEGV | SIGBUS | SIGILL | SIGFPE | SIGABRT

fun signal_ret :: "fatal_signal \<Rightarrow> nat" where
  "signal_ret SIGSEGV = 200"
| "signal_ret SIGBUS = 300"
| "signal_ret SIGILL = 400"
| "signal_ret SIGFPE = 500"
| "signal_ret SIGABRT = 100"

fun signal_text :: "fatal_signal \<Rightarrow> string" where
  "signal_text SIGSEGV = [CHR 0x0A] @ ''SIGNAL ERROR! (SEGV)'' @ [CHR 0x0A]"
| "signal_text SIGBUS = [CHR 0x0A] @ ''SIGNAL ERROR! (BUS )'' @ [CHR 0x0A]"
| "signal_text SIGILL = [CHR 0x0A] @ ''SIGNAL ERROR! (ILL )'' @ [CHR 0x0A]"
| "signal_text SIGFPE = [CHR 0x0A] @ ''SIGNAL ERROR! (FPE )'' @ [CHR 0x0A]"
| "signal_text SIGABRT = [CHR 0x0A] @ ''SIGNAL ERROR! (ABRT)'' @ [CHR 0x0A]"

text \<open>What a handler does: it returns, ends the process at once with a status, or aborts it.\<close>

datatype signal_end = Handler_returns | Exits_with nat | Aborts

text \<open>
  \<^verbatim>\<open>backtrace_on_signal\<close>: \<open>count\<close> is the number of signals before, \<open>written\<close> the result of \<^verbatim>\<open>write\<close>; the result
  has the new count, the texts of the message and of the back trace, and the end.
\<close>

definition backtrace_on_signal :: "int \<Rightarrow> string \<Rightarrow> stack \<Rightarrow> fatal_signal \<Rightarrow> nat \<Rightarrow> nat \<times> string \<times> signal_end" where
  "backtrace_on_signal written frames st sig count =
     (count + 1,
      (if count \<noteq> 0 then [] else take 22 (signal_text sig) @ (if 0 \<le> written then frames else [])),
      (if count \<noteq> 0 then if sig \<noteq> SIGABRT then Aborts else Handler_returns
       else if sig \<noteq> SIGABRT then Exits_with (signal_ret sig div 100 + bt_frames st * 10) else Handler_returns))"

text \<open>\<^verbatim>\<open>catch_system_signals\<close>: the handlers are set in this order until a call fails.\<close>

definition caught_signals :: "fatal_signal list" where
  "caught_signals = [SIGFPE, SIGSEGV, SIGILL, SIGABRT, SIGBUS]"

fun set_signals :: "(fatal_signal \<Rightarrow> int) \<Rightarrow> thrown \<Rightarrow> fatal_signal list \<Rightarrow> fatal_signal list \<Rightarrow> (thrown + unit) \<times> fatal_signal list" where
  "set_signals sigaction failure [] caught = (Inr (), caught)"
| "set_signals sigaction failure (s # ss) caught =
     (if sigaction s \<noteq> 0 then (Inl failure, caught) else set_signals sigaction failure ss (caught @ [s]))"

definition catch_system_signals :: "(fatal_signal \<Rightarrow> int) \<Rightarrow> thrown \<Rightarrow> (thrown + unit) \<times> fatal_signal list" where
  "catch_system_signals sigaction failure = set_signals sigaction failure caught_signals []"

section \<open>The order of the handlers\<close>

declare is_a.simps [simp del]

lemma is_a_refl [simp]: "is_a c c"
  by (simp add: is_a.simps)

lemma is_a_step: "is_a c d \<longleftrightarrow> c = d \<or> (\<exists>b. cxx_base c = Some b \<and> is_a b d)"
  by (subst is_a.simps) (auto split: option.splits)

lemma is_a_trans: "is_a a b \<Longrightarrow> is_a b c \<Longrightarrow> is_a a c"
proof (induction a b rule: is_a.induct)
  case (1 a b)
  then show ?case using is_a_step [of a b] is_a_step [of a c] by auto
qed

lemma is_a_depth: "is_a a b \<Longrightarrow> cxx_depth b \<le> cxx_depth a \<and> (cxx_depth b = cxx_depth a \<longrightarrow> a = b)"
proof (induction a b rule: is_a.induct)
  case (1 a b)
  show ?case
  proof (cases "a = b")
    case False
    then obtain c where "cxx_base a = Some c" "is_a c b" using "1.prems" is_a_step [of a b] by auto
    then show ?thesis using "1.IH" [of c] cxx_depth_base [of a c] by fastforce
  qed simp
qed

text \<open>Derivation is an order on the classes: a derived class is below its base.\<close>

instantiation cxx_class :: order
begin

definition less_eq_cxx_class :: "cxx_class \<Rightarrow> cxx_class \<Rightarrow> bool" where
  "c \<le> d \<longleftrightarrow> is_a c d"

definition less_cxx_class :: "cxx_class \<Rightarrow> cxx_class \<Rightarrow> bool" where
  "c < d \<longleftrightarrow> is_a c d \<and> \<not> is_a d c"

instance
proof
  fix a b c :: cxx_class
  show "a < b \<longleftrightarrow> a \<le> b \<and> \<not> b \<le> a" by (simp add: less_eq_cxx_class_def less_cxx_class_def)
  show "a \<le> a" by (simp add: less_eq_cxx_class_def)
  show "a \<le> b \<Longrightarrow> b \<le> c \<Longrightarrow> a \<le> c" by (auto simp: less_eq_cxx_class_def intro: is_a_trans)
  show "a \<le> b \<Longrightarrow> b \<le> a \<Longrightarrow> a = b"
    using is_a_depth [of a b] is_a_depth [of b a] by (auto simp: less_eq_cxx_class_def)
qed

end

text \<open>There is one base class at most, so the classes above a class are ordered.\<close>

lemma is_a_linear: "is_a c a \<Longrightarrow> is_a c b \<Longrightarrow> is_a a b \<or> is_a b a"
proof (induction c a rule: is_a.induct)
  case (1 c a)
  show ?case
  proof (cases "c = a \<or> c = b")
    case True
    then show ?thesis using 1(2,3) by auto
  next
    case False
    obtain c' where b: "cxx_base c = Some c'" "is_a c' a" using 1(2) False is_a_step [of c a] by auto
    moreover have "is_a c' b" using 1(3) False b(1) is_a_step [of c b] by auto
    ultimately show ?thesis using 1(1) by blast
  qed
qed

text \<open>Handlers are in order if none stands behind one for a base class.\<close>

definition in_order :: "(cxx_class \<times> string \<times> nat) list \<Rightarrow> bool" where
  "in_order hs = sorted_wrt (\<lambda>(h, _) (h', _). \<not> is_a h' h) hs"

lemma find_handler_most_specific:
  assumes "in_order hs" "find_handler c hs = Some (h, desc, code)"
  shows "is_a c h" "(h, desc, code) \<in> set hs" "\<And>h' r. (h', r) \<in> set hs \<Longrightarrow> is_a c h' \<Longrightarrow> is_a h h'"
proof -
  have "is_a c h \<and> (h, desc, code) \<in> set hs \<and> (\<forall>(h', r) \<in> set hs. is_a c h' \<longrightarrow> is_a h h')"
    using assms
  proof (induction c hs rule: find_handler.induct)
    case (2 c h1 d1 c1 hs)
    then show ?case
      using is_a_linear [of c h1] by (auto simp: in_order_def split: if_splits)
  qed simp
  then show "is_a c h" "(h, desc, code) \<in> set hs" "\<And>h' r. (h', r) \<in> set hs \<Longrightarrow> is_a c h' \<Longrightarrow> is_a h h'"
    by auto
qed

lemma find_handler_own:
  "in_order hs \<Longrightarrow> (h, desc, code) \<in> set hs \<Longrightarrow> find_handler h hs = Some (h, desc, code)"
  by (induction h hs rule: find_handler.induct) (auto simp: in_order_def)

lemma handlers_in_order: "in_order handlers"
  by (simp add: in_order_def handlers_def is_a.simps)

lemma find_handler_none: "find_handler c hs = None \<longleftrightarrow> (\<forall>(h, r) \<in> set hs. \<not> is_a c h)"
  by (induction c hs rule: find_handler.induct) auto

lemma handler_codes: "distinct (map (\<lambda>(_, _, code). code) handlers)" "\<forall>(_, _, code) \<in> set handlers. 0 < code \<and> code < 256"
  by (simp_all add: handlers_def)

lemma handler_code_unique:
  "(h, d, code) \<in> set handlers \<Longrightarrow> (h', d', code) \<in> set handlers \<Longrightarrow> h = h' \<and> d = d'"
  using handler_codes(1) by (force simp: distinct_map inj_on_def)

text \<open>The handler that runs is the one for the least class above that of the exception.\<close>

lemma find_handler_least:
  assumes "find_handler c handlers = Some (h, desc, code)"
  shows "h = (LEAST k. c \<le> k \<and> k \<in> fst ` set handlers)"
proof -
  note m = find_handler_most_specific [OF handlers_in_order assms]
  show ?thesis
    by (rule Least_equality [symmetric]) (use m in \<open>force simp: less_eq_cxx_class_def\<close>)+
qed

section \<open>Reports\<close>

text \<open>
  The class of an exception as far as the other theories tell classes apart: what is thrown may be of a
  derived class.
\<close>

fun exn_class :: "exn \<Rightarrow> cxx_class" where
  "exn_class (Runtime_error m) = Std_runtime_error"
| "exn_class (Logic_error m) = Std_logic_error"
| "exn_class (Net_error m) = Network_error"
| "exn_class Bad_cast = Std_bad_cast"
| "exn_class Undefined_behaviour = Anything"

lemma exn_class_exception: "e \<noteq> Undefined_behaviour \<Longrightarrow> is_a c (exn_class e) \<Longrightarrow> is_a c Std_exception"
  by (cases e) (auto intro: is_a_trans simp: is_a.simps [of Std_runtime_error] is_a.simps [of Std_logic_error]
      is_a.simps [of Network_error] is_a.simps [of Std_system_error] is_a.simps [of Std_bad_cast])

text \<open>
  Whatever exception of the standard library, of the namespace \<^verbatim>\<open>trace\<close> or of the network leaves a program,
  the process returns a status other than zero, which identifies the handler, this handler is the one for
  the most specific class that the code lists, and the text on the standard error contains \<^verbatim>\<open>what()\<close>.
\<close>

lemma uncaught_exception_report:
  assumes "is_a (th_class e) Std_exception"
  shows "\<exists>h desc code text. catch_all_errors dm st argv (Inl e) = Inr (Returned (int code), text)
    \<and> 0 < code \<and> code < 256 \<and> (h, desc, code) \<in> set handlers \<and> is_a (th_class e) h
    \<and> (\<forall>(h', r) \<in> set handlers. is_a (th_class e) h' \<longrightarrow> is_a h h')
    \<and> (\<forall>h' d'. (h', d', code) \<in> set handlers \<longrightarrow> h' = h)
    \<and> (\<exists>a b. text = a @ th_what e @ b)"
proof -
  have "(Std_exception, ''ERROR!'', 3) \<in> set handlers" by (simp add: handlers_def)
  then obtain h desc code where f: "find_handler (th_class e) handlers = Some (h, desc, code)"
    using assms find_handler_none [of "th_class e" handlers] by (cases "find_handler (th_class e) handlers") auto
  note m = find_handler_most_specific [OF handlers_in_order f]
  define d where "d = (if h = Std_system_error then desc @ '' ('' @ th_category e @ '')'' else desc)"
  have c: "catch_all_errors dm st argv (Inl e) = Inr (Returned (int code), errors_print argv h e d)"
    using f by (simp add: catch_all_errors_def d_def)
  have t: "errors_print argv h e d = ([CHR 0x0A] @ d @ '' '') @ th_what e
      @ drop (Suc (length d + 1 + length (th_what e))) (errors_print argv h e d)"
    by (simp add: errors_print_def errors_print_prefix_def)
  have "0 < code \<and> code < 256" using handler_codes(2) m(2) by auto
  moreover have "\<forall>(h', r) \<in> set handlers. is_a (th_class e) h' \<longrightarrow> is_a h h'" using m(3) by auto
  moreover have "\<forall>h' d'. (h', d', code) \<in> set handlers \<longrightarrow> h' = h" using handler_code_unique m(2) by blast
  ultimately show ?thesis using c m(1,2) t by blast
qed

text \<open>
  The daemons log the exception and end with its report; only if the log itself fails, the report is
  about the log.
\<close>

lemma log_errors_report:
  assumes "slog now (log_level_of (th_class e)) [log_line_of e] lg = (Inr (), lg')"
  shows "log_errors now failure (Some e) lg = (Inl e, lg')"
  using assms by (simp add: log_errors_def)

lemma log_levels:
  "log_level_of Std_runtime_error = log_error" "log_level_of Network_error = log_error"
  "log_level_of Std_logic_error = critical" "log_level_of Std_out_of_range = critical"
  "log_level_of Std_bad_cast = alert" "log_level_of Anything = emergency"
  by (simp_all add: log_level_of_def is_a.simps)

text \<open>The text for a runtime error, as the tests of the program expect it.\<close>

lemma runtime_error_report:
  "catch_all_errors dm st argv (Inl (std_exception Std_runtime_error msg))
     = Inr (Returned 30, errors_print_prefix argv msg ''RUNTIME ERROR!'' @ [CHR 0x0A])"
  "catch_all_errors dm st argv (Inl (std_exception Std_bad_cast msg))
     = Inr (Returned 3, errors_print_prefix argv msg ''ERROR!'' @ [CHR 0x0A])"
  by (simp_all add: catch_all_errors_def std_exception_def handlers_def is_a.simps errors_print_def)

text \<open>The status after a fatal signal is between 2 and 255 and its last digit is that of the signal.\<close>

lemma same_digit: "a + k * 10 = b + m * 10 \<Longrightarrow> a < 10 \<Longrightarrow> b < 10 \<Longrightarrow> a = b" for a b k m :: nat
  by presburger

lemma signal_digit:
  "sig \<noteq> SIGABRT \<Longrightarrow> 2 \<le> signal_ret sig div 100 \<and> signal_ret sig div 100 \<le> 5"
  "signal_ret s1 div 100 = signal_ret s2 div 100 \<Longrightarrow> s1 = s2"
proof -
  show "sig \<noteq> SIGABRT \<Longrightarrow> 2 \<le> signal_ret sig div 100 \<and> signal_ret sig div 100 \<le> 5" by (cases sig) simp_all
  show "signal_ret s1 div 100 = signal_ret s2 div 100 \<Longrightarrow> s1 = s2" by (cases s1; cases s2) simp_all
qed

lemma signal_end:
  "snd (snd (backtrace_on_signal w fr st sig 0)) = Exits_with n
     \<longleftrightarrow> sig \<noteq> SIGABRT \<and> n = signal_ret sig div 100 + bt_frames st * 10"
  by (auto simp: backtrace_on_signal_def)

lemma signal_status:
  assumes "sig \<noteq> SIGABRT" "st_count st \<le> 25"
  shows "\<exists>n. snd (snd (backtrace_on_signal w fr st sig 0)) = Exits_with n \<and> 2 \<le> n \<and> n < 256
    \<and> (\<forall>sig' st' w' fr'. snd (snd (backtrace_on_signal w' fr' st' sig' 0)) = Exits_with n \<longrightarrow> sig' = sig)"
proof -
  have b: "bt_frames st \<le> 25" using assms(2) by (auto simp: bt_frames_def)
  let ?n = "signal_ret sig div 100 + bt_frames st * 10"
  have u: "sig' = sig" if "sig' \<noteq> SIGABRT" "?n = signal_ret sig' div 100 + k * 10" for sig' k
    using same_digit [OF that(2)] signal_digit(1) [OF that(1)] signal_digit(1) [OF assms(1)] signal_digit(2) by simp
  show ?thesis
    unfolding signal_end using assms(1) b signal_digit(1) [OF assms(1)] u by (intro exI [of _ ?n]) auto
qed

lemma find_char_first: "c \<notin> set xs \<Longrightarrow> find_char c (xs @ c # ys) = Some (length xs)"
  by (induction xs) auto

lemma demangle_frame:
  assumes "CHR 0x28 \<notin> set module" "CHR 0x2B \<notin> set func" "func \<noteq> []" "NUL \<notin> set func" "dm func = Some name"
  shows "demangle dm (module @ CHR 0x28 # func @ CHR 0x2B # rest) = module @ CHR 0x28 # name @ CHR 0x2B # rest"
proof -
  have "c_str func = func" using assms(4) by (auto simp: c_str_def takeWhile_eq_all_conv)
  then show ?thesis
    using assms find_char_first [OF assms(1)] find_char_first [OF assms(2)] by (simp add: demangle_def)
qed

lemma backtrace_without_memory:
  "1 < st_count st \<Longrightarrow> st_count st \<le> 1000 \<Longrightarrow> st_symbols st = None \<Longrightarrow> add_backtrace_string dm st msg = Inl Undefined_behaviour"
  by (simp add: add_backtrace_string_def bt_write_def bt_frames_def)

text \<open>The handlers are set exactly if every call succeeds, and otherwise those before the first failure.\<close>

lemma set_signals_result:
  "set_signals sigaction failure ss caught =
     (if \<forall>s \<in> set ss. sigaction s = 0 then Inr () else Inl failure, caught @ takeWhile (\<lambda>s. sigaction s = 0) ss)"
  by (induction ss arbitrary: caught) simp_all

end
