(* ===== verification/Cdrill.thy ===== *)
theory Cdrill
  imports Forwarding Error_Report
begin

text \<open>
  The command line client \<^verbatim>\<open>cdrill\<close> (\<^verbatim>\<open>dns/crypt/srcz/cdrill.cpp\<close>): it asks one question, in the clear or
  through DNSCrypt, and prints the answer.  It is built from the queries, the upstream requests and the
  certificates of the other theories; the sockets that the system gives to its requests are arguments.
\<close>

section \<open>Definitions\<close>

subsection \<open>Arguments\<close>

record drill =
  dr_tcp :: proto
  dr_txt :: bool
  dr_save :: bool
  dr_question :: string
  dr_ip_port :: string
  dr_host_key :: string
  dr_log :: logger

definition new_drill :: "logger \<Rightarrow> drill" where
  "new_drill lg = \<lparr>dr_tcp = udp, dr_txt = False, dr_save = False, dr_question = [], dr_ip_port = ''127.0.0.1:53'',
     dr_host_key = [], dr_log = lg\<rparr>"

definition drill_arg :: "string \<Rightarrow> drill \<Rightarrow> drill res" where
  "drill_arg s d =
     (if s = ''-t'' then Inr (d\<lparr>dr_tcp := tcp\<rparr>)
      else if s = ''-txt'' then Inr (d\<lparr>dr_txt := True\<rparr>)
      else if s = ''-d'' then Inr (d\<lparr>dr_log := logger_init (word_of_nat (severity_num debug)) False (dr_log d)\<rparr>)
      else if s = ''-s'' then Inr (d\<lparr>dr_save := True\<rparr>)
      else case s of
          [] \<Rightarrow> Inl (Logic_error ''out_of_range'')
        | c # t \<Rightarrow>
            if c = CHR 0x40 then Inr (d\<lparr>dr_ip_port := t\<rparr>)
            else if c = CHR ''+'' then Inr (d\<lparr>dr_host_key := t\<rparr>)
            else Inr (d\<lparr>dr_question := s\<rparr>))"

fun drill_args :: "string list \<Rightarrow> drill \<Rightarrow> drill res" where
  "drill_args [] d = Inr d"
| "drill_args (s # ss) d = ebind (drill_arg s d) (drill_args ss)"

subsection \<open>Saving the question\<close>

text \<open>
  With \<^verbatim>\<open>-s\<close> the question is saved in two files, the way it goes over a datagram socket and over a stream;
  a file that cannot be opened is skipped.
\<close>

definition udp_file :: string where "udp_file = ''/tmp/ccdrill-tmp-udp.bin''"
definition tcp_file :: string where "tcp_file = ''/tmp/ccdrill-tmp-tcp.bin''"

definition stream_copy :: "packet \<Rightarrow> packet" where
  "stream_copy msg = packet_append (packet_append_bytes new_query (store_u16 (htons (word_of_nat (pkt_size msg))))) msg"

definition save_question :: "(string \<Rightarrow> bool) \<Rightarrow> packet \<Rightarrow> (string \<times> byte list) list" where
  "save_question can_open msg =
     (if can_open udp_file then [(udp_file, content msg)] else [])
     @ (if can_open tcp_file then [(tcp_file, content (stream_copy msg))] else [])"

subsection \<open>Requests\<close>

text \<open>What the system gives to a request: a socket of each kind and the results of the calls on it.\<close>

record drill_net =
  dn_setup :: setup_results
  dn_udp :: udp_end
  dn_tcp :: tcp_end

definition request_timeout :: real where "request_timeout = 5.5"

definition new_request :: "drill_net \<Rightarrow> proto \<Rightarrow> address \<Rightarrow> packet \<Rightarrow> upstream res" where
  "new_request net tt addr q =
     (if tt = tcp then tcp_upstream (dn_setup net) (dn_tcp net) q request_timeout
      else udp_out (dn_setup net) addr (dn_udp net) q request_timeout)"

text \<open>\<^verbatim>\<open>cert_request\<close>: a request for the certificate, which makes the request with the question when it is answered.\<close>

record cert_request =
  cq_base :: upstream
  cq_provider :: resolver
  cq_question :: packet
  cq_dns_request :: "upstream option"

datatype drill_request = Plain_request upstream | Crypt_request cert_request

definition cert_request_new :: "nat \<Rightarrow> drill_net \<Rightarrow> resolver \<Rightarrow> packet \<Rightarrow> cert_request res" where
  "cert_request_new rnd net c q =
     ebind (query_new_txt rnd (rs_host_name c) True) (\<lambda>cq.
     ebind (new_request net (rs_proto c) (rs_address c) cq) (\<lambda>u.
       Inr \<lparr>cq_base = u, cq_provider = c, cq_question = q, cq_dns_request = None\<rparr>))"

text \<open>\<^verbatim>\<open>succ\<close>, and \<^verbatim>\<open>pass_answer_downstream\<close> for a message that has arrived.\<close>

definition cert_succ :: "cert_request \<Rightarrow> bool" where
  "cert_succ c \<longleftrightarrow> cq_dns_request c \<noteq> None"

definition cert_answer :: "sodium \<Rightarrow> int \<Rightarrow> drill_net \<Rightarrow> cert_request \<Rightarrow> unit res \<times> cert_request" where
  "cert_answer lib tnow net c =
     (case ebind (host_type_info (us_question (cq_base c))) (\<lambda>_. get_txt_answer (us_question (cq_base c))) of
        Inl e \<Rightarrow> (Inl e, c)
      | Inr txt_data \<Rightarrow>
          let (r, provider) = find_valid_certificate lib tnow txt_data (cq_provider c);
              c = c\<lparr>cq_provider := provider\<rparr>
          in case r of
               Inl e \<Rightarrow> (Inl e, c)
             | Inr True \<Rightarrow>
                 let base = cq_base c; c = c\<lparr>cq_base := base\<lparr>us_question := set_size 0 (us_question base)\<rparr>\<rparr> in
                 (case new_request net (rs_proto provider) (rs_address provider) (cq_question c) of
                    Inl e \<Rightarrow> (Inl e, c)
                  | Inr u \<Rightarrow> (Inr (), c\<lparr>cq_dns_request := Some u\<rparr>))
             | Inr False \<Rightarrow> (Inr (), c))"

text \<open>
  The handlers of a certificate request are those of an upstream request to a plain copy of the provider;
  when one of them passes a message on, \<open>cert_answer\<close> runs on it.  A network error of the new request is
  caught by the handler, which has nothing to pass on any more, since the message has been cleared; every
  other exception leaves the handler.
\<close>

definition cert_ops :: "inet_lib \<Rightarrow> sodium \<Rightarrow> int \<Rightarrow> drill_net \<Rightarrow> cert_request \<Rightarrow> provider_ops" where
  "cert_ops inet lib tnow net c =
     \<lparr>po_lib = inet, po_fold = Inr, po_unfold = Inr, po_servfail = mark_servfail,
      po_pass = (\<lambda>m. case fst (cert_answer lib tnow net (c\<lparr>cq_base := (cq_base c)\<lparr>us_question := m\<rparr>\<rparr>)) of
        Inl e \<Rightarrow> if is_net_error e then Inr () else Inl e | Inr _ \<Rightarrow> Inr ())\<rparr>"

definition cert_handle :: "(provider_ops \<Rightarrow> upstream \<Rightarrow> unit res \<times> upstream) \<Rightarrow> inet_lib \<Rightarrow> sodium \<Rightarrow> int \<Rightarrow> drill_net
    \<Rightarrow> cert_request \<Rightarrow> unit res \<times> cert_request" where
  "cert_handle handler inet lib tnow net c =
     (let (r, u) = handler (cert_ops inet lib tnow net c) (cq_base c); c' = c\<lparr>cq_base := u\<rparr> in
      (r, if us_passed u = us_passed (cq_base c) then c' else snd (cert_answer lib tnow net c')))"

subsection \<open>The request with the question\<close>

text \<open>
  \<^verbatim>\<open>fold\<close> and \<^verbatim>\<open>unfold\<close> of a resolver cast the packet to their class \<^verbatim>\<open>message\<close>; the message that
  \<^verbatim>\<open>cert_request\<close> makes for its question is a \<^verbatim>\<open>dns::query\<close>.
\<close>

datatype packet_class = Dns_query | Crypt_message

definition cast_message :: "packet_class \<Rightarrow> unit res" where
  "cast_message c = (if c = Crypt_message then Inr () else Inl Bad_cast)"

definition question_ops :: "inet_lib \<Rightarrow> sodium \<Rightarrow> crypt_env \<Rightarrow> byte list \<Rightarrow> packet_class \<Rightarrow> resolver \<Rightarrow> provider_ops" where
  "question_ops inet lib ce nonce cls rs =
     \<lparr>po_lib = inet,
      po_fold = (\<lambda>p. ebind (cast_message cls) (\<lambda>_.
        ebind (fold_message lib ce rs \<lparr>cm_packet = p, cm_session_nonce = nonce\<rparr>) (\<lambda>m. Inr (cm_packet m)))),
      po_unfold = (\<lambda>p. ebind (cast_message cls) (\<lambda>_.
        ebind (unfold_message lib rs \<lparr>cm_packet = p, cm_session_nonce = nonce\<rparr>) (\<lambda>m. Inr (cm_packet m)))),
      po_servfail = mark_servfail, po_pass = (\<lambda>_. Inr ())\<rparr>"

definition cert_question_class :: packet_class where "cert_question_class = Dns_query"

subsection \<open>The program\<close>

definition split_host_key :: "string \<Rightarrow> (string \<times> string) res" where
  "split_host_key host_key =
     (let (key, host) = (case rfind_char CHR ''_'' host_key of
          None \<Rightarrow> (host_key, host_key)
        | Some pos \<Rightarrow> (drop (1 + pos) host_key, take pos host_key))
      in if key = [] \<or> host = [] then Inl (Runtime_error ''bad DNScrypt host key: '') else Inr (host, key))"

definition request_for :: "sodium \<Rightarrow> nat \<Rightarrow> byte list \<times> byte list \<Rightarrow> drill_net \<Rightarrow> drill \<Rightarrow> address \<Rightarrow> packet \<Rightarrow> drill_request res" where
  "request_for lib rnd keys net d addr msg =
     (if dr_host_key d \<noteq> [] then
        ebind (split_host_key (dr_host_key d)) (\<lambda>(host, key).
        ebind (pubkey_of_string lib (c_str key)) (\<lambda>pk.
        ebind (cert_request_new rnd net (resolver_dummy keys host addr pk (dr_tcp d)) msg) (\<lambda>c.
          Inr (Crypt_request c))))
      else ebind (new_request net (dr_tcp d) addr msg) (\<lambda>u. Inr (Plain_request u)))"

text \<open>The results of \<open>make_up\<close> and \<open>drill_start\<close> include the files that have been written.\<close>

definition make_up :: "(string \<Rightarrow> bool) \<Rightarrow> sodium \<Rightarrow> nat \<Rightarrow> nat \<Rightarrow> byte list \<times> byte list \<Rightarrow> drill_net \<Rightarrow> drill \<Rightarrow> address
    \<Rightarrow> drill_request res \<times> (string \<times> byte list) list" where
  "make_up can_open lib rnd rnd' keys net d addr =
     (case query_new_txt rnd (dr_question d) (dr_txt d) of
        Inl e \<Rightarrow> (Inl e, [])
      | Inr msg \<Rightarrow>
          (request_for lib rnd' keys net d addr msg, if dr_save d then save_question can_open msg else []))"

text \<open>\<^verbatim>\<open>run\<close> up to the event loop; nothing happens without a question.\<close>

definition drill_start :: "(string \<Rightarrow> bool) \<Rightarrow> inet_lib \<Rightarrow> sodium \<Rightarrow> nat \<Rightarrow> nat \<Rightarrow> byte list \<times> byte list \<Rightarrow> drill_net \<Rightarrow> logger
    \<Rightarrow> string list \<Rightarrow> drill_request option res \<times> (string \<times> byte list) list" where
  "drill_start can_open inet lib rnd rnd' keys net lg args =
     (case drill_args args (new_drill lg) of
        Inl e \<Rightarrow> (Inl e, [])
      | Inr d \<Rightarrow>
          if dr_question d \<noteq> [] then
            case address_of_string inet (dr_ip_port d) crypt_default_port of
              Inl e \<Rightarrow> (Inl e, [])
            | Inr addr \<Rightarrow> apfst (\<lambda>r. ebind r (\<lambda>req. Inr (Some req))) (make_up can_open lib rnd rnd' keys net d addr)
          else (Inr None, []))"

text \<open>After the event loop: the message that is printed, and its text.\<close>

fun drill_answer :: "drill_request \<Rightarrow> packet" where
  "drill_answer (Plain_request u) = us_question u"
| "drill_answer (Crypt_request c) =
     (case cq_dns_request c of Some u \<Rightarrow> us_question u | None \<Rightarrow> us_question (cq_base c))"

definition drill_print :: "inet_lib \<Rightarrow> drill_request \<Rightarrow> string res" where
  "drill_print inet req =
     (if pkt_size (drill_answer req) > 0
      then ebind (query_print inet (drill_answer req)) (\<lambda>t. Inr ([CHR 0x0A] @ t)) else Inr [])"

text \<open>A request in the clear: a plain provider, and nobody downstream.\<close>

definition clear_ops :: "inet_lib \<Rightarrow> provider_ops" where
  "clear_ops inet = \<lparr>po_lib = inet, po_fold = Inr, po_unfold = Inr, po_servfail = mark_servfail, po_pass = (\<lambda>_. Inr ())\<rparr>"

section \<open>Arguments and files\<close>

lemma drill_args_append: "drill_args (as @ bs) d = ebind (drill_args as d) (drill_args bs)"
  by (induction as d rule: drill_args.induct) (auto simp: ebind_def split: sum.splits)

lemma empty_argument: "drill_args (as @ [] # bs) d = Inl (Logic_error ''out_of_range'') \<or> (\<exists>e. drill_args as d = Inl e)"
  by (cases "drill_args as d") (simp_all add: drill_args_append drill_arg_def)

lemma rfind_char_first: "c \<notin> set ys \<Longrightarrow> rfind_char c (xs @ c # ys) = Some (length xs)"
  using find_char_first [of c "rev ys" "rev xs"] by (simp add: rfind_char_def)

lemma split_host_key_name:
  "CHR ''_'' \<notin> set key \<Longrightarrow> key \<noteq> [] \<Longrightarrow> host \<noteq> [] \<Longrightarrow> split_host_key (host @ CHR ''_'' # key) = Inr (host, key)"
  by (simp add: split_host_key_def rfind_char_first)

text \<open>The file for streams holds what goes over a stream.\<close>

lemma stream_copy_frame:
  assumes "wf_packet msg" "pkt_size msg + 2 \<le> max_size"
  shows "content (stream_copy msg) = frame (content msg)"
proof -
  let ?len = "store_u16 (htons (word_of_nat (pkt_size msg)))"
  have "length ?len \<le> length (pkt_bytes new_query)" by (simp add: wf_new_query max_size_def)
  note f = packet_append_fits [OF wf_new_query(1,2) this]
  have "pkt_size (packet_append_bytes new_query ?len) = 2" using f(1,3) length_content by fastforce
  then show ?thesis
    using packet_append_content(1) [OF f(1) assms(1)] f(3) assms
    by (simp add: stream_copy_def frame_def max_size_def)
qed

section \<open>Requests\<close>

lemma cert_ops_quiet: "passes_quietly (cert_ops inet lib tnow net c)"
  by (auto simp: passes_quietly_def cert_ops_def split: sum.splits if_splits)

lemma new_request_cases:
  assumes "new_request net tt addr q = Inr u"
  shows "active u" "us_send u" "us_question u = q"
  using assms new_requests [of "dn_setup net" addr "dn_udp net" q request_timeout u "dn_tcp net"]
  by (simp_all add: new_request_def split: if_splits)

text \<open>The cast fails before anything is sent, and the handler does not catch it.\<close>

lemma bad_cast_on_send:
  assumes "conn_ready (us_conn u) = Inr True" "0 < pkt_size (us_question u)"
  shows "on_send (question_ops inet lib ce nonce Dns_query rs) u = (Inl Bad_cast, u)"
  using assms
  by (simp add: on_send_def send_question_def fold_and_send_def question_ops_def cast_message_def catch_net_def andthen_def)

lemma send_clear_datagram:
  assumes "us_conn u = Udp_conn a ep" "ep_sends ep = []" "is_valid (ep_handle ep)" "0 < pkt_size (us_question u)"
    "wf_packet (us_question u)"
  shows "on_send (clear_ops inet) u = (Inr (), u\<lparr>us_question := set_size 0 (us_question u), us_send := False, us_receive := True,
    us_conn := Udp_conn a (ep\<lparr>ep_out := ep_out ep @ [(a, 128, content (us_question u))]\<rparr>)\<rparr>)"
proof -
  have n: "next_send ep = (Send_all, ep)" using assms(2) by (simp add: next_send_def)
  have d: "\<not> ep_handle ep < 0" using assms(3) by (simp add: is_valid_def)
  have "content (us_question u) \<noteq> []" using length_content [OF assms(5)] assms(4) by fastforce
  then show ?thesis
    using assms n d
    by (simp add: on_send_def send_question_def fold_and_send_def clear_ops_def catch_net_def andthen_def
        udp_send_to_def udp_send_to_socket_def begin_receiving_def upstream_start_def connection_descriptor_def Let_def)
qed

section \<open>Properties\<close>

text \<open>
  C21. The client asks and prints.  Started with a host name, \<^verbatim>\<open>cdrill\<close> makes the question for its address;
  when the socket is writable it sends exactly this question to the server, and then waits; and the answer
  that arrives, whatever it is, becomes the message that is printed, with everything stopped, so that
  the event loop ends.
\<close>

theorem drill_asks_and_prints:
  assumes names: "list_all valid_label ls" "ls \<noteq> []" "length (dotted ls) \<le> 256"
      "host_of ls dot \<notin> {''-t'', ''-txt'', ''-d'', ''-s''}"
    and addr: "address_of_string inet ''127.0.0.1:53'' crypt_default_port = Inr a"
    and net: "is_valid (ep_handle (dn_udp net))" "ep_sends (dn_udp net) = []" "ep_close (dn_udp net) = 0"
      "0 < su_issock (dn_setup net)" "0 \<le> su_getfl (dn_setup net)" "su_setfl (dn_setup net) \<noteq> -1"
    and arrives: "ep_in (dn_udp net) = Bytes (server, len, m) # rest" "m \<noteq> []" "length m \<le> max_size"
  shows "\<exists>u u1 u2. drill_start can_open inet lib rnd rnd' keys net lg [host_of ls dot] = (Inr (Some (Plain_request u)), [])
    \<and> content (us_question u) = wire_query ls type_a (word_of_nat (1 + rnd mod 65500)) \<and> us_send u
    \<and> on_send (clear_ops inet) u = (Inr (), u1) \<and> us_receive u1 \<and> us_timeout u1
    \<and> us_conn u1 = Udp_conn a ((dn_udp net)\<lparr>ep_out := ep_out (dn_udp net) @ [(a, 128, content (us_question u))]\<rparr>)
    \<and> on_receive (clear_ops inet) u1 = (Inr (), u2) \<and> stopped u2
    \<and> content (drill_answer (Plain_request u2)) = m"
proof -
  let ?h = "host_of ls dot" and ?ep = "dn_udp net"
  obtain q where q: "query_new_txt rnd ?h False = Inr q" "wf_packet q"
    "content q = wire_query ls type_a (word_of_nat (1 + rnd mod 65500))" "length (pkt_bytes q) = max_size"
    using host_question [OF names(1-3), of rnd dot False] by auto
  have size: "0 < pkt_size q" using wire_query_parts(1) [OF q(3,2)] by simp
  have args: "drill_args [?h] (new_drill lg) = Inr ((new_drill lg)\<lparr>dr_question := ?h\<rparr>)"
  proof -
    obtain l ls' where ls: "ls = l # ls'" using names(2) by (cases ls) auto
    then obtain c t where l: "l = c # t" "is_dns_char c"
      using names(1) by (cases l) (auto simp: valid_label_def)
    then obtain t' where c: "?h = c # t'" by (cases dot) (simp_all add: host_of_def ls)
    have "c \<noteq> CHR 0x40" "c \<noteq> CHR ''+''" using l(2) by (auto simp: is_dns_char_def is_digit_def)
    then show ?thesis using names(4) c by (auto simp: drill_arg_def)
  qed
  have h: "?h \<noteq> []" using host_name_with_dot(1) [OF names(2,1)] .
  define u where "u = \<lparr>us_conn = Udp_conn a ?ep, us_question = q, us_send = True, us_receive = False, us_timeout = True,
    us_failures = 0, us_passed = []\<rparr>"
  have new: "new_request net udp a q = Inr u"
    using net by (simp add: new_request_def udp_out_def new_upstream_def new_timeout_def request_timeout_def open_socket_def
        start_sending_def unblock_def connection_descriptor_def is_valid_def u_def)
  have start: "drill_start can_open inet lib rnd rnd' keys net lg [?h] = (Inr (Some (Plain_request u)), [])"
    using args h addr new q(1) by (simp add: drill_start_def make_up_def request_for_def new_drill_def)
  define u1 where "u1 = u\<lparr>us_question := set_size 0 q, us_send := False, us_receive := True,
    us_conn := Udp_conn a (?ep\<lparr>ep_out := ep_out ?ep @ [(a, 128, content q)]\<rparr>)\<rparr>"
  have send: "on_send (clear_ops inet) u = (Inr (), u1)"
    using send_clear_datagram [of u a ?ep inet] net size q(2) by (simp add: u_def u1_def)
  have u1: "active u1" "us_receive u1" "wf_packet (us_question u1)"
    "length m \<le> conn_room (us_conn u1) (us_question u1)" "conn_arrives m (us_conn u1)"
    "conn_ready (us_conn u1) = Inr True" "closes_well (us_conn u1)"
    using net arrives q by (simp_all add: u1_def u_def active_def wf_packet_def)
  obtain u2 where "on_receive (clear_ops inet) u1 = (Inr (), u2)" "stopped u2" "content (us_question u2) = m"
    using on_receive_answer [OF u1(1-3) arrives(2) u1(4-7), of "clear_ops inet" m] by (auto simp: clear_ops_def)
  then show ?thesis using start send q(3) by (auto simp: u_def u1_def)
qed

text \<open>
  C36. The encrypted mode of the client never asks its question.  The request for the certificate works: a
  server of this program sends its certificate, it is accepted, the resolver becomes ready with an
  encryptor that is paired with the server, and the request with the question is made.  But its message
  is a \<^verbatim>\<open>dns::query\<close>, so that the first handler of this request throws \<^verbatim>\<open>std::bad_cast\<close> before it sends
  anything; the exception leaves the event loop and the program ends with status 3.
\<close>

theorem drill_never_sends_encrypted_question:
  assumes names: "list_all valid_label ls" "ls \<noteq> []" "length (dotted ls) \<le> 256"
      "rs_host_name rs = host_of ls d1" "sr_hostname srv = host_of ls d2"
    and cert: "certificate_new lib tnow (rs_pubkey rs) (raw_signed (sr_certificate srv)) = Inr (sr_certificate srv)"
      "length (raw_signed (sr_certificate srv)) \<le> 255"
      "slice 4 4 (cd_magic_query (c_data (sr_certificate srv))) \<noteq> [0, 1, 0, 0]"
    and server: "cr_server cr = Some srv" "server_cipher (sr_decryptor srv) = cert_cipher (sr_certificate srv)"
      "server_publickey (c_data (sr_certificate srv)) = scalarmult_base lib (crypt_secretkey (sr_decryptor srv))"
    and keys: "ephemeral_keys (rs_encryptor rs)"
      "\<forall>sk. box_beforenm lib (cert_cipher (sr_certificate srv))
         (server_publickey (c_data (sr_certificate srv))) sk \<noteq> None"
    and requests: "cert_request_new rnd net rs question = Inr c" "0 < pkt_size question"
      "new_request net2 (rs_proto rs) (rs_address rs) question = Inr u" "conn_ready (us_conn u) = Inr True"
  shows "\<exists>a c' text. cr_process cl env connect (us_question (cq_base c)) cr = Inr (Sent a, cr)
    \<and> cert_answer lib tnow net2 (c\<lparr>cq_base := (cq_base c)\<lparr>us_question := a\<rparr>\<rparr>) = (Inr (), c')
    \<and> cert_succ c' \<and> cq_dns_request c' = Some u \<and> rs_ready (cq_provider c')
    \<and> paired lib (rs_encryptor (cq_provider c')) (sr_decryptor srv)
    \<and> on_send (question_ops inet lib ce nonce cert_question_class (cq_provider c')) u = (Inl Bad_cast, u)
    \<and> catch_all_errors dm st argv (Inl (std_exception Std_bad_cast (exn_what Bad_cast))) = Inr (Returned 3, text)"
proof -
  let ?cert = "sr_certificate srv"
  obtain q where q: "query_new_txt rnd (host_of ls d1) True = Inr q" "wf_packet q"
    "content q = wire_query ls type_txt (word_of_nat (1 + rnd mod 65500))"
    by (rule certificate_request [OF names(1-3)])
  obtain b where b: "new_request net (rs_proto rs) (rs_address rs) q = Inr b"
    "c = \<lparr>cq_base = b, cq_provider = rs, cq_question = question, cq_dns_request = None\<rparr>"
    using requests(1) q(1) names(4) by (auto simp: cert_request_new_def)
  have bq: "us_question b = q" by (rule new_request_cases(3) [OF b(1)])
  obtain a i where a: "cr_process cl env connect q cr = Inr (Sent a, cr)"
    "get_txt_answer a = Inr [raw_signed ?cert]" "host_type_info a = Inr i"
    using server_sends_certificate [OF q(3,2) names(1-3) server(1) names(5) cert(2,3), of cl env connect] by blast
  obtain r' where r': "find_valid_certificate lib tnow [raw_signed ?cert] rs = (Inr True, r')" "rs_ready r'"
    "paired lib (rs_encryptor r') (sr_decryptor srv)" "rs_proto r' = rs_proto rs" "rs_address r' = rs_address rs"
    using server_certificate_accepted [OF cert(1) server(2,3) keys] by blast
  define c' where "c' = c\<lparr>cq_base := b\<lparr>us_question := set_size 0 a\<rparr>, cq_provider := r', cq_dns_request := Some u\<rparr>"
  have ca: "cert_answer lib tnow net2 (c\<lparr>cq_base := (cq_base c)\<lparr>us_question := a\<rparr>\<rparr>) = (Inr (), c')"
    using a(2,3) r'(1,4,5) requests(3) by (simp add: cert_answer_def b(2) c'_def)
  have "0 < pkt_size (us_question u)" using requests(2) new_request_cases(3) [OF requests(3)] by simp
  from bad_cast_on_send [OF requests(4) this]
  have "on_send (question_ops inet lib ce nonce cert_question_class (cq_provider c')) u = (Inl Bad_cast, u)"
    by (simp add: cert_question_class_def)
  then show ?thesis
    using a(1) ca bq r'(2,3) runtime_error_report(2) [of dm st argv "exn_what Bad_cast"]
    by (auto simp: b(2) c'_def cert_succ_def)
qed

section \<open>Examples\<close>

definition sample_drill_net :: "byte list list \<Rightarrow> drill_net" where
  "sample_drill_net ms = \<lparr>dn_setup = sample_setup, dn_udp = sample_udp ms, dn_tcp = sample_tcp []\<rparr>"

lemma sample_drill_net_facts:
  "is_valid (ep_handle (dn_udp (sample_drill_net ms)))" "ep_sends (dn_udp (sample_drill_net ms)) = []"
  "ep_close (dn_udp (sample_drill_net ms)) = 0" "0 < su_issock (dn_setup (sample_drill_net ms))"
  "0 \<le> su_getfl (dn_setup (sample_drill_net ms))" "su_setfl (dn_setup (sample_drill_net ms)) \<noteq> -1"
  "ep_in (dn_udp (sample_drill_net [m])) = Bytes (sample_address, 16, m) # []" "ep_out (dn_udp (sample_drill_net ms)) = []"
  by (simp_all add: sample_drill_net_def sample_udp_def sample_setup_def is_valid_def)

lemma local_address: "address_of_string sample_net ''127.0.0.1:53'' port = Inr sample_address"
  by (simp add: address_of_string_def split_ip_port_def rfind_char_def str2u16_def strtol_def make_address_def sample_net_def
      c_str_def NUL_def Let_def sample_address_def is_space_def is_digit_def long_min_def long_max_def)

theorem drill_asks_and_prints_witness:
  "\<forall>can_open lib keys lg. \<exists>u u1 u2. drill_start can_open sample_net lib 4 5 keys (sample_drill_net [[1, 2, 3]]) lg [''a'']
      = (Inr (Some (Plain_request u)), [])
    \<and> on_send (clear_ops sample_net) u = (Inr (), u1)
    \<and> us_conn u1 = Udp_conn sample_address ((dn_udp (sample_drill_net [[1, 2, 3]]))\<lparr>ep_out := [(sample_address, 128, content (us_question u))]\<rparr>)
    \<and> on_receive (clear_ops sample_net) u1 = (Inr (), u2) \<and> content (drill_answer (Plain_request u2)) = [1, 2, 3]"
proof (intro allI)
  fix can_open lib keys lg
  let ?net = "sample_drill_net [[1, 2, 3]]"
  have h: "host_of [''a''] False = ''a''" "list_all valid_label [''a'']" "length (dotted [''a'']) \<le> 256"
    by (simp_all add: host_of_def valid_label_def is_dns_char_def)
  have m: "length [1, 2, 3 :: byte] \<le> max_size" by (simp add: max_size_def)
  from drill_asks_and_prints [OF h(2) _ h(3) _ local_address sample_drill_net_facts(1-7) _ m, of False can_open lib 4 5 keys lg]
  show "\<exists>u u1 u2. drill_start can_open sample_net lib 4 5 keys ?net lg [''a''] = (Inr (Some (Plain_request u)), [])
    \<and> on_send (clear_ops sample_net) u = (Inr (), u1)
    \<and> us_conn u1 = Udp_conn sample_address ((dn_udp ?net)\<lparr>ep_out := [(sample_address, 128, content (us_question u))]\<rparr>)
    \<and> on_receive (clear_ops sample_net) u1 = (Inr (), u2) \<and> content (drill_answer (Plain_request u2)) = [1, 2, 3]"
    unfolding h(1) sample_drill_net_facts(8) by auto
qed

theorem drill_never_sends_encrypted_question_witness:
  "\<forall>ce nonce dm st argv. \<exists>c a c' u. cert_request_new 3 (sample_drill_net []) sample_resolver edns_query = Inr c
    \<and> cr_process sample_cl sample_env (\<lambda>_. True) (us_question (cq_base c)) (sample_cresponder\<lparr>cr_server := Some sample_server\<rparr>)
        = Inr (Sent a, sample_cresponder\<lparr>cr_server := Some sample_server\<rparr>)
    \<and> cert_answer plain_box 5 (sample_drill_net []) (c\<lparr>cq_base := (cq_base c)\<lparr>us_question := a\<rparr>\<rparr>) = (Inr (), c')
    \<and> cq_dns_request c' = Some u
    \<and> on_send (question_ops sample_net plain_box ce nonce cert_question_class (cq_provider c')) u = (Inl Bad_cast, u)
    \<and> (\<exists>text. catch_all_errors dm st argv (Inl (std_exception Std_bad_cast (exn_what Bad_cast))) = Inr (Returned 3, text))"
proof (intro allI)
  fix ce nonce dm st argv
  let ?cr = "sample_cresponder\<lparr>cr_server := Some sample_server\<rparr>" and ?net = "sample_drill_net []"
  let ?ls = "[''2'', ''dnscrypt-cert'', ''example'', ''org'']"
  have n: "list_all valid_label ?ls" "length (dotted ?ls) \<le> 256"
    "rs_host_name sample_resolver = host_of ?ls False" "sr_hostname sample_server = host_of ?ls True"
    by (simp_all add: valid_label_def is_dns_char_def is_digit_def sample_resolver_def
        resolver_dummy_def resolver_new_def host_of_def sample_server_def)
  have e: "ephemeral_keys (rs_encryptor sample_resolver)" "rs_proto sample_resolver = udp"
    by (simp_all add: sample_resolver_def resolver_dummy_def resolver_new_def encryptor_new_def)
  have s: "sr_certificate sample_server = sample_cert" "sr_decryptor sample_server = plain_server"
    "server_cipher plain_server = xsalsa20poly1305" "scalarmult_base plain_box sk = replicate 32 0"
    "box_beforenm plain_box ci pk sk \<noteq> None" for sk ci pk
    by (simp_all add: sample_server_def plain_server_def server_encryptor_def server_cipher_def is_chacha_def
        plain_box_def)
  have r: "\<exists>u. new_request ?net udp a q = Inr u \<and> conn_ready (us_conn u) = Inr True" for a q
    using sample_drill_net_facts(1-6) [of "[]"]
    by (simp add: new_request_def udp_out_def new_upstream_def new_timeout_def request_timeout_def open_socket_def
        start_sending_def unblock_def connection_descriptor_def is_valid_def)
  obtain q where q: "query_new_txt 3 (rs_host_name sample_resolver) True = Inr q"
    using certificate_request [OF n(1) _ n(2)] n(3) by (metis list.distinct(1))
  obtain c where c: "cert_request_new 3 ?net sample_resolver edns_query = Inr c"
    using r [of "rs_address sample_resolver" q] q e(2) by (auto simp: cert_request_new_def)
  obtain u where u: "new_request ?net (rs_proto sample_resolver) (rs_address sample_resolver) edns_query = Inr u"
    "conn_ready (us_conn u) = Inr True" using r e(2) by metis
  have z: "0 < pkt_size edns_query" by (simp add: edns_query_def packet_of_def cast_u16_def)
  from drill_never_sends_encrypted_question [OF n(1) _ n(2,3,4) _ _ _ _ _ _ e(1) _ c z u, of plain_box 5 ?cr sample_cl
      sample_env "\<lambda>_. True" sample_net ce nonce dm st argv] c s sample_cert_facts
  show "\<exists>c a c' u. cert_request_new 3 ?net sample_resolver edns_query = Inr c
    \<and> cr_process sample_cl sample_env (\<lambda>_. True) (us_question (cq_base c)) ?cr = Inr (Sent a, ?cr)
    \<and> cert_answer plain_box 5 ?net (c\<lparr>cq_base := (cq_base c)\<lparr>us_question := a\<rparr>\<rparr>) = (Inr (), c')
    \<and> cq_dns_request c' = Some u
    \<and> on_send (question_ops sample_net plain_box ce nonce cert_question_class (cq_provider c')) u = (Inl Bad_cast, u)
    \<and> (\<exists>text. catch_all_errors dm st argv (Inl (std_exception Std_bad_cast (exn_what Bad_cast))) = Inr (Returned 3, text))"
    by (fastforce simp: slice_def replicate_numeral)
qed

end
