(* ===== verification/Options.thy ===== *)
theory Options
  imports Responder Complex_Main
begin

text \<open>
  Options (\<^verbatim>\<open>dns/options.hxx\<close>, \<^verbatim>\<open>dns/srcz/options.cpp\<close>, \<^verbatim>\<open>dns/crypt/crypt_options.hxx\<close>,
  \<^verbatim>\<open>dns/crypt/srcz/crypt_options.cpp\<close>): the table of options, the configuration file and the command
  line.  The branch for Unix is modelled.

  \<^verbatim>\<open>getopt_long\<close> and \<^verbatim>\<open>std::atof\<close> of the C library are parameters.  Text written to the terminal by
  \<^verbatim>\<open>--help\<close> and \<^verbatim>\<open>--version\<close> and log messages are not modelled.
\<close>

section \<open>Definitions\<close>

subsection \<open>The table of options\<close>

record opt =
  op_name :: "string option"
  op_arg :: nat
  op_val :: char

abbreviation long_option :: "string \<Rightarrow> nat \<Rightarrow> char \<Rightarrow> opt" where
  "long_option name n v \<equiv> \<lparr>op_name = Some name, op_arg = n, op_val = v\<rparr>"

definition null_option :: opt where
  "null_option = \<lparr>op_name = None, op_arg = 0, op_val = CHR 0x00\<rparr>"

definition long_options_table :: "opt list" where
  "long_options_table =
     [long_option ''local-address'' 1 CHR ''a'', long_option ''daemonize'' 0 CHR ''d'',
      long_option ''resolvers-list'' 1 CHR ''L'', long_option ''logfile'' 1 CHR ''l'',
      long_option ''loglevel'' 1 CHR ''m'', long_option ''exceptions'' 0 CHR ''x'',
      long_option ''syslog'' 0 CHR ''s'', long_option ''max-active-requests'' 1 CHR ''n'',
      long_option ''user'' 1 CHR ''u'', long_option ''tcp-only'' 0 CHR ''t'',
      long_option ''min-ttl'' 1 CHR ''M'', long_option ''onion'' 1 CHR ''O'',
      long_option ''no-ipv6'' 0 CHR ''6'', long_option ''blacklist'' 1 CHR ''B'',
      long_option ''whitelist'' 1 CHR ''W'', long_option ''hosts'' 1 CHR ''H'',
      long_option ''timeout'' 1 CHR ''T'', long_option ''cachedir'' 1 CHR ''E'',
      long_option ''version'' 0 CHR ''V'', long_option ''help'' 0 CHR ''h'', null_option]"

definition short_options_table :: string where
  "short_options_table = ''a:dhL:l:m:n:su:tVxM:O:6B:W:H:T:E:''"

text \<open>\<^verbatim>\<open>normalize\<close>: the first dash or underscore is removed, letters become small.\<close>

definition is_dash :: "char \<Rightarrow> bool" where
  "is_dash c \<longleftrightarrow> c = CHR ''-'' \<or> c = CHR ''_''"

definition normalize_word :: "string \<Rightarrow> string" where
  "normalize_word word =
     (let pos = length (takeWhile (\<lambda>c. \<not> is_dash c) word);
          w = (if pos < length word then take pos word @ drop (1 + pos) word else word)
      in if w \<noteq> [] then ascii_tolower w else w)"

record flags =
  fl_long :: "opt list"
  fl_short :: string

fun copy_options :: "opt list \<Rightarrow> opt list" where
  "copy_options [] = []"
| "copy_options (x # xs) = (if op_name x = None then [x] else x # copy_options xs)"

definition new_flags :: flags where
  "new_flags = \<lparr>fl_long = copy_options long_options_table, fl_short = short_options_table\<rparr>"

definition is_alnum :: "char \<Rightarrow> bool" where
  "is_alnum c \<longleftrightarrow> is_digit c \<or> 65 \<le> char_code c \<and> char_code c \<le> 90 \<or> 97 \<le> char_code c \<and> char_code c \<le> 122"

definition flags_add :: "opt \<Rightarrow> flags \<Rightarrow> flags" where
  "flags_add x fl =
     (if op_name x \<noteq> None then
        fl\<lparr>fl_long := butlast (fl_long fl) @ [x, null_option],
           fl_short := (if is_alnum (op_val x)
              then fl_short fl @ [op_val x] @ (if op_arg x \<noteq> 0 then '':'' else []) else fl_short fl)\<rparr>
      else fl)"

fun find_option :: "opt list \<Rightarrow> string \<Rightarrow> opt option" where
  "find_option [] optname = None"
| "find_option (x # xs) optname =
     (case op_name x of
        Some n \<Rightarrow> if optname = normalize_word n then Some x else find_option xs optname
      | None \<Rightarrow> find_option xs optname)"

subsection \<open>The options\<close>

record options =
  op_resolvers :: string
  op_hosts :: string
  op_onion :: string
  op_cachedir :: string
  op_noipv6 :: bool
  op_proto :: proto
  op_min_ttl :: u16
  op_timeout :: real
  op_whitelists :: "string set"
  op_blacklists :: "string set"
  op_max_requests :: nat
  op_log_level :: u16
  op_syslog :: bool
  op_disable_exceptions :: bool
  op_daemonize :: bool
  op_listener :: string
  op_log_file :: string
  op_user :: string
  op_flags :: flags

definition new_options :: "string \<Rightarrow> options" where
  "new_options default_resolvers =
     \<lparr>op_resolvers = default_resolvers, op_hosts = [], op_onion = [], op_cachedir = [], op_noipv6 = False,
      op_proto = udp, op_min_ttl = 60, op_timeout = 15 / 2, op_whitelists = {}, op_blacklists = {},
      op_max_requests = 250, op_log_level = word_of_nat severity_info, op_syslog = False,
      op_disable_exceptions = False, op_daemonize = False, op_listener = ''127.0.0.1:53'',
      op_log_file = [], op_user = [], op_flags = new_flags\<rparr>"

definition options_add :: "string \<Rightarrow> char \<Rightarrow> nat \<Rightarrow> 'a options_scheme \<Rightarrow> 'a options_scheme" where
  "options_add name symbol nparam os = os\<lparr>op_flags := flags_add (long_option name nparam symbol) (op_flags os)\<rparr>"

definition ulong_max :: int where "ulong_max = 18446744073709551615"

text \<open>
  \<^verbatim>\<open>strtoul (s, &end, 10)\<close>: saturated to the range of \<^verbatim>\<open>unsigned long\<close>; a minus sign negates modulo
  the range.
\<close>

definition strtoul :: "string \<Rightarrow> int \<times> string" where
  "strtoul s =
     (let t = dropWhile is_space s;
          neg = (t \<noteq> [] \<and> hd t = CHR ''-'');
          u = (if t \<noteq> [] \<and> (hd t = CHR ''-'' \<or> hd t = CHR ''+'') then tl t else t);
          ds = takeWhile is_digit u;
          v = int (digits_value 0 ds)
      in if ds = [] then (0, s)
         else (if v > ulong_max then ulong_max else if neg then (- v) mod (ulong_max + 1) else v, dropWhile is_digit u))"

definition apply_log_level :: "string \<Rightarrow> 'a options_scheme \<Rightarrow> 'a options_scheme res" where
  "apply_log_level arg os =
     (let (log_level, end) = strtol arg in
      if arg = [] \<or> end \<noteq> [] \<or> log_level < 0 then Inl (Runtime_error ''Invalid max log level'')
      else Inr (os\<lparr>op_log_level := word_of_int log_level\<rparr>))"

definition apply_max_requests :: "string \<Rightarrow> 'a options_scheme \<Rightarrow> 'a options_scheme res" where
  "apply_max_requests arg os =
     (let (connections_max, end) = strtoul arg in
      if arg = [] \<or> end \<noteq> [] \<or> connections_max \<le> 0 \<or> connections_max > 4294967295
      then Inl (Runtime_error ''Invalid max number of active request'')
      else Inr (os\<lparr>op_max_requests := nat connections_max\<rparr>))"

text \<open>\<^verbatim>\<open>apply_option\<close>; the boolean is false when the program is not to be started.\<close>

definition apply_option :: "(string \<Rightarrow> real) \<Rightarrow> char \<Rightarrow> string \<Rightarrow> 'a options_scheme \<Rightarrow> (bool \<times> 'a options_scheme) res" where
  "apply_option atof flag arg os =
     (if flag = CHR ''a'' then Inr (True, os\<lparr>op_listener := arg\<rparr>)
      else if flag = CHR ''d'' then Inr (True, os\<lparr>op_daemonize := True\<rparr>)
      else if flag = CHR ''h'' then Inr (False, os)
      else if flag = CHR ''l'' then Inr (True, os\<lparr>op_log_file := arg\<rparr>)
      else if flag = CHR ''L'' then Inr (True, os\<lparr>op_resolvers := arg\<rparr>)
      else if flag = CHR ''s'' then Inr (True, os\<lparr>op_syslog := True\<rparr>)
      else if flag = CHR ''m'' then ebind (apply_log_level arg os) (\<lambda>os. Inr (True, os))
      else if flag = CHR ''n'' then ebind (apply_max_requests arg os) (\<lambda>os. Inr (True, os))
      else if flag = CHR ''u'' then Inr (True, os\<lparr>op_user := arg\<rparr>)
      else if flag = CHR ''t'' then Inr (True, os\<lparr>op_proto := tcp\<rparr>)
      else if flag = CHR ''V'' then Inr (False, os)
      else if flag = CHR ''x'' then Inr (True, os\<lparr>op_disable_exceptions := True\<rparr>)
      else if flag = CHR ''M'' then Inr (True, os\<lparr>op_min_ttl := word_of_int (fst (strtol arg))\<rparr>)
      else if flag = CHR ''O'' then Inr (True, os\<lparr>op_onion := arg\<rparr>)
      else if flag = CHR ''6'' then Inr (True, os\<lparr>op_noipv6 := True\<rparr>)
      else if flag = CHR ''B'' then Inr (True, os\<lparr>op_blacklists := insert arg (op_blacklists os)\<rparr>)
      else if flag = CHR ''W'' then Inr (True, os\<lparr>op_whitelists := insert arg (op_whitelists os)\<rparr>)
      else if flag = CHR ''H'' then Inr (True, os\<lparr>op_hosts := arg\<rparr>)
      else if flag = CHR ''T'' then Inr (True, os\<lparr>op_timeout := atof arg\<rparr>)
      else if flag = CHR ''E'' then Inr (True, os\<lparr>op_cachedir := arg\<rparr>)
      else Inl (Runtime_error ''Unknown option!''))"

definition options_apply :: "'a options_scheme \<Rightarrow> 'a options_scheme res" where
  "options_apply os =
     (let os = (if op_daemonize os \<and> op_log_file os = [] then os\<lparr>op_syslog := True\<rparr> else os) in
      if op_log_file os \<noteq> [] \<and> op_syslog os
      then Inl (Runtime_error ''--logfile and --syslog are mutually exclusive'') else Inr os)"

subsection \<open>The configuration file\<close>

text \<open>The lines that the loop over \<^verbatim>\<open>std::getline\<close> gets, with the empty one behind a final newline.\<close>

fun text_lines :: "string \<Rightarrow> string list" where
  "text_lines [] = [[]]"
| "text_lines (c # s) = (if c = CHR 0x0A then [] # text_lines s
     else (c # hd (text_lines s)) # tl (text_lines s))"

type_synonym 'a applier = "char \<Rightarrow> string \<Rightarrow> 'a options_scheme \<Rightarrow> (bool \<times> 'a options_scheme) res"

definition parse_option_line :: "'a applier \<Rightarrow> string \<Rightarrow> 'a options_scheme \<Rightarrow> 'a options_scheme res" where
  "parse_option_line apply_opt line os =
     (if line \<noteq> [] \<and> hd line \<noteq> CHR ''#'' \<and> length line < 512 then
        case next_word line of
          None \<Rightarrow> Inr os
        | Some (word, rest) \<Rightarrow>
            (case find_option (fl_long (op_flags os)) (normalize_word word) of
               None \<Rightarrow> Inr os
             | Some opt \<Rightarrow>
                 let word = (case next_word rest of None \<Rightarrow> [] | Some (w, _) \<Rightarrow> w) in
                 if op_arg opt = 0 \<and> (word = ''no'' \<or> word = ''off'' \<or> word = ''false'') then Inr os
                 else ebind (apply_opt (op_val opt) (c_str word) os) (\<lambda>(_, os). Inr os))
      else Inr os)"

fun parse_lines :: "'a applier \<Rightarrow> string list \<Rightarrow> 'a options_scheme \<Rightarrow> 'a options_scheme res" where
  "parse_lines apply_opt [] os = Inr os"
| "parse_lines apply_opt (l # ls) os = ebind (parse_option_line apply_opt l os) (parse_lines apply_opt ls)"

text \<open>A file that cannot be opened has no lines.\<close>

definition parse_file :: "'a applier \<Rightarrow> string option \<Rightarrow> 'a options_scheme \<Rightarrow> 'a options_scheme res" where
  "parse_file apply_opt txt os = (case txt of None \<Rightarrow> Inr os | Some t \<Rightarrow> parse_lines apply_opt (text_lines t) os)"

subsection \<open>The command line\<close>

text \<open>\<open>flags\<close> are the results of \<^verbatim>\<open>getopt_long\<close>, with the arguments, before it returns -1.\<close>

fun apply_flags :: "'a applier \<Rightarrow> (char \<times> string) list \<Rightarrow> 'a options_scheme \<Rightarrow> (bool \<times> 'a options_scheme) res" where
  "apply_flags apply_opt [] os = Inr (True, os)"
| "apply_flags apply_opt ((f, arg) # fs) os =
     ebind (apply_opt f arg os) (\<lambda>(go, os). if go then apply_flags apply_opt fs os else Inr (False, os))"

definition options_parse :: "'a applier \<Rightarrow> (flags \<Rightarrow> string list \<Rightarrow> (char \<times> string) list) \<Rightarrow> (string \<Rightarrow> string option) \<Rightarrow> string list
    \<Rightarrow> 'a options_scheme \<Rightarrow> (bool \<times> 'a options_scheme) res" where
  "options_parse apply_opt getopt_long file argv os =
     (if length argv = 2 \<and> c_str (argv ! 1) \<noteq> [] \<and> hd (argv ! 1) \<noteq> CHR ''-'' then
        ebind (parse_file apply_opt (file (argv ! 1)) os) (\<lambda>os.
        ebind (options_apply os) (\<lambda>os. Inr (True, os)))
      else
        ebind (apply_flags apply_opt (getopt_long (op_flags os) argv) os) (\<lambda>(go, os).
          if go then ebind (options_apply os) (\<lambda>os. Inr (True, os)) else Inr (False, os)))"

subsection \<open>The options of the encrypting daemon\<close>

record crypt_options = options +
  co_resolvers_file :: string
  co_server_pubkey :: string
  co_server_secretkey :: string
  co_server_certificate :: string
  co_server_name :: string

definition new_crypt_options :: "string \<Rightarrow> string \<Rightarrow> crypt_options" where
  "new_crypt_options default_resolvers default_crypt_resolvers =
     (let os = options.extend (new_options default_resolvers)
         \<lparr>co_resolvers_file = default_crypt_resolvers, co_server_pubkey = [], co_server_secretkey = [],
          co_server_certificate = [], co_server_name = []\<rparr>
      in options_add ''server-name'' CHR ''N'' 1 (options_add ''server-certificate'' CHR ''C'' 1
        (options_add ''server-secretkey'' CHR ''S'' 1 (options_add ''server-pubkey'' CHR ''P'' 1
        (options_add ''crypt-resolvers'' CHR ''D'' 1 os)))))"

definition crypt_apply_option :: "(string \<Rightarrow> real) \<Rightarrow> char \<Rightarrow> string \<Rightarrow> crypt_options \<Rightarrow> (bool \<times> crypt_options) res" where
  "crypt_apply_option atof flag arg os =
     (if flag = CHR ''D'' then Inr (True, os\<lparr>co_resolvers_file := arg\<rparr>)
      else if flag = CHR ''P'' then Inr (True, os\<lparr>co_server_pubkey := arg\<rparr>)
      else if flag = CHR ''S'' then Inr (True, os\<lparr>co_server_secretkey := arg\<rparr>)
      else if flag = CHR ''C'' then Inr (True, os\<lparr>co_server_certificate := arg\<rparr>)
      else if flag = CHR ''N'' then Inr (True, os\<lparr>co_server_name := arg\<rparr>)
      else apply_option atof flag arg os)"

subsection \<open>Columns\<close>

text \<open>\<^verbatim>\<open>options_get_col\<close>: the column under a heading.\<close>

fun options_get_col :: "string list \<Rightarrow> string list \<Rightarrow> string \<Rightarrow> string option" where
  "options_get_col [] cols name = None"
| "options_get_col (h # hs) cols name =
     (if name = h then (case cols of [] \<Rightarrow> None | c # _ \<Rightarrow> Some c) else options_get_col hs (tl cols) name)"

section \<open>What the class of the options provides\<close>

text \<open>
  The virtual \<^verbatim>\<open>apply_option\<close>: it does not change the table, and only help and version tell the
  program to stop.
\<close>

locale option_applier =
  fixes apply_opt :: "'a applier"
  assumes keeps_flags: "apply_opt f a os = Inr (go, os') \<Longrightarrow> op_flags os' = op_flags os"
    and goes_on: "apply_opt f a os = Inr (go, os') \<Longrightarrow> f \<noteq> CHR ''h'' \<Longrightarrow> f \<noteq> CHR ''V'' \<Longrightarrow> go"

lemma apply_option_cases:
  assumes "apply_option atof f a os = Inr (go, os')"
  shows "op_flags os' = op_flags os \<and> (f \<noteq> CHR ''h'' \<longrightarrow> f \<noteq> CHR ''V'' \<longrightarrow> go) \<and> options.more os' = options.more os"
  using assms unfolding apply_option_def apply_log_level_def apply_max_requests_def
  by (auto split: if_splits prod.splits)

interpretation plain: option_applier "apply_option atof" for atof
  by unfold_locales (auto dest: apply_option_cases)

interpretation encrypting: option_applier "crypt_apply_option atof" for atof
proof
  fix f a os go os'
  assume a: "crypt_apply_option atof f a os = Inr (go, os')"
  show "op_flags os' = op_flags os"
    using a apply_option_cases by (fastforce simp: crypt_apply_option_def split: if_splits)
  show "f \<noteq> CHR ''h'' \<Longrightarrow> f \<noteq> CHR ''V'' \<Longrightarrow> go"
    using a apply_option_cases by (fastforce simp: crypt_apply_option_def split: if_splits)
qed

section \<open>The file and the command line\<close>

text \<open>A setting as a line of the configuration file.\<close>

definition plain_word :: "string \<Rightarrow> bool" where
  "plain_word w \<longleftrightarrow> w \<noteq> [] \<and> (\<forall>c\<in>set w. \<not> is_space c \<and> c \<noteq> CHR 0x00)"

definition option_line :: "opt \<times> string \<Rightarrow> string" where
  "option_line s = (case s of (x, arg) \<Rightarrow> the (op_name x) @ (if op_arg x = 0 then [] else CHR '' '' # arg))"

definition settings_text :: "(opt \<times> string) list \<Rightarrow> string" where
  "settings_text ss = concat (map (\<lambda>s. option_line s @ [CHR 0x0A]) ss)"

text \<open>
  A setting that can be written: an option of the table other than help and version, which the table
  finds under its own name, with an argument of one word if it takes one.
\<close>

definition wf_setting :: "opt list \<Rightarrow> opt \<times> string \<Rightarrow> bool" where
  "wf_setting table s \<longleftrightarrow> (case s of (x, arg) \<Rightarrow>
     (\<exists>n. op_name x = Some n \<and> plain_word n \<and> hd n \<noteq> CHR ''#'' \<and> find_option table (normalize_word n) = Some x)
     \<and> (if op_arg x = 0 then arg = [] else plain_word arg)
     \<and> op_val x \<noteq> CHR ''h'' \<and> op_val x \<noteq> CHR ''V'' \<and> length (option_line s) < 512)"

lemma next_word_plain:
  assumes "plain_word w" "rest = [] \<or> is_space (hd rest)"
  shows "next_word (w @ rest) = Some (w, rest)"
proof -
  obtain c cs where w: "w = c # cs" using assms(1) by (cases w) (auto simp: plain_word_def)
  have nsp: "\<forall>c\<in>set w. \<not> is_space c" using assms(1) by (simp add: plain_word_def)
  have d: "dropWhile is_space (w @ rest) = w @ rest" using nsp by (simp add: w)
  have t: "takeWhile (\<lambda>c. \<not> is_space c) (w @ rest) = w" "dropWhile (\<lambda>c. \<not> is_space c) (w @ rest) = rest"
    using nsp assms(2) by (auto simp: takeWhile_append2 dropWhile_append2) (cases rest; auto)+
  show ?thesis by (simp add: next_word_def Let_def d t) (simp add: w)
qed

lemma c_str_plain: "plain_word w \<Longrightarrow> c_str w = w"
  unfolding plain_word_def c_str_def by (simp add: takeWhile_eq_all_conv NUL_def)

lemma parse_option_line_setting:
  assumes "wf_setting (fl_long (op_flags os)) (x, arg)"
  shows "parse_option_line apply_opt (option_line (x, arg)) os = ebind (apply_opt (op_val x) arg os) (\<lambda>(_, os). Inr os)"
proof -
  obtain n where n: "op_name x = Some n" "plain_word n" "hd n \<noteq> CHR ''#''" "find_option (fl_long (op_flags os)) (normalize_word n) = Some x"
    and arg: "if op_arg x = 0 then arg = [] else plain_word arg" and len: "length (option_line (x, arg)) < 512"
    using assms by (auto simp: wf_setting_def)
  let ?r = "if op_arg x = 0 then [] else CHR '' '' # arg"
  have line: "option_line (x, arg) = n @ ?r" using n(1) by (simp add: option_line_def)
  have sp: "is_space CHR '' ''" by (simp add: is_space_def)
  have w: "next_word (n @ ?r) = Some (n, ?r)" by (rule next_word_plain [OF n(2)]) (use sp in simp)
  have ne: "n \<noteq> []" using n(2) by (simp add: plain_word_def)
  have a: "(case next_word ?r of None \<Rightarrow> [] | Some (w, _) \<Rightarrow> w) = arg"
  proof (cases "op_arg x = 0")
    case True
    then show ?thesis using arg by (simp add: next_word_def)
  next
    case False
    then have pa: "plain_word arg" using arg by simp
    have "next_word (CHR '' '' # arg) = next_word arg" by (simp add: next_word_def sp)
    then show ?thesis using False next_word_plain [OF pa, of "[]"] by simp
  qed
  have c: "c_str arg = arg" using arg c_str_plain by (cases "op_arg x = 0") (auto simp: c_str_def)
  have off: "\<not> (op_arg x = 0 \<and> (arg = ''no'' \<or> arg = ''off'' \<or> arg = ''false''))" using arg by auto
  show ?thesis
    using ne n(3,4) len unfolding line parse_option_line_def w
    by (simp add: Let_def a c off)
qed

lemma text_lines_line: "CHR 0x0A \<notin> set l \<Longrightarrow> text_lines (l @ CHR 0x0A # s) = l # text_lines s"
  by (induction l) auto

lemma option_line_no_newline:
  assumes "wf_setting table (x, arg)"
  shows "CHR 0x0A \<notin> set (option_line (x, arg))"
proof -
  have sp: "is_space CHR 0x0A" by (simp add: is_space_def)
  obtain n where n: "op_name x = Some n" "plain_word n" and arg: "if op_arg x = 0 then arg = [] else plain_word arg"
    using assms by (auto simp: wf_setting_def)
  have "CHR 0x0A \<notin> set n" using n(2) sp by (auto simp: plain_word_def)
  moreover have "CHR 0x0A \<notin> set (CHR '' '' # arg)" if "op_arg x \<noteq> 0"
    using arg that sp by (auto simp: plain_word_def)
  ultimately show ?thesis using n(1) by (simp add: option_line_def)
qed

context option_applier
begin

lemma apply_flags_goes_on:
  "apply_flags apply_opt fs os = Inr (go, os') \<Longrightarrow> CHR ''h'' \<notin> fst ` set fs \<Longrightarrow> CHR ''V'' \<notin> fst ` set fs \<Longrightarrow> go"
proof (induction fs arbitrary: os)
  case (Cons f fs)
  obtain c arg where f: "f = (c, arg)" by fastforce
  obtain go1 os1 where a: "apply_opt c arg os = Inr (go1, os1)"
    and r: "(if go1 then apply_flags apply_opt fs os1 else Inr (False, os1)) = Inr (go, os')"
    using Cons.prems(1) by (auto simp: f)
  have "go1" using goes_on [OF a] Cons.prems(2,3) by (auto simp: f)
  then show ?case using Cons.IH [of os1] r Cons.prems(2,3) by simp
qed simp

lemma parse_lines_settings:
  assumes "\<forall>s\<in>set ss. wf_setting (fl_long (op_flags os)) s"
  shows "parse_lines apply_opt (text_lines (settings_text ss)) os
    = ebind (apply_flags apply_opt (map (\<lambda>(x, arg). (op_val x, arg)) ss) os) (\<lambda>(_, os). Inr os)"
  using assms
proof (induction ss arbitrary: os)
  case Nil
  then show ?case by (simp add: settings_text_def parse_option_line_def)
next
  case (Cons s ss)
  obtain x arg where s: "s = (x, arg)" by fastforce
  have wf: "wf_setting (fl_long (op_flags os)) (x, arg)" using Cons.prems s by simp
  have tl: "text_lines (settings_text (s # ss)) = option_line (x, arg) # text_lines (settings_text ss)"
    using text_lines_line [OF option_line_no_newline [OF wf]] by (simp add: settings_text_def s)
  show ?case
  proof (cases "apply_opt (op_val x) arg os")
    case (Inl e)
    then show ?thesis unfolding tl by (simp add: parse_option_line_setting [OF wf] s)
  next
    case (Inr r)
    obtain go os' where r: "r = (go, os')" by fastforce
    have go: "go" using goes_on [OF Inr [unfolded r]] wf by (simp add: wf_setting_def)
    have fl: "op_flags os' = op_flags os" using keeps_flags [OF Inr [unfolded r]] .
    then show ?thesis
      using Cons.IH [of os'] Cons.prems Inr r go unfolding tl by (simp add: parse_option_line_setting [OF wf] s)
  qed
qed

end

section \<open>The tables\<close>

definition crypt_table :: "opt list" where
  "crypt_table = fl_long (op_flags (new_crypt_options [] []))"

lemma crypt_table_flags: "fl_long (op_flags (new_crypt_options d e)) = crypt_table"
  by (simp add: crypt_table_def new_crypt_options_def new_options_def options_add_def options.defs)

text \<open>Every option of the table has a name of one word, under which, normalized, it is found.\<close>

definition findable :: "opt list \<Rightarrow> opt \<Rightarrow> bool" where
  "findable table x \<longleftrightarrow> (case op_name x of None \<Rightarrow> True | Some n \<Rightarrow>
     plain_word n \<and> hd n \<noteq> CHR ''#'' \<and> find_option table (normalize_word n) = Some x)"

lemma crypt_table_eq:
  "crypt_table = butlast long_options_table @ [long_option ''crypt-resolvers'' 1 CHR ''D'', long_option ''server-pubkey'' 1 CHR ''P'',
     long_option ''server-secretkey'' 1 CHR ''S'', long_option ''server-certificate'' 1 CHR ''C'', long_option ''server-name'' 1 CHR ''N'', null_option]"
  by (simp add: crypt_table_def new_crypt_options_def new_options_def options_add_def options.defs flags_add_def new_flags_def
      long_options_table_def null_option_def Let_def)

text \<open>The normalized names, which are distinct.\<close>

definition option_key :: "opt \<Rightarrow> string" where
  "option_key x = (case op_name x of None \<Rightarrow> [] | Some n \<Rightarrow> normalize_word n)"

lemma find_option_key:
  assumes "x \<in> set xs" "op_name x = Some n" "distinct (map option_key xs)"
  shows "find_option xs (normalize_word n) = Some x"
  using assms
proof (induction xs)
  case (Cons y ys)
  have key: "option_key x = normalize_word n" using assms(2) by (simp add: option_key_def)
  show ?case
  proof (cases "y = x")
    case False
    then have "x \<in> set ys" using Cons.prems(1) by simp
    then have "option_key y \<noteq> option_key x" using Cons.prems(3) by force
    then show ?thesis
      using Cons.IH [OF \<open>x \<in> set ys\<close> assms(2)] Cons.prems(3) key by (auto simp: option_key_def split: option.splits)
  qed (simp add: assms(2))
qed simp

lemma find_option_None: "w \<notin> option_key ` set xs \<Longrightarrow> find_option xs w = None"
  by (induction xs) (auto simp: option_key_def split: option.splits)

lemma crypt_table_keys:
  "map option_key crypt_table = [''localaddress'', ''daemonize'', ''resolverslist'', ''logfile'', ''loglevel'', ''exceptions'',
     ''syslog'', ''maxactive-requests'', ''user'', ''tcponly'', ''minttl'', ''onion'', ''noipv6'', ''blacklist'', ''whitelist'',
     ''hosts'', ''timeout'', ''cachedir'', ''version'', ''help'', ''cryptresolvers'', ''serverpubkey'', ''serversecretkey'',
     ''servercertificate'', ''servername'', []]"
  by (simp add: crypt_table_eq long_options_table_def option_key_def normalize_word_def is_dash_def ascii_tolower_def to_lower_def
      null_option_def)

lemma crypt_table_words:
  "list_all (\<lambda>x. case op_name x of None \<Rightarrow> True | Some n \<Rightarrow> plain_word n \<and> hd n \<noteq> CHR ''#'') crypt_table"
  unfolding crypt_table_eq by (simp add: long_options_table_def null_option_def plain_word_def is_space_def)

lemma crypt_table_findable: "list_all (findable crypt_table) crypt_table"
proof -
  have d: "distinct (map option_key crypt_table)" unfolding crypt_table_keys by simp
  show ?thesis
    using find_option_key [OF _ _ d] crypt_table_words by (auto simp: list_all_iff findable_def split: option.split)
qed

text \<open>A setting of the table that can be written to the file.\<close>

definition writable :: "opt list \<Rightarrow> opt \<times> string \<Rightarrow> bool" where
  "writable table s \<longleftrightarrow> fst s \<in> set table \<and> op_name (fst s) \<noteq> None \<and> op_val (fst s) \<noteq> CHR ''h'' \<and> op_val (fst s) \<noteq> CHR ''V''
     \<and> (if op_arg (fst s) = 0 then snd s = [] else plain_word (snd s)) \<and> length (option_line s) < 512"

lemma writable_wf:
  assumes "list_all (findable table) table" "writable table s"
  shows "wf_setting table s"
proof -
  obtain x arg where s: "s = (x, arg)" by fastforce
  obtain n where n: "op_name x = Some n" using assms(2) by (auto simp: writable_def s)
  have "findable table x" using assms by (auto simp: list_all_iff writable_def s)
  then show ?thesis using assms(2) n by (auto simp: wf_setting_def writable_def findable_def s)
qed

section \<open>Properties\<close>


text \<open>
  Accepted options are consistent about logging: the options with which the daemon is started never
  ask for a log file and the system log at once, and a daemon in the background always has one of the
  two, whatever the command line or the configuration file said.
\<close>

theorem accepted_options_log_somewhere:
  assumes "options_parse apply_opt getopt_long file argv os = Inr (True, os')"
  shows "\<not> (op_log_file os' \<noteq> [] \<and> op_syslog os') \<and> (op_daemonize os' \<longrightarrow> op_log_file os' \<noteq> [] \<or> op_syslog os')"
proof -
  have "\<exists>os1. options_apply os1 = Inr os'"
    using assms by (auto simp: options_parse_def split: if_splits)
  then show ?thesis by (auto simp: options_apply_def Let_def split: if_splits)
qed

text \<open>
  Only the first dash of a name may be written as an underscore.  \<^verbatim>\<open>normalize\<close> removes one dash or
  underscore, so in the configuration file \<^verbatim>\<open>min_ttl\<close> sets the option \<^verbatim>\<open>min-ttl\<close>, but a line for
  \<^verbatim>\<open>max_active_requests\<close> changes nothing and is not reported.
\<close>

theorem underscores_in_names:
  assumes "fl_long (op_flags os) = crypt_table"
  shows "parse_option_line (apply_option atof) ''min_ttl 300'' os = Inr (os\<lparr>op_min_ttl := 300\<rparr>)
    \<and> parse_option_line (apply_option atof) ''max_active_requests 10'' os = Inr os
    \<and> parse_option_line (apply_option atof) ''max-active-requests 10'' os = Inr (os\<lparr>op_max_requests := 10\<rparr>)"
proof -
  have d: "distinct (map option_key crypt_table)" unfolding crypt_table_keys by simp
  have norm: "normalize_word ''min_ttl'' = normalize_word ''min-ttl''" "normalize_word ''max_active_requests'' = ''maxactive_requests''"
    by (simp_all add: normalize_word_def is_dash_def ascii_tolower_def to_lower_def)
  have "''maxactive_requests'' \<notin> option_key ` set crypt_table"
    unfolding set_map [symmetric] crypt_table_keys by simp
  then have none: "find_option crypt_table (normalize_word ''max_active_requests'') = None"
    unfolding norm by (rule find_option_None)
  have mem: "long_option ''min-ttl'' 1 CHR ''M'' \<in> set crypt_table" "long_option ''max-active-requests'' 1 CHR ''n'' \<in> set crypt_table"
    by (simp_all add: crypt_table_eq long_options_table_def)
  have find: "find_option crypt_table (normalize_word ''min_ttl'') = Some (long_option ''min-ttl'' 1 CHR ''M'')"
    "find_option crypt_table (normalize_word ''max-active-requests'') = Some (long_option ''max-active-requests'' 1 CHR ''n'')"
    unfolding norm(1) by (rule find_option_key [OF mem(1) _ d], simp) (rule find_option_key [OF mem(2) _ d], simp)
  have words: "next_word ''min_ttl 300'' = Some (''min_ttl'', '' 300'')" "next_word '' 300'' = Some (''300'', [])"
    "next_word ''max_active_requests 10'' = Some (''max_active_requests'', '' 10'')"
    "next_word ''max-active-requests 10'' = Some (''max-active-requests'', '' 10'')" "next_word '' 10'' = Some (''10'', [])"
    by (simp_all add: next_word_def is_space_def)
  have nums: "strtol ''300'' = (300, [])" "strtoul ''10'' = (10, [])" "c_str ''300'' = ''300''" "c_str ''10'' = ''10''"
    by (simp_all add: strtol_def strtoul_def is_space_def is_digit_def c_str_def NUL_def long_max_def long_min_def ulong_max_def)
  show ?thesis
    using assms
    by (simp add: parse_option_line_def words none find nums apply_option_def apply_max_requests_def)
qed

theorem underscores_in_names_witness:
  "parse_option_line (apply_option (\<lambda>_. 0)) ''max_active_requests 10'' (new_crypt_options [] []) = Inr (new_crypt_options [] [])
    \<and> op_max_requests (new_crypt_options [] []) = 250"
  using underscores_in_names [OF crypt_table_flags [of "[]" "[]"]]
  by (simp add: new_crypt_options_def new_options_def options_add_def options.defs)

theorem accepted_options_log_somewhere_witness:
  "\<exists>os'. options_parse (apply_option (\<lambda>_. 0)) (\<lambda>_ _. [(CHR ''d'', [])]) (\<lambda>_. None) [''cdns'', ''-d'', ''x''] (new_options []) = Inr (True, os')
    \<and> op_daemonize os' \<and> (op_log_file os' \<noteq> [] \<or> op_syslog os')"
proof -
  have "options_parse (apply_option (\<lambda>_. 0)) (\<lambda>_ _. [(CHR ''d'', [])]) (\<lambda>_. None) [''cdns'', ''-d'', ''x''] (new_options [])
    = Inr (True, (new_options [])\<lparr>op_daemonize := True, op_syslog := True\<rparr>)"
    by (simp add: options_parse_def apply_option_def options_apply_def new_options_def)
  from accepted_options_log_somewhere [OF this] this show ?thesis by (simp add: new_options_def)
qed


end
