(* ===== verification/Daemon.thy ===== *)
theory Daemon
  imports Options System Encrypted_Service Client_Service
begin

text \<open>
  The daemons (\<^verbatim>\<open>dns/daemon.hxx\<close>, \<^verbatim>\<open>dns/srcz/daemon.cpp\<close>, \<^verbatim>\<open>dns/crypt/daemon.hxx\<close>,
  \<^verbatim>\<open>dns/crypt/srcz/daemon.cpp\<close>) and the constructors of the listeners
  (\<^verbatim>\<open>network/srcz/listener.cpp\<close>): from the options of the command line to a process that listens, with
  the privileges it should have, and from there to the end of the event loop.

  The state has what the setup changes: the responder, the listening sockets with the user that bound
  them, the log, the credentials and the descriptors of the process.  What system calls return while
  a listener is made is an argument, and so is the run of the event loop, whose handlers are the
  subject of the theories of the listeners and responders.
\<close>

section \<open>Definitions\<close>

subsection \<open>Listening sockets\<close>

record listen_results =
  li_fd :: int
  li_issock :: int
  li_reuse :: int
  li_bind :: int
  li_listen :: int
  li_setup :: setup_results
  li_sockname :: "(address \<times> nat) option"

definition udp_listener_init :: "listen_results \<Rightarrow> bool \<Rightarrow> int \<Rightarrow> unit res" where
  "udp_listener_init li do_bind h =
     ebind (reuse_listener_port (li_reuse li)) (\<lambda>_.
     ebind (if do_bind then bind_listener (li_bind li) else Inr ()) (\<lambda>_.
     ebind (unblock (su_issock (li_setup li)) (su_getfl (li_setup li)) (su_setfl (li_setup li))) (\<lambda>_.
       if h < 0 then Inl (Logic_error ''network connection is closed'') else Inr ())))"

definition tcp_listener_init :: "listen_results \<Rightarrow> bool \<Rightarrow> int \<Rightarrow> unit res" where
  "tcp_listener_init li do_bind h =
     ebind (reuse_listener_port (li_reuse li)) (\<lambda>_.
     ebind (if do_bind then bind_listener (li_bind li) else Inr ()) (\<lambda>_.
     ebind (tcp_listen (li_listen li)) (\<lambda>_.
     ebind (unblock (su_issock (li_setup li)) (su_getfl (li_setup li)) (su_setfl (li_setup li))) (\<lambda>_.
       if h < 0 then Inl (Logic_error ''network connection is closed'') else Inr ()))))"

text \<open>A listening socket: its descriptor and, unless it came from \<^verbatim>\<open>systemd\<close>, where and by whom it was bound.\<close>

record lsocket =
  lk_handle :: int
  lk_bound :: "(address \<times> nat) option"

definition adopt_socket :: "listen_results \<Rightarrow> int \<Rightarrow> int res" where
  "adopt_socket li h =
     (case bound_listener 0 h (li_issock li) (sock_start {}) of (Inl e, _) \<Rightarrow> Inl e | (Inr _, w) \<Rightarrow> Inr (handle w 0))"

definition create_socket :: "listen_results \<Rightarrow> int res" where
  "create_socket li =
     (case socket_create 0 (li_fd li) (sock_start {}) of (Inl e, _) \<Rightarrow> Inl e | (Inr _, w) \<Rightarrow> Inr (handle w 0))"

definition new_udp_listener :: "inet_lib \<Rightarrow> listen_results \<Rightarrow> nat \<Rightarrow> int + address \<Rightarrow> lsocket res" where
  "new_udp_listener lib li euid src =
     (case src of
        Inl h \<Rightarrow>
          ebind (adopt_socket li h) (\<lambda>h.
          ebind (get_address lib h (li_sockname li)) (\<lambda>_.
          ebind (udp_listener_init li False h) (\<lambda>_. Inr \<lparr>lk_handle = h, lk_bound = None\<rparr>)))
      | Inr a \<Rightarrow>
          ebind (create_socket li) (\<lambda>h.
          ebind (udp_listener_init li True h) (\<lambda>_. Inr \<lparr>lk_handle = h, lk_bound = Some (a, euid)\<rparr>)))"

definition new_tcp_listener :: "inet_lib \<Rightarrow> listen_results \<Rightarrow> nat \<Rightarrow> int + address \<Rightarrow> lsocket res" where
  "new_tcp_listener lib li euid src =
     (case src of
        Inl h \<Rightarrow>
          ebind (adopt_socket li h) (\<lambda>h.
          ebind (get_address lib h (li_sockname li)) (\<lambda>_.
          ebind (tcp_listener_init li False h) (\<lambda>_. Inr \<lparr>lk_handle = h, lk_bound = None\<rparr>)))
      | Inr a \<Rightarrow>
          ebind (create_socket li) (\<lambda>h.
          ebind (tcp_listener_init li True h) (\<lambda>_. Inr \<lparr>lk_handle = h, lk_bound = Some (a, euid)\<rparr>)))"

subsection \<open>The daemon\<close>

record 'r daemon =
  dm_responder :: "'r option"
  dm_address :: "address option"
  dm_udp :: "lsocket option"
  dm_tcp :: "lsocket option"
  dm_started :: bool
  dm_handles :: "int \<times> int"
  dm_log :: logger
  dm_cred :: credentials
  dm_fds :: fd_table

definition new_daemon :: "logger \<Rightarrow> credentials \<Rightarrow> fd_table \<Rightarrow> 'r daemon" where
  "new_daemon lg c t =
     \<lparr>dm_responder = None, dm_address = None, dm_udp = None, dm_tcp = None, dm_started = False, dm_handles = (-1, -1),
      dm_log = lg, dm_cred = c, dm_fds = t\<rparr>"

text \<open>What the system answers during the setup.\<close>

record os_results =
  os_log_file :: bool
  os_fork :: int
  os_setsid :: int
  os_open_max :: int
  os_isatty :: "nat \<Rightarrow> bool"
  os_open :: "bool \<Rightarrow> fd_table \<Rightarrow> nat option"
  os_sd_count :: int
  os_sd_kind :: "int \<Rightarrow> sd_kind"
  os_udp :: listen_results
  os_tcp :: listen_results
  os_getpwnam :: "string \<Rightarrow> nat + user"
  os_member :: "string \<Rightarrow> nat set"
  os_priv :: priv_results

definition setup0 :: "os_results \<Rightarrow> 'o options_scheme \<Rightarrow> 'r daemon \<Rightarrow> daemonized \<times> 'r daemon" where
  "setup0 sys opts d =
     (if op_log_file opts \<noteq> [] \<and> \<not> os_log_file sys
      then (Child (Inl (Runtime_error ''Unable to open log file'')), d)
      else
        let d = (if op_log_file opts \<noteq> [] then d
                 else d\<lparr>dm_log := logger_init (op_log_level opts) (op_syslog opts) (dm_log d)\<rparr>)
        in if op_daemonize opts then
             let (r, t) = do_daemonize (os_fork sys) (os_setsid sys) (os_open_max sys) (os_isatty sys) (os_open sys) (dm_fds d)
             in (r, d\<lparr>dm_fds := t\<rparr>)
           else (Child (Inr ()), d))"

definition init_descriptors_from_systemd :: "os_results \<Rightarrow> 'r daemon \<Rightarrow> unit res \<times> 'r daemon" where
  "init_descriptors_from_systemd sys d =
     (case systemd_init_descriptors (os_sd_count sys) (os_sd_kind sys) of
        Inl e \<Rightarrow> (Inl e, d)
      | Inr sds \<Rightarrow> (Inr (), if fst sds \<ge> 0 then d\<lparr>dm_handles := sds\<rparr> else d))"

text \<open>
  The address of the daemon, which \<^verbatim>\<open>setup\<close> has set, is an argument; a datagram socket from \<^verbatim>\<open>systemd\<close>
  replaces it.  Sockets are bound with the effective user that the process has at that moment.
\<close>

definition start_udp :: "inet_lib \<Rightarrow> os_results \<Rightarrow> address \<Rightarrow> 'r daemon \<Rightarrow> address res \<times> 'r daemon" where
  "start_udp lib sys a d =
     (if 0 \<le> fst (dm_handles d) then
        andthen (new_udp_listener lib (os_udp sys) (cr_euid (dm_cred d)) (Inl (fst (dm_handles d))), d) (\<lambda>k d.
        andthen (get_address lib (lk_handle k) (li_sockname (os_udp sys)), d\<lparr>dm_udp := Some k\<rparr>) (\<lambda>a d.
          (Inr a, d\<lparr>dm_address := Some a\<rparr>)))
      else
        andthen (new_udp_listener lib (os_udp sys) (cr_euid (dm_cred d)) (Inr a), d) (\<lambda>k d.
          (Inr a, d\<lparr>dm_udp := Some k\<rparr>)))"

definition start_tcp :: "inet_lib \<Rightarrow> os_results \<Rightarrow> address \<Rightarrow> 'r daemon \<Rightarrow> unit res \<times> 'r daemon" where
  "start_tcp lib sys a d =
     andthen (new_tcp_listener lib (os_tcp sys) (cr_euid (dm_cred d))
         (if 0 \<le> snd (dm_handles d) then Inl (snd (dm_handles d)) else Inr a), d) (\<lambda>k d.
       (Inr (), d\<lparr>dm_tcp := Some k\<rparr>))"

definition start_listeners :: "inet_lib \<Rightarrow> os_results \<Rightarrow> address \<Rightarrow> 'r daemon \<Rightarrow> unit res \<times> 'r daemon" where
  "start_listeners lib sys a d =
     (if dm_started d then (Inr (), d)
      else andthen (start_udp lib sys a d) (\<lambda>a d. andthen (start_tcp lib sys a d) (\<lambda>_ d. (Inr (), d\<lparr>dm_started := True\<rparr>))))"

definition drop_privileges :: "os_results \<Rightarrow> 'o options_scheme \<Rightarrow> 'r daemon \<Rightarrow> unit res \<times> 'r daemon" where
  "drop_privileges sys opts d =
     (if op_user opts \<noteq> [] then
        let (r, c) = revoke_privileges (os_getpwnam sys) (os_member sys) (os_priv sys) (op_user opts) (dm_cred d)
        in (r, d\<lparr>dm_cred := c\<rparr>)
      else (Inr (), d))"

text \<open>\<^verbatim>\<open>setup\<close>; \<open>mk\<close> is the responder it is given, or the one it makes, or the exception on the way.\<close>

definition daemon_setup :: "inet_lib \<Rightarrow> os_results \<Rightarrow> 'r res \<Rightarrow> 'o options_scheme \<Rightarrow> 'r daemon \<Rightarrow> unit res \<times> 'r daemon" where
  "daemon_setup lib sys mk opts d =
     andthen (mk, d) (\<lambda>r d.
     andthen (address_of_string lib (op_listener opts) default_port, d\<lparr>dm_responder := Some r\<rparr>) (\<lambda>a d.
     andthen (init_descriptors_from_systemd sys (d\<lparr>dm_address := Some a\<rparr>)) (\<lambda>_ d.
     andthen (start_listeners lib sys a d) (\<lambda>_ d. drop_privileges sys opts d))))"

text \<open>
  \<^verbatim>\<open>set_options\<close>: \<open>False\<close> when the options only asked for help; \<open>Parent_exits\<close> in the process that the
  daemon leaves behind.
\<close>

datatype started = Exits | Started "bool res"

definition set_options :: "inet_lib \<Rightarrow> os_results \<Rightarrow> ('o options_scheme \<Rightarrow> 'r res) \<Rightarrow> (bool \<times> 'o options_scheme) res \<Rightarrow> 'r daemon
    \<Rightarrow> started \<times> 'r daemon" where
  "set_options lib sys mk po d =
     (case po of
        Inl e \<Rightarrow> (Started (Inl e), d)
      | Inr (False, _) \<Rightarrow> (Started (Inr False), d)
      | Inr (True, opts) \<Rightarrow>
          (case setup0 sys opts d of
             (Parent_exits, d) \<Rightarrow> (Exits, d)
           | (Child (Inl e), d) \<Rightarrow> (Started (Inl e), d)
           | (Child (Inr _), d) \<Rightarrow>
               map_prod (\<lambda>r. Started (ebind r (\<lambda>_. Inr True))) id (daemon_setup lib sys (mk opts) opts d)))"

subsection \<open>Running\<close>

text \<open>\<^verbatim>\<open>execute\<close>: \<open>loop\<close> is the run of the event loop, which an exception of a handler ends.\<close>

definition save_cache :: "responder \<Rightarrow> responder" where
  "save_cache r = (if cache_dir r \<noteq> [] then r\<lparr>cache_file := Some (save_as (r_cache r))\<rparr> else r)"

definition execute :: "(responder \<Rightarrow> unit res \<times> responder) \<Rightarrow> responder daemon \<Rightarrow> unit res \<times> responder daemon" where
  "execute loop d =
     (case dm_responder d of
        None \<Rightarrow> (Inr (), d)
      | Some r \<Rightarrow>
          let (res, r) = loop r in
          andthen (res, d\<lparr>dm_responder := Some r\<rparr>) (\<lambda>_ d. (Inr (), d\<lparr>dm_responder := Some (save_cache r)\<rparr>)))"

definition daemon_reload :: "inet_lib \<Rightarrow> responder_parameters \<Rightarrow> responder daemon \<Rightarrow> unit res \<times> responder daemon" where
  "daemon_reload lib params d =
     (case dm_responder d of
        None \<Rightarrow> (Inl Undefined_behaviour, d)
      | Some r \<Rightarrow> andthen (reload lib params r, d) (\<lambda>r d. (Inr (), d\<lparr>dm_responder := Some r\<rparr>)))"

subsection \<open>The encrypting daemon\<close>

text \<open>
  \<^verbatim>\<open>cdaemon::execute\<close> gives also the text of the file of ready providers, if it is written.
\<close>

definition cdaemon_execute :: "inet_lib \<Rightarrow> (nat \<times> exn option) list \<Rightarrow> (cresponder \<Rightarrow> unit res \<times> cresponder) \<Rightarrow> cresponder daemon
    \<Rightarrow> string option res \<times> cresponder daemon" where
  "cdaemon_execute net inputs loop d =
     (case dm_responder d of
        None \<Rightarrow> (Inl Undefined_behaviour, d)
      | Some cr \<Rightarrow>
          let (r0, ps) = update_certificates inputs (cr_providers cr); cr = cr\<lparr>cr_providers := ps\<rparr> in
          andthen (r0, d\<lparr>dm_responder := Some cr\<rparr>) (\<lambda>_ d.
          let (res, cr) = loop cr in
          andthen (res, d\<lparr>dm_responder := Some cr\<rparr>) (\<lambda>_ d.
            let cr = cr\<lparr>cr_base := save_cache (cr_base cr)\<rparr>; d = d\<lparr>dm_responder := Some cr\<rparr> in
            if cache_dir (cr_base cr) \<noteq> [] then andthen (save_providers net cr, d) (\<lambda>t d. (Inr (Some t), d))
            else (Inr None, d))))"

text \<open>The timer of the encrypting responder saves the same two files while the daemon runs.\<close>

definition random_callback :: "inet_lib \<Rightarrow> cresponder \<Rightarrow> (string option \<times> cresponder) res" where
  "random_callback net cr =
     (if cache_dir (cr_base cr) \<noteq> []
      then ebind (save_providers net cr) (\<lambda>t. Inr (Some t, cr\<lparr>cr_base := save_cache (cr_base cr)\<rparr>))
      else Inr (None, cr))"

definition enough_entropy :: "u32 \<Rightarrow> bool" where "enough_entropy e \<longleftrightarrow> \<not> 160 > e"

definition new_cdaemon :: "int \<Rightarrow> logger \<Rightarrow> credentials \<Rightarrow> fd_table \<Rightarrow> cresponder daemon res" where
  "new_cdaemon sodium_init lg c t =
     (if 0 \<noteq> sodium_init then Inl (Logic_error ''Unable to setup encryption library.'') else Inr (new_daemon lg c t))"

definition load_server :: "sodium \<Rightarrow> int \<Rightarrow> (string \<rightharpoonup> byte list) \<Rightarrow> crypt_options \<Rightarrow> server_responder option res" where
  "load_server lib tnow files o' =
     (if co_server_pubkey o' \<noteq> [] then
        ebind (load_key crypto_box_PUBLICKEYBYTES (case_option [] id (files (co_server_pubkey o')))) (\<lambda>pk.
        ebind (load_key crypto_box_SECRETKEYBYTES (case_option [] id (files (co_server_secretkey o')))) (\<lambda>sk.
        ebind (load_certificate lib tnow pk (files (co_server_certificate o'))) (\<lambda>bc.
          Inr (Some \<lparr>sr_decryptor = server_encryptor pk sk, sr_certificate = bc, sr_hostname = co_server_name o'\<rparr>))))
      else Inr None)"

text \<open>The constructor of the encrypting daemon up to \<^verbatim>\<open>execute\<close>: \<open>mk\<close> makes the responder around the server part.\<close>

definition cdaemon_start :: "inet_lib \<Rightarrow> os_results \<Rightarrow> (crypt_options \<Rightarrow> server_responder option res)
    \<Rightarrow> (crypt_options \<Rightarrow> server_responder option \<Rightarrow> cresponder res) \<Rightarrow> (bool \<times> crypt_options) res \<Rightarrow> cresponder daemon
    \<Rightarrow> started \<times> cresponder daemon" where
  "cdaemon_start net sys load_srv mk = set_options net sys (\<lambda>o'. ebind (load_srv o') (mk o'))"

definition cdaemon_reload :: "sodium \<Rightarrow> inet_lib \<Rightarrow> (byte list \<times> byte list) list \<Rightarrow> responder_parameters \<Rightarrow> string option
    \<Rightarrow> cresponder daemon \<Rightarrow> unit res \<times> cresponder daemon" where
  "cdaemon_reload lib net rnds params file d =
     (case dm_responder d of
        None \<Rightarrow> (Inl Undefined_behaviour, d)
      | Some cr \<Rightarrow> let (r, cr) = cr_reload lib net rnds params file cr in (r, d\<lparr>dm_responder := Some cr\<rparr>))"

section \<open>Lemmas\<close>

lemma andthen_eq_InrE:
  assumes "andthen m f = (Inr y, s')"
  obtains x s where "m = (Inr x, s)" "f x s = (Inr y, s')"
  using assms by (cases m; cases "fst m") (auto simp: andthen_def)

lemmas listener_defs = udp_listener_init_def tcp_listener_init_def reuse_listener_port_def bind_listener_def tcp_listen_def
  adopt_socket_def create_socket_def bound_listener_def socket_create_def handle_def set_handle_def socket_default_def

text \<open>A listener has a valid descriptor: the one it was given, or a new one, bound as the present user.\<close>

lemma new_listener_result:
  assumes "new_udp_listener lib li euid src = Inr k \<or> new_tcp_listener lib li euid src = Inr k"
  shows "is_valid (lk_handle k) \<and>
    (case src of Inl h \<Rightarrow> lk_handle k = h \<and> lk_bound k = None | Inr a \<Rightarrow> lk_handle k = li_fd li \<and> lk_bound k = Some (a, euid))"
  using assms
  by (cases src) (auto simp: new_udp_listener_def new_tcp_listener_def listener_defs is_valid_def split: if_splits)

text \<open>The sockets from \<^verbatim>\<open>systemd\<close>: none, or two different ones.\<close>

lemma systemd_descriptors:
  assumes "systemd_init_descriptors n kind = Inr (u, t)"
  shows "(n = 0 \<and> u = -1 \<and> t = -1) \<or> (n = 2 \<and> u \<in> {3, 4} \<and> t \<in> {3, 4} \<and> sd_dgram (kind u) \<and> sd_stream (kind t))"
  using assms
  by (auto simp: systemd_init_descriptors_def sd_listen_fds_start_def split: if_splits)

lemma start_listeners_result:
  assumes run: "start_listeners lib sys a d = (Inr (), d')" and new: "\<not> dm_started d"
  obtains ku kt where "dm_udp d' = Some ku" "dm_tcp d' = Some kt" "is_valid (lk_handle ku)" "is_valid (lk_handle kt)"
    "0 \<le> fst (dm_handles d) \<Longrightarrow> lk_handle ku = fst (dm_handles d) \<and> lk_bound ku = None"
    "0 \<le> snd (dm_handles d) \<Longrightarrow> lk_handle kt = snd (dm_handles d) \<and> lk_bound kt = None"
    "fst (dm_handles d) < 0 \<Longrightarrow> lk_bound ku = Some (a, cr_euid (dm_cred d))"
    "fst (dm_handles d) < 0 \<Longrightarrow> snd (dm_handles d) < 0 \<Longrightarrow> lk_bound kt = Some (a, cr_euid (dm_cred d))"
    "dm_started d'" "dm_cred d' = dm_cred d" "dm_responder d' = dm_responder d"
proof -
  obtain b d1 d2 where u: "start_udp lib sys a d = (Inr b, d1)" and t: "start_tcp lib sys b d1 = (Inr (), d2)"
    and d': "d' = d2\<lparr>dm_started := True\<rparr>"
    using run new by (auto simp: start_listeners_def elim!: andthen_eq_InrE)
  obtain ku where ku: "dm_udp d1 = Some ku"
      "new_udp_listener lib (os_udp sys) (cr_euid (dm_cred d))
         (if 0 \<le> fst (dm_handles d) then Inl (fst (dm_handles d)) else Inr a) = Inr ku"
    and b: "fst (dm_handles d) < 0 \<Longrightarrow> b = a"
    and d1: "dm_handles d1 = dm_handles d" "dm_cred d1 = dm_cred d" "dm_responder d1 = dm_responder d"
    using u by (auto simp: start_udp_def elim!: andthen_eq_InrE split: if_splits)
  obtain kt where kt: "d2 = d1\<lparr>dm_tcp := Some kt\<rparr>"
      "new_tcp_listener lib (os_tcp sys) (cr_euid (dm_cred d1))
         (if 0 \<le> snd (dm_handles d1) then Inl (snd (dm_handles d1)) else Inr b) = Inr kt"
    using t by (auto simp: start_tcp_def elim!: andthen_eq_InrE)
  show ?thesis
    using new_listener_result [OF disjI1 [OF ku(2)]] new_listener_result [OF disjI2 [OF kt(2)]] ku(1) kt(1) b d1 d'
    by (intro that [of ku kt]) (auto split: if_splits)
qed

lemma revoke_privileges_user:
  assumes "revoke_privileges getpwnam member pv name c = (Inr (), c')"
  shows "\<exists>u. getpwnam name = Inr u \<and> (u_id u \<noteq> 0 \<longrightarrow> cr_uid c' = u_id u \<and> cr_euid c' = u_id u)"
  using assms by (auto simp: revoke_privileges_def get_user_def Let_def split: if_splits sum.splits)

lemma drop_privileges_result:
  assumes "drop_privileges sys opts d = (Inr (), d')"
  shows "if op_user opts = [] then d' = d
    else \<exists>c u. d' = d\<lparr>dm_cred := c\<rparr> \<and> os_getpwnam sys (op_user opts) = Inr u
      \<and> (u_id u \<noteq> 0 \<longrightarrow> cr_uid c = u_id u \<and> cr_euid c = u_id u)"
  using assms revoke_privileges_user [of "os_getpwnam sys" "os_member sys" "os_priv sys" "op_user opts" "dm_cred d"]
  by (auto simp: drop_privileges_def split: if_splits prod.splits)

lemma reload_cache: "reload lib params r = Inr r' \<Longrightarrow> r_cache r' = r_cache r"
  by (auto simp: reload_def)

section \<open>Properties\<close>

text \<open>
  C11. Setup: when \<^verbatim>\<open>setup\<close> of a new daemon returns, both listeners have valid sockets; without \<^verbatim>\<open>systemd\<close>
  both are bound to the address of the options, with the effective user the process was started with,
  that is before privileges are revoked, and with \<^verbatim>\<open>systemd\<close> they are the two sockets it passed.  If a
  user is given who is not root, the process runs as this user afterwards; without one the credentials
  are as before.
\<close>

theorem setup_listens_then_drops_privileges:
  assumes run: "daemon_setup lib sys mk opts (new_daemon lg c t) = (Inr (), d)"
  shows "\<exists>r a ku kt. mk = Inr r \<and> dm_responder d = Some r \<and> address_of_string lib (op_listener opts) default_port = Inr a
    \<and> dm_started d \<and> dm_udp d = Some ku \<and> dm_tcp d = Some kt \<and> is_valid (lk_handle ku) \<and> is_valid (lk_handle kt)
    \<and> (if os_sd_count sys = 0 then lk_bound ku = Some (a, cr_euid c) \<and> lk_bound kt = Some (a, cr_euid c)
       else lk_bound ku = None \<and> lk_bound kt = None \<and> sd_dgram (os_sd_kind sys (lk_handle ku))
         \<and> sd_stream (os_sd_kind sys (lk_handle kt)))
    \<and> (if op_user opts = [] then dm_cred d = c
       else \<exists>u. os_getpwnam sys (op_user opts) = Inr u \<and> (u_id u \<noteq> 0 \<longrightarrow> cr_uid (dm_cred d) = u_id u \<and> cr_euid (dm_cred d) = u_id u))"
proof -
  obtain r a d1 d2 where mk: "mk = Inr r" and a: "address_of_string lib (op_listener opts) default_port = Inr a"
    and sd: "init_descriptors_from_systemd sys ((new_daemon lg c t)\<lparr>dm_responder := Some r, dm_address := Some a\<rparr>) = (Inr (), d1)"
    and st: "start_listeners lib sys a d1 = (Inr (), d2)" and dp: "drop_privileges sys opts d2 = (Inr (), d)"
    using run by (auto simp: daemon_setup_def elim!: andthen_eq_InrE)
  obtain u t' where ut: "systemd_init_descriptors (os_sd_count sys) (os_sd_kind sys) = Inr (u, t')"
    and d1: "d1 = (new_daemon lg c t)\<lparr>dm_responder := Some r, dm_address := Some a,
        dm_handles := if u \<ge> 0 then (u, t') else (-1, -1)\<rparr>"
    using sd by (auto simp: init_descriptors_from_systemd_def new_daemon_def split: sum.splits)
  have new: "\<not> dm_started d1" "dm_cred d1 = c" "dm_responder d1 = Some r"
    "dm_handles d1 = (if u \<ge> 0 then (u, t') else (-1, -1))" by (simp_all add: d1 new_daemon_def)
  obtain ku kt where k: "dm_udp d2 = Some ku" "dm_tcp d2 = Some kt" "is_valid (lk_handle ku)" "is_valid (lk_handle kt)"
    "0 \<le> fst (dm_handles d1) \<Longrightarrow> lk_handle ku = fst (dm_handles d1) \<and> lk_bound ku = None"
    "0 \<le> snd (dm_handles d1) \<Longrightarrow> lk_handle kt = snd (dm_handles d1) \<and> lk_bound kt = None"
    "fst (dm_handles d1) < 0 \<Longrightarrow> lk_bound ku = Some (a, cr_euid c)"
    "fst (dm_handles d1) < 0 \<Longrightarrow> snd (dm_handles d1) < 0 \<Longrightarrow> lk_bound kt = Some (a, cr_euid c)"
    "dm_started d2" "dm_cred d2 = c" "dm_responder d2 = Some r"
    by (rule start_listeners_result [OF st new(1), unfolded new(2,3)]) rule
  have sockets: "if os_sd_count sys = 0 then lk_bound ku = Some (a, cr_euid c) \<and> lk_bound kt = Some (a, cr_euid c)
       else lk_bound ku = None \<and> lk_bound kt = None \<and> sd_dgram (os_sd_kind sys (lk_handle ku))
         \<and> sd_stream (os_sd_kind sys (lk_handle kt))"
    using systemd_descriptors [OF ut] k(5-8) new(4) by auto
  have cred: "if op_user opts = [] then dm_cred d = c
       else \<exists>u. os_getpwnam sys (op_user opts) = Inr u \<and> (u_id u \<noteq> 0 \<longrightarrow> cr_uid (dm_cred d) = u_id u \<and> cr_euid (dm_cred d) = u_id u)"
    and same: "dm_responder d = Some r" "dm_udp d = Some ku" "dm_tcp d = Some kt" "dm_started d"
    using drop_privileges_result [OF dp] k by (auto split: if_splits)
  show ?thesis by (intro exI conjI) (rule mk a same k(3,4) sockets cred)+
qed

definition sample_listen :: "int \<Rightarrow> listen_results" where
  "sample_listen fd = \<lparr>li_fd = fd, li_issock = 1, li_reuse = 0, li_bind = 0, li_listen = 0, li_setup = sample_setup, li_sockname = None\<rparr>"

definition sample_os :: os_results where
  "sample_os = \<lparr>os_log_file = True, os_fork = 0, os_setsid = 77, os_open_max = 1024, os_isatty = (\<lambda>n. n \<le> 3),
     os_open = (\<lambda>_ s. if s 0 = None then Some 0 else if s 5 = None then Some 5 else None), os_sd_count = 0,
     os_sd_kind = (\<lambda>_. \<lparr>sd_dgram = False, sd_stream = False\<rparr>), os_udp = sample_listen 7, os_tcp = sample_listen 8,
     os_getpwnam = (\<lambda>_. Inr \<lparr>u_name = ''dns'', u_id = 99, u_group = 98, u_dir = ''/''\<rparr>), os_member = (\<lambda>_. {}),
     os_priv = \<lparr>pv_initgroups = True, pv_setuid = True, pv_seteuid = True\<rparr>\<rparr>"

definition sample_net :: inet_lib where
  "sample_net = \<lparr>inet_pton = (\<lambda>af s. Some [127, 0, 0, 1]), inet_ntop = (\<lambda>af b. ''127.0.0.1'')\<rparr>"

theorem setup_listens_then_drops_privileges_witness:
  "\<exists>d k. daemon_setup sample_net sample_os (Inr ()) ((new_options []) \<lparr>op_user := ''dns''\<rparr>)
       (new_daemon \<lparr>lg_level = 6, lg_syslog = False, lg_lines = []\<rparr> \<lparr>cr_uid = 0, cr_euid = 0, cr_gid = 0, cr_groups = {}\<rparr> Map.empty)
       = (Inr (), d)
     \<and> dm_udp d = Some k \<and> lk_bound k = Some (sample_address, 0) \<and> cr_euid (dm_cred d) = 99"
proof -
  let ?opts = "(new_options []) \<lparr>op_user := ''dns''\<rparr>"
  let ?d = "new_daemon \<lparr>lg_level = 6, lg_syslog = False, lg_lines = []\<rparr> \<lparr>cr_uid = 0, cr_euid = 0, cr_gid = 0, cr_groups = {}\<rparr> Map.empty
    :: unit daemon"
  have a: "address_of_string sample_net ''127.0.0.1:53'' default_port = Inr sample_address"
    by code_simp
  have "\<exists>d. daemon_setup sample_net sample_os (Inr ()) ?opts ?d = (Inr (), d)"
    by (simp add: daemon_setup_def andthen_def new_options_def a init_descriptors_from_systemd_def systemd_init_descriptors_def
        sample_os_def start_listeners_def new_daemon_def start_udp_def start_tcp_def new_udp_listener_def new_tcp_listener_def
        listener_defs sample_listen_def sample_setup_def unblock_def is_valid_def drop_privileges_def revoke_privileges_def
        get_user_def)
  then obtain d where d: "daemon_setup sample_net sample_os (Inr ()) ?opts ?d = (Inr (), d)" ..
  show ?thesis
    using d setup_listens_then_drops_privileges [OF d] a by (auto simp: sample_os_def new_options_def)
qed



text \<open>
  A log file gets nothing: with the options to run in the background and to log to a file, \<^verbatim>\<open>setup0\<close>
  opens the file and leaves the log as it was, so that every message goes to the standard output or
  error, and these refer to the null device.
\<close>

theorem log_file_gets_nothing:
  assumes opts: "op_log_file opts \<noteq> []" "op_daemonize opts"
    and run: "setup0 sys opts d = (Child (Inr ()), d')"
    and fresh: "\<And>b s m. os_open sys b s = Some m \<Longrightarrow> s m = None"
    and limit: "2 < os_open_max sys" "os_open_max sys < 2 ^ 32"
    and log: "\<not> lg_syslog (dm_log d)"
  shows "dm_log d' = dm_log d
    \<and> (\<forall>k line. (k, line) \<in> set (drop (length (lg_lines (dm_log d'))) (lg_lines (snd (slog (Some now) s vs (dm_log d')))))
         \<longrightarrow> k = Stdout \<or> k = Stderr)
    \<and> dm_fds d' 1 = Some path_devnull \<and> dm_fds d' 2 = Some path_devnull"
proof -
  obtain t where t: "do_daemonize (os_fork sys) (os_setsid sys) (os_open_max sys) (os_isatty sys) (os_open sys) (dm_fds d)
      = (Child (Inr ()), t)" and d': "d' = d\<lparr>dm_fds := t\<rparr>"
    using opts run by (auto simp: setup0_def split: if_splits prod.splits)
  have "t n = Some path_devnull" if "n \<le> 2" for n
    using daemonize_result [of "os_open sys", OF _ limit, of "os_fork sys" "os_setsid sys" "os_isatty sys" "dm_fds d" n] fresh t that
    by simp
  then show ?thesis using log by (simp add: d' slog_lines Let_def)
qed

theorem log_file_gets_nothing_witness:
  "\<exists>d'. setup0 sample_os ((new_options []) \<lparr>op_log_file := ''/var/log/dns'', op_daemonize := True, op_log_level := 7\<rparr>)
       (new_daemon \<lparr>lg_level = 6, lg_syslog = False, lg_lines = []\<rparr> \<lparr>cr_uid = 0, cr_euid = 0, cr_gid = 0, cr_groups = {}\<rparr> Map.empty)
       = (Child (Inr ()), d' :: unit daemon)
     \<and> lg_level (dm_log d') = 6 \<and> dm_fds d' 1 = Some ''/dev/null''"
proof -
  let ?o = "(new_options []) \<lparr>op_log_file := ''/var/log/dns'', op_daemonize := True, op_log_level := 7\<rparr>"
  let ?d = "new_daemon \<lparr>lg_level = 6, lg_syslog = False, lg_lines = []\<rparr> \<lparr>cr_uid = 0, cr_euid = 0, cr_gid = 0, cr_groups = {}\<rparr> Map.empty
    :: unit daemon"
  have "2 < open_max 1024" by (simp add: open_max_def)
  then have "fst (setup0 sample_os ?o ?d) = Child (Inr ())"
    by (simp add: setup0_def sample_os_def new_daemon_def do_daemonize_def closedesc_all_def dup2_def close_terminals_lookup Let_def)
  then obtain d' where d': "setup0 sample_os ?o ?d = (Child (Inr ()), d')"
    by (cases "setup0 sample_os ?o ?d") simp
  have fresh: "os_open sample_os b s = Some m \<Longrightarrow> s m = None" for b s m by (auto simp: sample_os_def split: if_splits)
  have limit: "os_open_max sample_os = 1024" by (simp add: sample_os_def)
  have "dm_log d' = dm_log ?d \<and> dm_fds d' 1 = Some path_devnull"
    using log_file_gets_nothing [of ?o sample_os ?d d', OF _ _ d'] fresh limit by (simp add: new_daemon_def)
  then show ?thesis using d' by (simp add: new_daemon_def path_devnull_def)
qed

text \<open>
  A time limit that is not a number ends the service: the option is accepted whatever its value
  is, and with one below a microsecond (\<^verbatim>\<open>std::atof\<close> gives zero for a text that is no number) the first
  datagram and the first connection of a client make \<^verbatim>\<open>on_message\<close> throw \<^verbatim>\<open>std::logic_error\<close> out of the
  event loop.
\<close>

theorem bad_timeout_ends_service:
  assumes "atof arg < 1 / 1000000"
  shows "\<exists>os'. apply_option atof CHR ''T'' arg os = Inr (True, os')
    \<and> fst (on_message (udp_make_incoming lib proc (op_timeout os')) l) = Inl (Logic_error ''Too low timeout: '')
    \<and> fst (on_message (tcp_make_incoming lib (op_timeout os') ac) l) = Inl (Logic_error ''Too low timeout: '')"
  using assms
  by (simp add: apply_option_def on_message_def udp_make_incoming_def tcp_make_incoming_def new_tcp_incoming_def new_timeout_def andthen_def)

theorem bad_timeout_ends_service_witness:
  "\<exists>os'. apply_option (\<lambda>_. 0) CHR ''T'' ''soon'' (new_options []) = Inr (True, os') \<and> op_timeout os' = 0
    \<and> fst (on_message (udp_make_incoming sample_net (\<lambda>_ r. Inr (Close_request, r)) (op_timeout os'))
        (new_listener (sample_udp []) ())) = Inl (Logic_error ''Too low timeout: '')"
  using bad_timeout_ends_service [of "\<lambda>_. 0" "''soon''" "new_options []" sample_net "\<lambda>_ r. Inr (Close_request, r)"
      "new_listener (sample_udp []) ()"]
  by (auto simp: apply_option_def)

end
