(* ===== verification/Daemon_Loop.thy ===== *)
theory Daemon_Loop
  imports Daemon Error_Report
begin

text \<open>
  The life of the daemon around its event loop: the watchers of signals and of the test timeout that its
  constructor starts (\<^verbatim>\<open>dns/srcz/daemon.cpp\<close>), the loop with these events between the handlers of clients,
  requests and timers, and how the process ends (\<^verbatim>\<open>dns-main.cpp\<close>, \<^verbatim>\<open>dns-example.cpp\<close>).
\<close>

section \<open>Definitions\<close>

subsection \<open>Watchers\<close>

text \<open>
  The time limit for tests is read from the environment; \<open>read\<close> is the extraction of a number from a stream,
  which gives nothing for a text that is no number.
\<close>

definition testing_seconds :: "(string \<Rightarrow> real option) \<Rightarrow> string option \<Rightarrow> real option" where
  "testing_seconds read env =
     (case env of
        None \<Rightarrow> None
      | Some t \<Rightarrow>
          (case read t of
             None \<Rightarrow> Some 5
           | Some tout \<Rightarrow> if tout < 1 / 1000 \<or> tout > 100 then Some 5 else Some tout))"

record watchers =
  wt_interrupt :: bool
  wt_terminate :: bool
  wt_reload :: bool
  wt_testing :: "real option"

definition daemon_watchers :: "nat \<Rightarrow> (string \<Rightarrow> real option) \<Rightarrow> string option \<Rightarrow> watchers res" where
  "daemon_watchers backends read env =
     (if 0 = backends then Inl (Logic_error ''libev does not provide any backends'')
      else Inr \<lparr>wt_interrupt = True, wt_terminate = True, wt_reload = True, wt_testing = testing_seconds read env\<rparr>)"

subsection \<open>The loop\<close>

text \<open>
  The loop runs in iterations.  A signal to stop and the test timeout break the loop, which takes effect
  after the iteration; the signal to reload calls \<^verbatim>\<open>reload\<close>; all other callbacks are handlers on the responder.
\<close>

datatype loop_event =
    Handler "responder \<Rightarrow> unit res \<times> responder"
  | Hangup responder_parameters
  | Interrupted
  | Terminated
  | Testing_over

fun breaks :: "loop_event \<Rightarrow> bool" where
  "breaks Interrupted \<longleftrightarrow> True"
| "breaks Terminated \<longleftrightarrow> True"
| "breaks Testing_over \<longleftrightarrow> True"
| "breaks e \<longleftrightarrow> False"

fun loop_callback :: "inet_lib \<Rightarrow> loop_event \<Rightarrow> responder \<Rightarrow> unit res \<times> responder" where
  "loop_callback lib (Handler f) r = f r"
| "loop_callback lib (Hangup params) r = (case reload lib params r of Inl e \<Rightarrow> (Inl e, r) | Inr r' \<Rightarrow> (Inr (), r'))"
| "loop_callback lib e r = (Inr (), r)"

fun loop_iteration :: "inet_lib \<Rightarrow> loop_event list \<Rightarrow> responder \<Rightarrow> unit res \<times> responder" where
  "loop_iteration lib [] r = (Inr (), r)"
| "loop_iteration lib (e # es) r = andthen (loop_callback lib e r) (\<lambda>_. loop_iteration lib es)"

fun run_loop :: "inet_lib \<Rightarrow> loop_event list list \<Rightarrow> responder \<Rightarrow> unit res \<times> responder" where
  "run_loop lib [] r = (Inr (), r)"
| "run_loop lib (es # iterations) r =
     andthen (loop_iteration lib es r) (\<lambda>_ r. if \<exists>e \<in> set es. breaks e then (Inr (), r) else run_loop lib iterations r)"

section \<open>Lemmas\<close>

lemma breaks_iff: "breaks e \<longleftrightarrow> e \<in> {Interrupted, Terminated, Testing_over}"
  by (cases e) simp_all

lemma testing_seconds_range: "testing_seconds read env = Some s \<Longrightarrow> 1 / 1000 \<le> s \<and> s \<le> 100"
  by (auto simp: testing_seconds_def split: option.splits if_splits)

text \<open>A callback that returns and keeps an invariant.\<close>

definition harmless :: "inet_lib \<Rightarrow> (responder \<Rightarrow> bool) \<Rightarrow> loop_event \<Rightarrow> bool" where
  "harmless lib ok e \<longleftrightarrow> (\<forall>r. ok r \<longrightarrow> fst (loop_callback lib e r) = Inr () \<and> ok (snd (loop_callback lib e r)))"

lemma loop_iteration_harmless:
  "list_all (harmless lib ok) es \<Longrightarrow> ok r \<Longrightarrow> \<exists>r'. loop_iteration lib es r = (Inr (), r') \<and> ok r'"
proof (induction es arbitrary: r)
  case (Cons e es)
  obtain r1 where "loop_callback lib e r = (Inr (), r1)" "ok r1"
    using Cons.prems by (cases "loop_callback lib e r") (auto simp: harmless_def dest: spec [of _ r])
  then show ?case using Cons by (simp add: andthen_def)
qed simp

lemma run_loop_harmless:
  assumes "list_all (\<lambda>es. list_all (harmless lib ok) es \<and> \<not> (\<exists>e \<in> set es. breaks e)) pre" "ok r"
  shows "\<exists>r'. ok r' \<and> (\<forall>iterations. run_loop lib (pre @ iterations) r = run_loop lib iterations r')"
  using assms
proof (induction pre arbitrary: r)
  case (Cons es pre)
  obtain r1 where r1: "loop_iteration lib es r = (Inr (), r1)" "ok r1"
    using loop_iteration_harmless [of lib ok es r] Cons.prems by auto
  then obtain r' where r': "ok r'" "\<forall>iterations. run_loop lib (pre @ iterations) r1 = run_loop lib iterations r'"
    using Cons.IH [OF _ r1(2)] Cons.prems(1) by auto
  have "run_loop lib ((es # pre) @ iterations) r = run_loop lib iterations r'" for iterations
    using r1 r'(2) Cons.prems(1) by (simp add: andthen_def)
  with r'(1) show ?case by blast
qed auto

text \<open>The plain responder may serve as invariant, and a reload that succeeds is harmless.\<close>

lemma hangup_harmless:
  assumes "\<And>r. wf_responder r \<Longrightarrow> \<exists>r'. reload lib params r = Inr r'"
  shows "harmless lib wf_responder (Hangup params)"
  using assms wf_reload by (fastforce simp: harmless_def split: sum.splits)

section \<open>Properties\<close>


text \<open>
  An exception of a handler ends the daemon, and its cache is lost: when a handler throws, \<^verbatim>\<open>execute\<close> is left
  without saving the cache, so that the file has what it had before; the exception is logged once, at the
  level of its class, and the process returns a status other than zero with a report that contains its
  text.
\<close>

theorem handler_exception_loses_cache:
  assumes quiet: "list_all (\<lambda>es. list_all (harmless lib ok) es \<and> \<not> (\<exists>e \<in> set es. breaks e)) pre"
      "list_all (harmless lib ok) as"
    and fails: "\<And>r1. ok r1 \<Longrightarrow> fst (f r1) = Inl e \<and> cache_file (snd (f r1)) = cache_file r1"
      "\<And>r1. ok r1 \<Longrightarrow> cache_file r1 = old" "e \<noteq> Undefined_behaviour" "is_a (th_class t) (exn_class e)"
    and start: "dm_responder d = Some r" "ok r"
    and logged: "slog now (log_level_of (th_class t)) [log_line_of t] lg = (Inr (), lg')"
  shows "\<exists>r' code report. execute (run_loop lib (pre @ (as @ Handler f # bs) # post)) d = (Inl e, d\<lparr>dm_responder := Some r'\<rparr>)
    \<and> cache_file r' = old \<and> log_errors now failure (Some t) lg = (Inl t, lg')
    \<and> catch_all_errors dm st argv (Inl t) = Inr (Returned (int code), report) \<and> 0 < code \<and> code < 256
    \<and> (\<exists>a b. report = a @ th_what t @ b)"
proof -
  obtain r1 where r1: "ok r1" "run_loop lib (pre @ (as @ Handler f # bs) # post) r = run_loop lib ((as @ Handler f # bs) # post) r1"
    using run_loop_harmless [OF quiet(1) start(2)] by blast
  obtain r2 where r2: "loop_iteration lib as r1 = (Inr (), r2)" "ok r2"
    using loop_iteration_harmless [OF quiet(2) r1(1)] by blast
  obtain r' where r': "f r2 = (Inl e, r')" "cache_file r' = old" using fails(1,2) [OF r2(2)] by (cases "f r2") auto
  have app: "loop_iteration lib (xs @ ys) x = andthen (loop_iteration lib xs x) (\<lambda>_. loop_iteration lib ys)" for xs ys x
    by (induction xs arbitrary: x) (auto simp: andthen_def split: prod.splits sum.splits)
  have "run_loop lib (pre @ (as @ Handler f # bs) # post) r = (Inl e, r')"
    using r1(2) r2(1) r'(1) by (simp add: app andthen_def)
  then have x: "execute (run_loop lib (pre @ (as @ Handler f # bs) # post)) d = (Inl e, d\<lparr>dm_responder := Some r'\<rparr>)"
    using start(1) by (simp add: execute_def andthen_def)
  obtain code report where "catch_all_errors dm st argv (Inl t) = Inr (Returned (int code), report)" "0 < code" "code < 256"
    "\<exists>a b. report = a @ th_what t @ b"
    using uncaught_exception_report [OF exn_class_exception [OF fails(3,4)], of dm st argv] by blast
  with x r'(2) log_errors_report [OF logged, of failure] show ?thesis by blast
qed

section \<open>Examples\<close>

definition sample_daemon :: "responder daemon" where
  "sample_daemon = (new_daemon \<lparr>lg_level = 6, lg_syslog = False, lg_lines = []\<rparr> \<lparr>cr_uid = 0, cr_euid = 0, cr_gid = 0, cr_groups = {}\<rparr> Map.empty)
     \<lparr>dm_responder := Some (default_responder\<lparr>cache_dir := ''/d''\<rparr>)\<rparr>"


theorem handler_exception_loses_cache_witness:
  "\<forall>dm st argv post. \<exists>r' code report.
    execute (run_loop sample_net ([] @ ([] @ Handler (\<lambda>r. (Inl (Runtime_error ''bad query''), r)) # [Terminated]) # post)) sample_daemon
      = (Inl (Runtime_error ''bad query''), sample_daemon\<lparr>dm_responder := Some r'\<rparr>) \<and> cache_file r' = None
    \<and> catch_all_errors dm st argv (Inl (std_exception Std_runtime_error ''bad query'')) = Inr (Returned (int code), report)
    \<and> 0 < code \<and> (\<exists>a b. report = a @ ''bad query'' @ b)"
proof (intro allI)
  fix dm st argv post
  let ?t = "std_exception Std_runtime_error ''bad query''"
  let ?f = "\<lambda>r :: responder. (Inl (Runtime_error ''bad query'') :: unit res, r)"
  have d: "dm_responder sample_daemon = Some (default_responder\<lparr>cache_dir := ''/d''\<rparr>)"
    "cache_file (default_responder\<lparr>cache_dir := ''/d''\<rparr>) = None"
    by (simp_all add: sample_daemon_def default_responder_def new_responder_def)
  have l: "slog (Some []) (log_level_of (th_class ?t)) [log_line_of ?t] \<lparr>lg_level = 0, lg_syslog = False, lg_lines = []\<rparr>
      = (Inr (), \<lparr>lg_level = 0, lg_syslog = False, lg_lines = []\<rparr>)"
    by (simp add: std_exception_def log_levels slog_def)
  have q: "list_all (\<lambda>es. list_all (harmless sample_net (\<lambda>r. cache_file r = None)) es \<and> \<not> (\<exists>e \<in> set es. breaks e)) []"
    "list_all (harmless sample_net (\<lambda>r. cache_file r = None)) []" by simp_all
  have c: "is_a (th_class ?t) (exn_class (Runtime_error ''bad query''))" by (simp add: std_exception_def)
  from handler_exception_loses_cache [where f = ?f and old = None, OF q _ _ _ c d l, of "[Terminated]" post]
  show "\<exists>r' code report.
    execute (run_loop sample_net ([] @ ([] @ Handler ?f # [Terminated]) # post)) sample_daemon
      = (Inl (Runtime_error ''bad query''), sample_daemon\<lparr>dm_responder := Some r'\<rparr>) \<and> cache_file r' = None
    \<and> catch_all_errors dm st argv (Inl ?t) = Inr (Returned (int code), report)
    \<and> 0 < code \<and> (\<exists>a b. report = a @ ''bad query'' @ b)"
    by (simp add: std_exception_def) metis
qed

end
