(* ===== verification/Spec2Isabelle.thy ===== *)
theory Spec2Isabelle
  imports Encrypted_Clients Cdrill Daemon_Loop
begin

text \<open>
  A verification library for \<^verbatim>\<open>cdns\<close>, a caching and filtering DNS forwarder that speaks plain DNS and
  DNSCrypt.

  \<^bold>\<open>The program.\<close>  A \<^emph>\<open>daemon\<close> reads its options, opens a UDP and a TCP \<^emph>\<open>listener\<close>, gives up its privileges
  and runs an event loop.  A message of a client becomes an \<^emph>\<open>incoming request\<close>; the \<^emph>\<open>responder\<close> answers it
  from its filters, its cache or the hosts file, or makes an \<^emph>\<open>upstream request\<close> to a provider.  When the
  answer arrives, the responder stores it in the cache and the request answers its client.  The
  DNSCrypt responder extends this: it encrypts for providers whose certificate it has fetched with a
  \<^emph>\<open>certifier\<close>, and it can itself be a DNSCrypt server.

  \<^bold>\<open>How it is modelled.\<close>  Structs and classes are records, enumerations are datatypes, machine integers are
  words (\<open>byte\<close>, \<open>u16\<close>, \<open>u32\<close>) or numbers with explicit casts (\<open>cast_u16\<close>), buffers are lists of bytes of
  fixed length in which every access outside is the error \<open>Undefined_behaviour\<close>.  A function that may
  throw returns \<open>'a res\<close>, a sum of the exception (\<open>Runtime_error\<close>, \<open>Logic_error\<close>, \<open>Net_error\<close>, \<dots>) and the
  result; with state that survives the exception it returns a pair of both (\<open>andthen\<close>, \<open>catch_net\<close>).
  Object identity matters for sockets and for the requests of clients, which have explicit stores.
  The event loop is a step function on events; \<open>run_events\<close> runs any sequence of enabled events, and the
  locale \<open>machine\<close> gives invariants of all runs.  Loops are \<open>fun\<close> or \<open>function\<close> with a termination proof; no
  definition uses fuel, and every definition that a theorem evaluates is executable.

  \<^bold>\<open>What is a parameter.\<close>  \<^verbatim>\<open>libsodium\<close> (record \<open>sodium\<close>, with the documented laws of authenticated
  encryption, signatures and hexadecimal decoding as hypotheses), \<^verbatim>\<open>inet_pton\<close> and \<^verbatim>\<open>inet_ntop\<close> (record
  \<open>inet_lib\<close>), \<^verbatim>\<open>getopt_long\<close> and \<^verbatim>\<open>atof\<close>, the clock and random numbers, the contents of files, and what
  system calls on sockets and processes return.

  \<^bold>\<open>Foundations.\<close>
  \<^item> \<open>Prelude\<close>: the error monad with \<open>ensures\<close> and \<open>safe\<close>, lists as buffers, bytes and words, runs of events.
  \<^item> \<open>Str\<close> (\<^verbatim>\<open>sys/srcz/str.cpp\<close>), \<open>Packet\<close> (\<^verbatim>\<open>network/packet.hxx\<close>), \<open>Constants\<close> and \<open>Message_Header\<close>
    (\<^verbatim>\<open>dns/constants.hxx\<close>, \<^verbatim>\<open>dns/message_header.hxx\<close>), \<open>Address\<close> (\<^verbatim>\<open>network/srcz/address.cpp\<close>).

  \<^bold>\<open>DNS messages.\<close>
  \<^item> \<open>Query\<close>, \<open>Query_Build\<close>, \<open>Query_Ttl\<close> (\<^verbatim>\<open>dns/srcz/query.cpp\<close>): reading with bounds, building, the times to live.
    Shown: no accessor leaves the buffer, what is built is read back, and changes touch only their fields.
    The locale \<open>record_reader\<close> has the progress laws of the three readers of records.

  \<^bold>\<open>The plain responder.\<close>
  \<^item> \<open>Cache\<close>, \<open>Cache_File\<close> (\<^verbatim>\<open>dns/srcz/cache.cpp\<close>): a map with deadlines; storing and retrieving, the saved file.
  \<^item> \<open>Word_Set\<close>, \<open>Name_Filter\<close> (\<^verbatim>\<open>dns/srcz/filter.cpp\<close>): ordered sets of prefixes and suffixes (locale
    \<open>word_order\<close>, interpreted for both orders) are equivalent to a linear scan of the words.
  \<^item> \<open>Hosts\<close> (\<^verbatim>\<open>dns/srcz/hosts.cpp\<close>).
  \<^item> \<open>Responder\<close> (\<^verbatim>\<open>dns/srcz/responder.cpp\<close>) with \<open>Responder_Safety\<close> (memory safety of \<^verbatim>\<open>process\<close>),
    \<open>Responder_Policy\<close> (refinement of an abstract policy, refusals, failures) and \<open>Responder_Run\<close>
    (invariant of every run).

  \<^bold>\<open>DNSCrypt.\<close>
  \<^item> \<open>Crypt_Keys\<close> (\<^verbatim>\<open>crypt/crypt.cpp\<close>), \<open>Encryptor\<close> (\<^verbatim>\<open>encryptor.cpp\<close>, \<^verbatim>\<open>pad_buffer.cpp\<close>, \<^verbatim>\<open>server_crypt.cpp\<close>):
    round trips between client and server, rejection of everything that is not authentic, buffers.
  \<^item> \<open>Certificate\<close>, \<open>Csv\<close>, \<open>Resolver\<close>, \<open>Certifier\<close> (\<^verbatim>\<open>certificate.cpp\<close>, \<^verbatim>\<open>csv.cpp\<close>, \<^verbatim>\<open>resolver.cpp\<close>,
    \<^verbatim>\<open>certifier.cpp\<close>): which certificates are accepted and chosen, lists of resolvers, the timer of requests.
  \<^item> \<open>Cresponder\<close> (\<^verbatim>\<open>cresponder.cpp\<close>) and \<open>Encrypted_Service\<close>: encrypted queries are served as plain ones, and a
    client obtains the certificate of a server of this program.

  \<^bold>\<open>The network.\<close>
  \<^item> \<open>Socket\<close> (\<^verbatim>\<open>network/srcz/socket.cpp\<close>): objects that own descriptors (interpretation \<open>sockets\<close> of \<open>machine\<close>) and
    calls on open sockets.  An \<open>endpoint\<close> has what will arrive, what the system answers to sends, and what
    was sent.
  \<^item> \<open>Connection\<close> (\<^verbatim>\<open>connection.cpp\<close>): messages in datagrams, and on streams behind a length; the locale
    \<open>message_channel\<close> states what a protocol promises, and both protocols are interpretations.
  \<^item> \<open>Upstream\<close> (\<^verbatim>\<open>upstream.cpp\<close>, \<^verbatim>\<open>timeout.cpp\<close>): a request to a provider with its watchers and timeout;
    interpretation \<open>request\<close> of \<open>machine\<close>: at most one answer, and a timeout until then.
  \<^item> \<open>Listener\<close> (\<^verbatim>\<open>listener.cpp\<close>, \<^verbatim>\<open>incoming.cpp\<close>): the requests of clients as shared objects, for any responder
    that satisfies the locale \<open>query_service\<close>.
  \<^item> \<open>Client_Service\<close>: the plain responder is a \<open>query_service\<close>; runs of the whole service of clients.
  \<^item> \<open>Encrypted_Clients\<close>: the encrypting responder is a \<open>query_service\<close>, too; its listeners are memory safe in
    every run, decryption included.
  \<^item> \<open>Forwarding\<close>: upstream requests, listener and responder together, from the answer of a provider to the
    datagram for the client; the same with a DNSCrypt resolver.

  \<^bold>\<open>The process.\<close>
  \<^item> \<open>Options\<close> (\<^verbatim>\<open>options.cpp\<close>, \<^verbatim>\<open>crypt_options.cpp\<close>): the command line and the configuration file; the locale
    \<open>option_applier\<close> is interpreted for both daemons, whose option handling is a virtual function.
  \<^item> \<open>System\<close> (\<^verbatim>\<open>sys/logger.hxx\<close>, \<^verbatim>\<open>logger.cpp\<close>, \<^verbatim>\<open>sysunix.cpp\<close>, \<^verbatim>\<open>entropy.cpp\<close>): the log, sockets from \<^verbatim>\<open>systemd\<close>,
    privileges, running in the background.
  \<^item> \<open>Daemon\<close> (\<^verbatim>\<open>dns/srcz/daemon.cpp\<close>, \<^verbatim>\<open>dns/crypt/srcz/daemon.cpp\<close>): setup, execution and reloading of both daemons.
  \<^item> \<open>Error_Report\<close> (\<^verbatim>\<open>backtrace/exceptions.hxx\<close>, \<^verbatim>\<open>catch.cpp\<close>, \<^verbatim>\<open>backtrace.cpp\<close>, \<^verbatim>\<open>net_error.hxx\<close>, \<^verbatim>\<open>dns-main.cpp\<close>): classes
    of exceptions, the handlers around the main functions and their order, back traces, fatal signals.
    Shown: the handler for the most specific class runs, and the status tells which.
  \<^item> \<open>Daemon_Loop\<close> (\<^verbatim>\<open>dns/srcz/daemon.cpp\<close>): signals, the event loop, and how the daemon ends, with its cache saved
    or lost.
  \<^item> \<open>Cdrill\<close> (\<^verbatim>\<open>dns/crypt/srcz/cdrill.cpp\<close>): the command line client, against any server in the clear and against
    the server of this program with DNSCrypt.

  \<^bold>\<open>Where the code fails.\<close>  Some theorems state behaviour that is a defect: datagrams that end the service,
  answers that are lost or sent in the clear, questions that are never asked, clients that are dropped, certificates that are not
  renewed, buffers that are overrun.  They are as much a specification of the code as the others and
  mark what a repair has to change.

  \<^bold>\<open>Bounds.\<close>  Buffers have their sizes from the source (\<open>max_size\<close>, the reserved size of a packet); counters that
  the source keeps in \<^verbatim>\<open>std::size_t\<close> are natural numbers, since they count events; times are integers in
  the range of \<^verbatim>\<open>time_t\<close> where they are saved to a file.  A saved cache is loaded back for fewer than
  \<open>2 ^ 64\<close> entries.

  \<^bold>\<open>Not modelled.\<close>  Texts of log messages where they do not throw, statistics, notifications of \<^verbatim>\<open>systemd\<close>, output
  of usage and version: they only write text and change no state.  The settings of the floating point
  unit, the path of the executable and the stand-alone demangler: they are system interfaces.  Code for
  Windows, and code that is disabled by the preprocessor: it is not part of the program that is built.
\<close>

end
